(* ===== verification/Go_Prelude.thy ===== *)
theory Go_Prelude
  imports Main "HOL-Library.AList" "HOL-Library.Word" "HOL-Library.Sublist" "HOL-Library.Multiset"
begin

text \<open>
  The vocabulary every component of the development shares.

  \<^item> A Go \<^verbatim>\<open>map\<close> that the code ranges over is an association list (\<open>gomap\<close>): the order of
    the list is the order in which one \<^verbatim>\<open>range\<close> visits the entries. Go leaves that order open, so
    a theorem that holds for every list holds for every order. Lookup is \<^term>\<open>map_of\<close>, assignment is
    \<^term>\<open>AList.update\<close>, \<^verbatim>\<open>delete(m, k)\<close> is \<^term>\<open>AList.delete\<close>, and the invariant is that no key
    occurs twice.
  \<^item> A Go function that returns \<^verbatim>\<open>(T, error)\<close> has the result type \<open>sql_error + 'a\<close>, the error on the
    left. A run-time panic is the error \<open>Panic\<close>.
  \<^item> Go strings are byte sequences, HOL's \<^typ>\<open>string\<close>. \<open>ToLower\<close> is \<^verbatim>\<open>strings.ToLower\<close> on ASCII
    text, which is what database, table, view and index names are here.
\<close>

named_theorems gomap_simps \<open>lookup, keys and distinctness of Go maps after an update or a delete\<close>
named_theorems inv_intros \<open>preservation of component invariants\<close>

subsection \<open>Errors\<close>

text \<open>
  The error kinds of \<^verbatim>\<open>sql/errors.go\<close> and of the components, with the arguments they are created
  with; \<open>ErrNew kind arg\<close> is an error of one of the kinds that only report a value, \<open>ErrGeneric\<close> an error made by \<^verbatim>\<open>fmt.Errorf\<close>, \<open>Panic\<close> a run-time panic.
\<close>

datatype (plugins only: "code" "size") sql_error =
    ErrLockTimeout string
  | ErrLockDoesNotExist string
  | ErrLockNotOwned string string
  | ErrIllegalLockNameArgType string
  | ErrExistingView string string
  | ErrNonExistingView string string
  | ErrPidAlreadyUsed "64 word"
  | ErrNoMemoryAvailable
  | ErrKeyNotFound "64 word"
  | ErrDatabaseNotFound string
  | ErrTableNotFound string
  | ErrAsOfNotSupported string
  | ErrIndexNotFound string
  | ErrIndexIDAlreadyRegistered string
  | ErrIndexExpressionAlreadyRegistered string
  | ErrIndexDeleteInvalidStatus string
  | ErrUnexpectedRowLength nat nat
  | ErrInvalidType
  | ErrUniqueKeyViolation "int list"
  | ErrDeleteRowNotFound
  | ErrColumnNotFound string
  | ErrNilOperand
  | ErrUnableSort sql_error
  | ErrCharacterSetNotSupported string
  | ErrCollationNotSupported string
  | ErrInvalidBaseType string string
  | ErrLengthTooLarge int int
  | ErrLengthBeyondLimit
  | ErrBinaryCollation
  | ErrConvertToSQL string
  | ErrOutOfRange string
  | ErrFunctionAlreadyRegistered string
  | ErrFunctionNotFound string
  | ErrInvalidArgumentNumber string nat nat
  | ErrMaxAnalysisIters int
  | ErrNew string string
  | ErrGeneric string
  | Panic string

text \<open>The early return \<^verbatim>\<open>if err != nil { return ..., err }\<close> after a call.\<close>

definition bindE :: "'e + 'a \<Rightarrow> ('a \<Rightarrow> 'e + 'b) \<Rightarrow> 'e + 'b" where
  "bindE r f = (case r of Inl e \<Rightarrow> Inl e | Inr x \<Rightarrow> f x)"

lemma bindE_simps [simp]: "bindE (Inl e) f = Inl e" "bindE (Inr x) f = f x"
  by (simp_all add: bindE_def)

lemma bindE_eq_Inr_iff: "bindE r f = Inr y \<longleftrightarrow> (\<exists>x. r = Inr x \<and> f x = Inr y)"
  by (cases r) auto

lemma bindE_eq_Inl_iff: "bindE r f = Inl e \<longleftrightarrow> r = Inl e \<or> (\<exists>x. r = Inr x \<and> f x = Inl e)"
  by (cases r) auto

subsection \<open>Machine integers\<close>

type_synonym u8 = "8 word"
type_synonym u16 = "16 word"
type_synonym u32 = "32 word"
type_synonym u64 = "64 word"
type_synonym i64 = "64 word"

lemma i64_bounds: "- (2 ^ 63) \<le> sint a" "sint a < 2 ^ 63" for a :: i64
  using sint_lt [of a] sint_ge [of a] by simp_all

text \<open>Signed arithmetic that does not overflow.\<close>

lemma sint_add_eq:
  "- (2 ^ 63) \<le> sint a + sint b \<Longrightarrow> sint a + sint b < 2 ^ 63 \<Longrightarrow> sint (a + b) = sint a + sint b" for a b :: i64
  unfolding sint_word_ariths(1) by (rule signed_take_bit_int_eq_self) simp_all

lemma sint_sub_eq:
  "- (2 ^ 63) \<le> sint a - sint b \<Longrightarrow> sint a - sint b < 2 ^ 63 \<Longrightarrow> sint (a - b) = sint a - sint b" for a b :: i64
  unfolding sint_word_ariths(2) by (rule signed_take_bit_int_eq_self) simp_all

lemma sint_mult_eq:
  "- (2 ^ 63) \<le> sint a * sint b \<Longrightarrow> sint a * sint b < 2 ^ 63 \<Longrightarrow> sint (a * b) = sint a * sint b" for a b :: i64
  unfolding sint_word_ariths(3) by (rule signed_take_bit_int_eq_self) simp_all

lemma sint_succ_less: "sint a < sint b \<Longrightarrow> sint (a + 1) = sint a + 1" for a b :: i64
  using sint_add_eq [of a 1] i64_bounds [of a] i64_bounds [of b] by simp

lemma sint_pred_pos: "0 < sint a \<Longrightarrow> sint (a - 1) = sint a - 1" for a :: i64
  using sint_sub_eq [of a 1] i64_bounds [of a] by simp

subsection \<open>Go maps\<close>

type_synonym ('k, 'v) gomap = "('k \<times> 'v) list"

abbreviation keys :: "('k, 'v) gomap \<Rightarrow> 'k list" where
  "keys m \<equiv> map fst m"

definition map_ok :: "('k, 'v) gomap \<Rightarrow> bool" where
  "map_ok m \<longleftrightarrow> distinct (keys m)"

lemma map_ok_Nil [simp, intro]: "map_ok []"
  by (simp add: map_ok_def)

lemma map_ok_update [simp, intro]: "map_ok m \<Longrightarrow> map_ok (AList.update k v m)"
  unfolding map_ok_def by (rule AList.distinct_update)

lemma map_ok_delete [simp, intro]: "map_ok m \<Longrightarrow> map_ok (AList.delete k m)"
  unfolding map_ok_def by (rule AList.distinct_delete)

lemma map_ok_filter [simp, intro]: "map_ok m \<Longrightarrow> map_ok (filter P m)"
  unfolding map_ok_def by (rule distinct_map_filter)

lemma map_of_update [simp, gomap_simps]:
  "map_of (AList.update k v m) = (map_of m)(k \<mapsto> v)"
  by (rule AList.update_conv')

lemma map_of_delete_fun [simp, gomap_simps]:
  "map_of (AList.delete k m) = (map_of m)(k := None)"
  by (rule AList.delete_conv')

lemma map_of_eq_Some_iff_in [gomap_simps]:
  "map_ok m \<Longrightarrow> map_of m k = Some v \<longleftrightarrow> (k, v) \<in> set m"
  unfolding map_ok_def by simp

lemma map_of_filter_fst:
  "map_of (filter (\<lambda>e. P (fst e)) m) k = (if P k then map_of m k else None)"
  by (induction m) auto

lemma map_of_filter_ok [gomap_simps]:
  assumes "map_ok m"
  shows "map_of (filter (\<lambda>(k, v). P k v) m) k =
    (case map_of m k of None \<Rightarrow> None | Some v \<Rightarrow> if P k v then Some v else None)"
  using assms unfolding map_ok_def
proof (induction m)
  case (Cons e m)
  then show ?case
    by (cases e) (auto split: option.splits intro: map_of_eq_None_iff [THEN iffD2] simp: map_of_eq_None_iff)
qed simp

lemma set_keys_update [gomap_simps]:
  "set (keys (AList.update k v m)) = insert k (set (keys m))"
  by (simp add: AList.dom_update)

lemma set_AList_update_subset: "set (AList.update k v m) \<subseteq> insert (k, v) (set m)"
  by (induction m) auto

lemma set_AList_delete_subset: "set (AList.delete k m) \<subseteq> set m"
  by (auto simp: AList.delete_eq)

lemma update_append_new: "map_of m k = None \<Longrightarrow> AList.update k v m = m @ [(k, v)]"
  by (induction m) (auto split: if_splits)

subsection \<open>Strings\<close>

definition ascii_lower :: "char \<Rightarrow> char" where
  "ascii_lower c = (if 65 \<le> (of_char c :: nat) \<and> (of_char c :: nat) \<le> 90
     then char_of (of_char c + 32 :: nat) else c)"

definition ToLower :: "string \<Rightarrow> string" where
  "ToLower s = map ascii_lower s"

lemma ascii_lower_idem [simp]: "ascii_lower (ascii_lower c) = ascii_lower c"
  by (auto simp: ascii_lower_def)

lemma ToLower_idem [simp]: "ToLower (ToLower s) = ToLower s"
  by (simp add: ToLower_def comp_def)

lemma length_ToLower [simp]: "length (ToLower s) = length s"
  by (simp add: ToLower_def)

lemma ToLower_eq_Nil [simp]: "ToLower s = [] \<longleftrightarrow> s = []"
  by (simp add: ToLower_def)

text \<open>\<^verbatim>\<open>strings.Join\<close>.\<close>

fun Join :: "string list \<Rightarrow> string \<Rightarrow> string" where
  "Join [] sep = []"
| "Join [s] sep = s"
| "Join (s # t # ss) sep = s @ sep @ Join (t # ss) sep"

text \<open>\<^verbatim>\<open>strconv.Itoa\<close> on non-negative numbers, and reading the digits back.\<close>

fun Itoa :: "nat \<Rightarrow> string" where
  "Itoa n = (if n < 10 then [char_of (48 + n)] else Itoa (n div 10) @ [char_of (48 + n mod 10)])"

declare Itoa.simps [simp del]

definition digits_val :: "string \<Rightarrow> nat" where
  "digits_val s = foldl (\<lambda>a c. 10 * a + (of_char c - 48)) 0 s"

lemma of_char_digit: "d < 10 \<Longrightarrow> (of_char (char_of (48 + d :: nat)) :: nat) = 48 + d"
  by simp

lemma digits_val_Itoa [simp]: "digits_val (Itoa n) = n"
proof (induction n rule: Itoa.induct)
  case (1 n)
  show ?case
  proof (cases "n < 10")
    case True
    then show ?thesis by (subst Itoa.simps) (simp add: digits_val_def of_char_digit)
  next
    case False
    with "1.IH" have "digits_val (Itoa (n div 10)) = n div 10" by simp
    moreover have "(of_char (char_of (48 + n mod 10)) :: nat) = 48 + n mod 10"
      by (rule of_char_digit) simp
    ultimately show ?thesis
      using False by (subst Itoa.simps) (simp add: digits_val_def)
  qed
qed

lemma inj_Itoa: "inj Itoa"
  by (rule inj_on_inverseI [of _ digits_val]) simp

lemma Itoa_eq_iff [simp]: "Itoa m = Itoa n \<longleftrightarrow> m = n"
  using inj_Itoa by (simp add: inj_eq)

lemma Itoa_not_Nil [simp]: "Itoa n \<noteq> []"
  by (subst Itoa.simps) simp

subsection \<open>Lists\<close>

text \<open>Removing the element at a position: Go's \<^verbatim>\<open>append(xs[:i], xs[i+1:]...)\<close>.\<close>

definition remove_at :: "nat \<Rightarrow> 'a list \<Rightarrow> 'a list" where
  "remove_at i xs = take i xs @ drop (Suc i) xs"

lemma length_remove_at [simp]: "i < length xs \<Longrightarrow> length (remove_at i xs) = length xs - 1"
  by (simp add: remove_at_def)

lemma mset_remove_at:
  assumes "i < length xs"
  shows "mset xs = add_mset (xs ! i) (mset (remove_at i xs))"
proof -
  have "mset xs = mset (take i xs @ xs ! i # drop (Suc i) xs)"
    using id_take_nth_drop [OF assms] by simp
  then show ?thesis by (simp add: remove_at_def)
qed

lemma mset_remove_at_diff:
  "i < length xs \<Longrightarrow> mset (remove_at i xs) = mset xs - {#xs ! i#}"
  using mset_remove_at by fastforce

lemma set_remove_at_subset: "set (remove_at i xs) \<subseteq> set xs"
  by (auto simp: remove_at_def dest: in_set_takeD in_set_dropD)

end
