(* ===== verification/Similar_Text.thy ===== *)
theory Similar_Text
  imports Go_Prelude
begin

text \<open>
  \<^verbatim>\<open>internal/similartext/similartext.go\<close>: the edit distance used for "maybe you mean" suggestions and
  the suggestion itself. The dynamic-programming routine keeps two rows of its matrix and
  alternates between them; the theory shows that it computes the insert/delete distance of the two
  byte strings, stated with the longest common subsequence.
\<close>

section \<open>distanceForStrings\<close>

text \<open>The inner loop \<^verbatim>\<open>for j := 1; j < width; j++\<close> fills the row \<^verbatim>\<open>cur\<close> from \<^verbatim>\<open>prev\<close>.\<close>

function dist_inner :: "char \<Rightarrow> string \<Rightarrow> nat list \<Rightarrow> nat list \<Rightarrow> nat \<Rightarrow> nat list" where
  "dist_inner sc target prev cur j =
     (if j < length target + 1 then
        let delCost = prev ! j + 1;
            matchSubCost = (if sc \<noteq> target ! (j - 1) then prev ! (j - 1) + 2 else prev ! (j - 1));
            insCost = cur ! (j - 1) + 1
        in dist_inner sc target prev (cur[j := min delCost (min matchSubCost insCost)]) (Suc j)
      else cur)"
  by pat_completeness auto
termination
  by (relation "measure (\<lambda>(sc, target, prev, cur, j). length target + 1 - j)") auto

declare dist_inner.simps [simp del]

text \<open>The outer loop over the source; row \<^verbatim>\<open>i % 2\<close> of the matrix is overwritten in round \<^verbatim>\<open>i\<close>.\<close>

function dist_outer :: "string \<Rightarrow> string \<Rightarrow> nat list list \<Rightarrow> nat \<Rightarrow> nat list list" where
  "dist_outer source target matrix i =
     (if i < length source + 1 then
        let cur = (matrix ! (i mod 2))[0 := i];
            prev = matrix ! ((i - 1) mod 2)
        in dist_outer source target
             (matrix[i mod 2 := dist_inner (source ! (i - 1)) target prev cur 1]) (Suc i)
      else matrix)"
  by pat_completeness auto
termination
  by (relation "measure (\<lambda>(source, target, matrix, i). length source + 1 - i)") auto

declare dist_outer.simps [simp del]

definition distanceForStrings :: "string \<Rightarrow> string \<Rightarrow> nat" where
  "distanceForStrings source target =
     (let height = length source + 1;
          width = length target + 1;
          matrix = [[0..<width], 1 # replicate (length target) 0];
          matrix' = dist_outer source target matrix 1
      in matrix' ! ((height - 1) mod 2) ! (width - 1))"

section \<open>The specification\<close>

text \<open>The length of a longest common subsequence, by the textbook recursion.\<close>

fun lcs :: "'a list \<Rightarrow> 'a list \<Rightarrow> nat" where
  "lcs [] ys = 0"
| "lcs xs [] = 0"
| "lcs (x # xs) (y # ys) =
     (if x = y then Suc (lcs xs ys) else max (lcs xs (y # ys)) (lcs (x # xs) ys))"


lemma lcs_Nil2 [simp]: "lcs xs [] = 0"
  by (cases xs) simp_all

lemma lcs_attained: "\<exists>zs. subseq zs xs \<and> subseq zs ys \<and> length zs = lcs xs ys"
proof (induction xs ys rule: lcs.induct)
  case (3 x xs y ys)
  show ?case
  proof (cases "x = y")
    case True
    with 3(1) obtain zs where "subseq zs xs" "subseq zs ys" "length zs = lcs xs ys" by blast
    with True show ?thesis by (intro exI [of _ "x # zs"]) simp
  next
    case False
    from 3(2,3) [OF False] obtain zs zs' where
      "subseq zs xs" "subseq zs (y # ys)" "length zs = lcs xs (y # ys)"
      "subseq zs' (x # xs)" "subseq zs' ys" "length zs' = lcs (x # xs) ys" by blast
    with False show ?thesis
      by (cases "lcs xs (y # ys) \<ge> lcs (x # xs) ys")
        (auto simp: max_def intro: subseq_Cons')
  qed
qed auto

lemma lcs_greatest: "subseq zs xs \<Longrightarrow> subseq zs ys \<Longrightarrow> length zs \<le> lcs xs ys"
proof (induction xs ys arbitrary: zs rule: lcs.induct)
  case (3 x xs y ys)
  show ?case
  proof (cases zs)
    case zs: (Cons z zs')
    consider "x = y" | "x \<noteq> y" "z \<noteq> x" | "x \<noteq> y" "z \<noteq> y" by blast
    then show ?thesis
    proof cases
      case 1
      with 3 zs show ?thesis
        by (cases "z = x") (auto dest: subseq_Cons' intro: le_SucI)
    next
      case 2
      with 3(4) zs have "subseq zs xs" by simp
      with 3(2) 3(5) 2 show ?thesis by (simp add: le_max_iff_disj)
    next
      case 3
      with "3.prems" zs have "subseq zs ys" by simp
      with "3.IH"(3) "3.prems" 3 show ?thesis by (simp add: le_max_iff_disj)
    qed
  qed simp
qed auto

lemma lcs_le: "lcs xs ys \<le> length xs" "lcs xs ys \<le> length ys"
  using lcs_attained [of xs ys] by (auto dest: list_emb_length)

lemma lcs_mono:
  assumes "subseq xs xs'" "subseq ys ys'"
  shows "lcs xs ys \<le> lcs xs' ys'"
proof -
  obtain zs where "subseq zs xs" "subseq zs ys" "length zs = lcs xs ys"
    using lcs_attained by blast
  with assms show ?thesis
    by (metis lcs_greatest subseq_order.trans)
qed

lemma subseq_revI: "subseq xs ys \<Longrightarrow> subseq (rev xs) (rev ys)"
  by (induction rule: list_emb.induct) (auto intro: list_emb_append_mono subseq_rev_drop_many)

lemma lcs_rev: "lcs (rev xs) (rev ys) = lcs xs ys"
proof -
  have le: "lcs us vs \<le> lcs (rev us) (rev vs)" for us vs :: "'a list"
  proof -
    obtain zs where "subseq zs us" "subseq zs vs" "length zs = lcs us vs"
      using lcs_attained by blast
    then show ?thesis
      using lcs_greatest [of "rev zs" "rev us" "rev vs"] by (simp add: subseq_revI)
  qed
  from le [of xs ys] le [of "rev xs" "rev ys"] show ?thesis by simp
qed

lemma lcs_snoc:
  "lcs (xs @ [x]) (ys @ [y]) =
     (if x = y then Suc (lcs xs ys) else max (lcs xs (ys @ [y])) (lcs (xs @ [x]) ys))"
proof -
  have "lcs (xs @ [x]) (ys @ [y]) = lcs (x # rev xs) (y # rev ys)"
    using lcs_rev [of "xs @ [x]" "ys @ [y]"] by simp
  moreover have "lcs (rev xs) (y # rev ys) = lcs xs (ys @ [y])"
    using lcs_rev [of xs "ys @ [y]"] by simp
  moreover have "lcs (x # rev xs) (rev ys) = lcs (xs @ [x]) ys"
    using lcs_rev [of "xs @ [x]" ys] by simp
  ultimately show ?thesis by (simp add: lcs_rev)
qed

lemma lcs_snoc_le: "lcs (xs @ [x]) ys \<le> Suc (lcs xs ys)"
proof -
  obtain zs where zs: "subseq zs (xs @ [x])" "subseq zs ys" "length zs = lcs (xs @ [x]) ys"
    using lcs_attained by blast
  then obtain us vs where split: "zs = us @ vs" "subseq us xs" "subseq vs [x]"
    by (auto simp: subseq_append_iff)
  then have "length vs \<le> 1" using list_emb_length by fastforce
  moreover have "subseq us ys"
    using zs(2) split(1) by (metis subseq_order.order_refl subseq_order.trans subseq_rev_drop_many)
  then have "length us \<le> lcs xs ys" using split(2) lcs_greatest by blast
  ultimately show ?thesis using zs(3) split(1) by simp
qed

text \<open>The insert/delete distance: what is left of both strings around a longest common subsequence.\<close>

definition indel :: "'a list \<Rightarrow> 'a list \<Rightarrow> nat" where
  "indel xs ys = length xs + length ys - 2 * lcs xs ys"

lemma indel_Nil [simp]: "indel [] ys = length ys" "indel xs [] = length xs"
  by (simp_all add: indel_def)

lemma lcs_commute: "lcs xs ys = lcs ys xs"
  by (induction xs ys rule: lcs.induct) (auto simp: max.commute)

lemma indel_lcs: "indel xs ys + 2 * lcs xs ys = length xs + length ys"
  using lcs_le [of xs ys] by (simp add: indel_def)

lemma indel_snoc:
  "indel (xs @ [x]) (ys @ [y]) =
     min (indel xs (ys @ [y]) + 1)
         (min (if x \<noteq> y then indel xs ys + 2 else indel xs ys) (indel (xs @ [x]) ys + 1))"
proof -
  have b: "lcs xs ys \<le> lcs xs (ys @ [y])" "lcs xs ys \<le> lcs (xs @ [x]) ys"
    "lcs (xs @ [x]) ys \<le> Suc (lcs xs ys)" "lcs xs (ys @ [y]) \<le> Suc (lcs xs ys)"
    using lcs_snoc_le [of xs x ys] lcs_snoc_le [of ys y xs]
    by (auto intro: lcs_mono subseq_rev_drop_many simp: lcs_commute [of ys] lcs_commute [of "ys @ [y]"])
  from b have "lcs xs (ys @ [y]) = lcs xs ys \<or> lcs xs (ys @ [y]) = Suc (lcs xs ys)"
    and "lcs (xs @ [x]) ys = lcs xs ys \<or> lcs (xs @ [x]) ys = Suc (lcs xs ys)"
    by auto
  with indel_lcs [of xs ys] indel_lcs [of "xs @ [x]" ys] indel_lcs [of xs "ys @ [y]"]
    indel_lcs [of "xs @ [x]" "ys @ [y]", unfolded lcs_snoc]
  show ?thesis by (elim disjE; cases "x = y") simp_all
qed

section \<open>The routine computes the distance\<close>

lemma take_Suc_snoc: "i < length xs \<Longrightarrow> take (Suc i) xs = take i xs @ [xs ! i]"
  by (rule take_Suc_conv_app_nth)

lemma dist_inner_correct:
  assumes i: "i < length source"
    and prev: "\<And>k. k \<le> length target \<Longrightarrow> prev ! k = indel (take i source) (take k target)"
    and "1 \<le> j" and "j \<le> length target + 1" and "length cur = length target + 1"
    and "\<And>k. k < j \<Longrightarrow> cur ! k = indel (take (Suc i) source) (take k target)"
  shows "length (dist_inner (source ! i) target prev cur j) = length target + 1 \<and>
    (\<forall>k \<le> length target. dist_inner (source ! i) target prev cur j ! k
       = indel (take (Suc i) source) (take k target))"
  using assms(3-)
proof (induction "length target + 1 - j" arbitrary: cur j)
  case 0
  then have "dist_inner (source ! i) target prev cur j = cur" by (subst dist_inner.simps) simp
  with 0 show ?case by simp
next
  case (Suc n)
  then obtain m where m: "j = Suc m" "m < length target" by (cases j) auto
  define v where "v = min (prev ! j + 1)
    (min (if source ! i \<noteq> target ! m then prev ! m + 2 else prev ! m) (cur ! m + 1))"
  have step: "dist_inner (source ! i) target prev cur j
      = dist_inner (source ! i) target prev (cur[j := v]) (Suc j)"
    using m by (subst dist_inner.simps) (simp add: Let_def v_def)
  have v: "v = indel (take (Suc i) source) (take (Suc m) target)"
    unfolding v_def take_Suc_snoc [OF i] take_Suc_snoc [OF m(2)] indel_snoc
    using prev [of j] prev [of m] Suc.prems(4) [of m] m i by (simp add: take_Suc_snoc)
  have cur: "cur[j := v] ! k = indel (take (Suc i) source) (take k target)" if "k < Suc j" for k
    using that v m Suc.prems(3,4) by (cases "k = j") simp_all
  show ?case unfolding step
    by (rule Suc.hyps(1)) (use Suc.hyps(2) Suc.prems(3) m cur in simp_all)
qed

definition rows_ok :: "string \<Rightarrow> string \<Rightarrow> nat list list \<Rightarrow> nat \<Rightarrow> bool" where
  "rows_ok source target matrix i \<longleftrightarrow> length matrix = 2 \<and>
     (\<forall>r < 2. length (matrix ! r) = length target + 1) \<and>
     (\<forall>k \<le> length target. matrix ! (i mod 2) ! k = indel (take i source) (take k target))"

lemma dist_outer_correct:
  assumes "rows_ok source target matrix i" and "i \<le> length source"
  shows "rows_ok source target (dist_outer source target matrix (Suc i)) (length source)"
  using assms
proof (induction "length source - i" arbitrary: i matrix)
  case 0
  then have "dist_outer source target matrix (Suc i) = matrix" by (subst dist_outer.simps) simp
  with 0 show ?case by simp
next
  case (Suc n)
  define r where "r = Suc i mod 2"
  have r: "r < 2" "i mod 2 \<noteq> r" "i mod 2 < 2" by (simp_all add: r_def) presburger
  let ?cur = "(matrix ! r)[0 := Suc i]"
  let ?row = "dist_inner (source ! i) target (matrix ! (i mod 2)) ?cur 1"
  have i: "i < length source" using Suc.hyps(2) by simp
  have row: "length ?row = length target + 1 \<and>
      (\<forall>k \<le> length target. ?row ! k = indel (take (Suc i) source) (take k target))"
    by (rule dist_inner_correct) (use Suc.prems i r in \<open>auto simp: rows_ok_def\<close>)
  have step: "dist_outer source target matrix (Suc i)
      = dist_outer source target (matrix[r := ?row]) (Suc (Suc i))"
    using i by (subst dist_outer.simps) (simp add: Let_def r_def)
  have "rows_ok source target (matrix[r := ?row]) (Suc i)"
    using row Suc.prems r by (auto simp: rows_ok_def r_def [symmetric] nth_list_update)
  with Suc.hyps i show ?case by (simp add: step)
qed

text \<open>The two-row routine returns the insert/delete distance.\<close>

lemma distanceForStrings_indel: "distanceForStrings source target = indel source target"
proof -
  let ?m = "[[0..<length target + 1], 1 # replicate (length target) 0]"
  have "rows_ok source target ?m 0"
    by (simp add: rows_ok_def nth_Cons' le_imp_less_Suc del: upt_Suc)
  then have "rows_ok source target (dist_outer source target ?m 1) (length source)"
    using dist_outer_correct by fastforce
  then show ?thesis
    by (simp add: distanceForStrings_def rows_ok_def Let_def del: upt_Suc)
qed

section \<open>Find\<close>

text \<open>\<^verbatim>\<open>DistanceSkipped\<close>: names at this distance or more are not suggested.\<close>

definition DistanceSkipped :: nat where
  "DistanceSkipped = 3"

text \<open>
  The loop over the names: the smallest distance so far (\<open>None\<close> for the initial \<^verbatim>\<open>-1\<close>) and the names
  met so far, grouped by distance in \<^verbatim>\<open>matchMap\<close>.
\<close>

fun find_loop :: "string \<Rightarrow> string list \<Rightarrow> nat option \<Rightarrow> (nat, string list) gomap
    \<Rightarrow> nat option \<times> (nat, string list) gomap" where
  "find_loop src [] minDistance matchMap = (minDistance, matchMap)"
| "find_loop src (name # names) minDistance matchMap =
     (let dist = distanceForStrings name src in
      if dist \<ge> DistanceSkipped then find_loop src names minDistance matchMap
      else
        let minDistance' = (case minDistance of None \<Rightarrow> Some dist
              | Some m \<Rightarrow> if dist < m then Some dist else Some m);
            old = (case map_of matchMap dist of None \<Rightarrow> [] | Some ns \<Rightarrow> ns)
        in find_loop src names minDistance' (AList.update dist (old @ [name]) matchMap))"

definition Find :: "string list \<Rightarrow> string \<Rightarrow> string" where
  "Find names src =
     (if length src = 0 then []
      else case find_loop src names None [] of
        (minDistance, matchMap) \<Rightarrow>
          if length matchMap = 0 then []
          else '', maybe you mean '' @
            Join (case minDistance of None \<Rightarrow> [] | Some m \<Rightarrow>
                (case map_of matchMap m of None \<Rightarrow> [] | Some ns \<Rightarrow> ns)) '' or '' @ ''?'')"

text \<open>\<^verbatim>\<open>FindFromMap\<close>, for a map with string keys; the others do not type-check here.\<close>

definition FindFromMap :: "(string, 'v) gomap \<Rightarrow> string \<Rightarrow> string" where
  "FindFromMap names src = Find (keys names) src"

text \<open>What is suggested: the names closest to \<open>src\<close>, in the order given, if close enough.\<close>

definition similar :: "string \<Rightarrow> string list \<Rightarrow> string list" where
  "similar src names = [n \<leftarrow> names. indel n src < 3 \<and> (\<forall>m \<in> set names. indel n src \<le> indel m src)]"

definition bucket :: "string \<Rightarrow> string list \<Rightarrow> nat \<Rightarrow> string list" where
  "bucket src names d = [n \<leftarrow> names. indel n src = d \<and> d < 3]"

definition close_dists :: "string \<Rightarrow> string list \<Rightarrow> nat set" where
  "close_dists src names = {d. d < 3 \<and> (\<exists>n \<in> set names. indel n src = d)}"

definition min_opt :: "nat option \<Rightarrow> nat \<Rightarrow> nat" where
  "min_opt m d = (case m of None \<Rightarrow> d | Some k \<Rightarrow> min d k)"

lemma find_loop_far:
  "3 \<le> indel name src \<Longrightarrow> find_loop src (name # names) m mm = find_loop src names m mm"
  by (simp add: distanceForStrings_indel DistanceSkipped_def)

lemma find_loop_close:
  "indel name src < 3 \<Longrightarrow> find_loop src (name # names) m mm =
     find_loop src names (Some (min_opt m (indel name src)))
       (AList.update (indel name src)
          ((case map_of mm (indel name src) of None \<Rightarrow> [] | Some ns \<Rightarrow> ns) @ [name]) mm)"
  by (simp add: distanceForStrings_indel DistanceSkipped_def Let_def min_opt_def min_def split: option.split)

lemmas find_loop_steps = find_loop_far find_loop_close
declare find_loop.simps(2) [simp del]

lemma find_loop_buckets:
  assumes "find_loop src names m mm = (m', mm')"
  shows "(case map_of mm' d of None \<Rightarrow> [] | Some ns \<Rightarrow> ns)
     = (case map_of mm d of None \<Rightarrow> [] | Some ns \<Rightarrow> ns) @ bucket src names d"
  using assms
proof (induction names arbitrary: m mm)
  case (Cons name names)
  then show ?case
    by (cases "indel name src < 3") (auto simp: bucket_def find_loop_steps)
qed (simp add: bucket_def)

lemma close_dists_Cons:
  "close_dists src (n # names) =
     (if indel n src < 3 then insert (indel n src) (close_dists src names) else close_dists src names)"
  by (auto simp: close_dists_def)

lemma find_loop_min:
  assumes "find_loop src names m mm = (m', mm')"
  shows "(m' = None \<longleftrightarrow> m = None \<and> close_dists src names = {}) \<and>
    (\<forall>k. m' = Some k \<longrightarrow> (k \<in> close_dists src names \<or> m = Some k) \<and>
       (\<forall>d \<in> close_dists src names. k \<le> d) \<and> (\<forall>j. m = Some j \<longrightarrow> k \<le> j))"
  using assms
proof (induction names arbitrary: m mm)
  case Nil
  then show ?case by (auto simp: close_dists_def)
next
  case (Cons name names)
  show ?case
  proof (cases "indel name src < 3")
    case False
    then have "find_loop src names m mm = (m', mm')" using Cons.prems by (simp add: find_loop_far)
    from Cons.IH [OF this] False show ?thesis by (auto simp: close_dists_Cons)
  next
    case True
    then have "find_loop src names (Some (min_opt m (indel name src)))
       (AList.update (indel name src)
          ((case map_of mm (indel name src) of None \<Rightarrow> [] | Some ns \<Rightarrow> ns) @ [name]) mm) = (m', mm')"
      using Cons.prems by (simp add: find_loop_close)
    from Cons.IH [OF this] obtain k where k: "m' = Some k"
      "k \<in> close_dists src names \<or> k = min_opt m (indel name src)"
      "\<forall>d \<in> close_dists src names. k \<le> d" "k \<le> min_opt m (indel name src)"
      by auto
    then show ?thesis
      using True by (cases m) (auto simp: close_dists_Cons min_opt_def min_def split: if_splits)
  qed
qed

lemma find_loop_empty:
  assumes "find_loop src names m mm = (m', mm')"
  shows "mm' = [] \<longleftrightarrow> mm = [] \<and> close_dists src names = {}"
  using assms
proof (induction names arbitrary: m mm)
  case (Cons name names)
  then show ?case
    by (cases "indel name src < 3")
      (auto simp: close_dists_Cons find_loop_steps AList.update_nonempty)
qed (simp add: close_dists_def)

lemma closest_ex:
  assumes "names \<noteq> []"
  shows "\<exists>n \<in> set names. \<forall>m \<in> set names. indel n src \<le> indel m src"
proof -
  have "Min ((\<lambda>n. indel n src) ` set names) \<in> (\<lambda>n. indel n src) ` set names"
    using assms by (intro Min_in) auto
  then obtain n where n: "n \<in> set names" "indel n src = Min ((\<lambda>n. indel n src) ` set names)" by auto
  then have "\<forall>m \<in> set names. indel n src \<le> indel m src" by simp
  with n(1) show ?thesis by blast
qed

lemma similar_empty_iff: "similar src names = [] \<longleftrightarrow> close_dists src names = {}"
proof
  assume empty: "similar src names = []"
  show "close_dists src names = {}"
  proof (rule ccontr)
    assume "close_dists src names \<noteq> {}"
    then obtain m where m: "m \<in> set names" "indel m src < 3" by (auto simp: close_dists_def)
    then have "names \<noteq> []" by auto
    then obtain n where n: "n \<in> set names" "\<forall>m \<in> set names. indel n src \<le> indel m src"
      using closest_ex by blast
    with m have "indel n src < 3" by (meson le_less_trans)
    with n have "n \<in> set (similar src names)" by (simp add: similar_def)
    with empty show False by simp
  qed
qed (auto simp: similar_def close_dists_def filter_empty_conv)

lemma bucket_similar:
  assumes "k \<in> close_dists src names" and "\<forall>d \<in> close_dists src names. k \<le> d"
  shows "bucket src names k = similar src names"
proof -
  from assms(1) obtain n0 where n0: "n0 \<in> set names" "indel n0 src = k" "k < 3"
    by (auto simp: close_dists_def)
  have min: "k \<le> indel m src" if "m \<in> set names" for m
  proof (cases "indel m src < 3")
    case True
    with that have "indel m src \<in> close_dists src names" by (auto simp: close_dists_def)
    with assms(2) show ?thesis by blast
  next
    case False
    with n0(3) show ?thesis by simp
  qed
  have "indel n src = k \<and> k < 3 \<longleftrightarrow> indel n src < 3 \<and> (\<forall>m \<in> set names. indel n src \<le> indel m src)"
    if "n \<in> set names" for n
    using min that n0 by (metis order_antisym)
  then show ?thesis
    unfolding bucket_def similar_def by (intro filter_cong) auto
qed

lemma Find_similar:
  "Find names src = (if src = [] \<or> similar src names = [] then []
     else '', maybe you mean '' @ Join (similar src names) '' or '' @ ''?'')"
proof -
  obtain m' mm' where l: "find_loop src names None [] = (m', mm')" by fastforce
  note min = find_loop_min [OF l] and empty = find_loop_empty [OF l]
  show ?thesis
  proof (cases "close_dists src names = {}")
    case True
    with l empty show ?thesis by (simp add: Find_def similar_empty_iff)
  next
    case False
    with min obtain k where k: "m' = Some k" by auto
    with min have "bucket src names k = similar src names" by (intro bucket_similar) auto
    with find_loop_buckets [OF l, of k] False k l empty show ?thesis
      by (simp add: Find_def similar_empty_iff)
  qed
qed

section \<open>Properties\<close>

text \<open>C11. The two-row dynamic program of \<^verbatim>\<open>distanceForStrings\<close> returns the number of insertions and
  deletions that separate the strings: some common subsequence \<open>zs\<close> accounts for all other bytes, and
  no common subsequence is longer than \<open>zs\<close>.
\<close>

theorem distance_is_indel_distance:
  "\<exists>zs. subseq zs source \<and> subseq zs target \<and>
     (\<forall>us. subseq us source \<and> subseq us target \<longrightarrow> length us \<le> length zs) \<and>
     distanceForStrings source target + 2 * length zs = length source + length target"
proof -
  obtain zs where "subseq zs source" "subseq zs target" "length zs = lcs source target"
    using lcs_attained by blast
  then show ?thesis
    using indel_lcs [of source target] lcs_greatest by (metis distanceForStrings_indel)
qed

theorem distance_is_indel_distance_witness:
  "\<exists>zs. subseq zs ''mytabel'' \<and> subseq zs ''mytable'' \<and>
     distanceForStrings ''mytabel'' ''mytable'' + 2 * length zs = 14 \<and>
     distanceForStrings ''mytabel'' ''mytable'' = 2"
proof -
  have "distanceForStrings ''mytabel'' ''mytable'' = 2"
    by (simp add: distanceForStrings_indel indel_def)
  then show ?thesis
    using distance_is_indel_distance [of "''mytabel''" "''mytable''"] by auto
qed

text \<open>C20. \<^verbatim>\<open>Find\<close> suggests exactly the names at the smallest distance from \<open>src\<close>, in the order of
  \<open>names\<close>, when that distance is below \<^verbatim>\<open>DistanceSkipped\<close>, and returns the empty string when \<open>src\<close> is
  empty or no name is that close.
\<close>

theorem Find_suggests_closest:
  "Find names src =
     (let close = [n \<leftarrow> names. distanceForStrings n src < DistanceSkipped \<and>
            list_all (\<lambda>m. distanceForStrings n src \<le> distanceForStrings m src) names]
      in if src = [] \<or> close = [] then []
         else '', maybe you mean '' @ Join close '' or '' @ ''?'')"
  by (simp add: Find_similar similar_def distanceForStrings_indel DistanceSkipped_def list_all_iff Let_def)

end
