(* ===== verification/Registry_Spec.thy ===== *)
theory Registry_Spec
  imports Go_Prelude
begin

text \<open>
  The contract the engine's registries share: a table of named things in which registering a taken
  name is an error and changes nothing. The view registry, the function registry and the table
  directory of an in-memory database are instances; what follows from the contract alone is proved
  here once.

  A registry compares names after a normalisation \<open>norm\<close> (the view registry lowers the case, the
  others take names as they are), and \<open>abs\<close> reads the registry as a map over normalised names.
\<close>

locale registry =
  fixes register :: "'k \<Rightarrow> 'v \<Rightarrow> 'r \<Rightarrow> sql_error + 'r"
    and norm :: "'k \<Rightarrow> 'n"
    and abs :: "'r \<Rightarrow> 'n \<Rightarrow> 'v option"
    and invar :: "'r \<Rightarrow> bool"
  assumes register_free: "invar r \<Longrightarrow> abs r (norm k) = None \<Longrightarrow>
      \<exists>r'. register k v r = Inr r' \<and> invar r' \<and> abs r' = (abs r)(norm k \<mapsto> v)"
    and register_taken: "invar r \<Longrightarrow> abs r (norm k) \<noteq> None \<Longrightarrow> \<exists>e. register k v r = Inl e"
begin

lemma register_Inr:
  assumes "invar r" and "register k v r = Inr r'"
  shows "abs r (norm k) = None \<and> invar r' \<and> abs r' = (abs r)(norm k \<mapsto> v)"
proof (cases "abs r (norm k)")
  case None
  with register_free [OF assms(1), of k v] assms(2) show ?thesis by auto
next
  case (Some w)
  with register_taken [OF assms(1), of k v] assms(2) show ?thesis by auto
qed

lemma register_twice_fails:
  assumes "invar r" and "register k v r = Inr r'" and "norm k' = norm k"
  shows "\<exists>e. register k' w r' = Inl e"
proof -
  from register_Inr [OF assms(1,2)] assms(3) have "invar r'" "abs r' (norm k') \<noteq> None" by auto
  then show ?thesis by (rule register_taken)
qed

lemma register_keeps:
  assumes "invar r" and "register k v r = Inr r'" and "abs r n = Some w"
  shows "abs r' n = Some w"
  using register_Inr [OF assms(1,2)] assms(3) by auto

end

text \<open>A registry from which a name can be removed; removing a name that is not there is an error.\<close>

locale registry_del = registry +
  fixes unregister :: "'a \<Rightarrow> 'c \<Rightarrow> sql_error + 'c"
  assumes unregister_taken: "invar r \<Longrightarrow> abs r (norm k) \<noteq> None \<Longrightarrow>
      \<exists>r'. unregister k r = Inr r' \<and> invar r' \<and> abs r' = (abs r)(norm k := None)"
    and unregister_free: "invar r \<Longrightarrow> abs r (norm k) = None \<Longrightarrow> \<exists>e. unregister k r = Inl e"

text \<open>Any sequence of operations; an operation that fails leaves the registry as it is.\<close>

datatype ('k, 'v) reg_op = Reg 'k 'v | Unreg 'k

fun run_ops :: "('k \<Rightarrow> 'v \<Rightarrow> 'r \<Rightarrow> sql_error + 'r) \<Rightarrow> ('k \<Rightarrow> 'r \<Rightarrow> sql_error + 'r)
    \<Rightarrow> ('k, 'v) reg_op list \<Rightarrow> 'r \<Rightarrow> 'r" where
  "run_ops reg unreg [] r = r"
| "run_ops reg unreg (Reg k v # ops) r =
     run_ops reg unreg ops (case reg k v r of Inl e \<Rightarrow> r | Inr r' \<Rightarrow> r')"
| "run_ops reg unreg (Unreg k # ops) r =
     run_ops reg unreg ops (case unreg k r of Inl e \<Rightarrow> r | Inr r' \<Rightarrow> r')"

text \<open>The specification: a map in which the first registration of a name holds until it is removed.\<close>

fun spec_ops :: "('k \<Rightarrow> 'n) \<Rightarrow> ('k, 'v) reg_op list \<Rightarrow> ('n \<Rightarrow> 'v option) \<Rightarrow> ('n \<Rightarrow> 'v option)" where
  "spec_ops norm [] m = m"
| "spec_ops norm (Reg k v # ops) m =
     spec_ops norm ops (if m (norm k) = None then m(norm k \<mapsto> v) else m)"
| "spec_ops norm (Unreg k # ops) m = spec_ops norm ops (m(norm k := None))"

context registry_del
begin

lemma unregister_Inr:
  assumes "invar r" and "unregister k r = Inr r'"
  shows "abs r (norm k) \<noteq> None \<and> invar r' \<and> abs r' = (abs r)(norm k := None)"
proof (cases "abs r (norm k)")
  case None
  with unregister_free [OF assms(1), of k] assms(2) show ?thesis by auto
next
  case (Some w)
  with unregister_taken [OF assms(1), of k] assms(2) show ?thesis by auto
qed

lemma register_unregister:
  assumes "invar r" and "register k v r = Inr r'"
  shows "\<exists>r''. unregister k r' = Inr r'' \<and> invar r'' \<and> abs r'' = abs r"
proof -
  from register_Inr [OF assms] have r': "invar r'" "abs r (norm k) = None" "abs r' = (abs r)(norm k \<mapsto> v)"
    by auto
  then have "abs r' (norm k) \<noteq> None" by simp
  from unregister_taken [OF r'(1) this] r'(2,3) show ?thesis by (auto simp: fun_upd_idem)
qed

lemma run_ops_refines:
  assumes "invar r"
  shows "invar (run_ops register unregister ops r) \<and>
    abs (run_ops register unregister ops r) = spec_ops norm ops (abs r)"
  using assms
proof (induction ops arbitrary: r)
  case (Cons op ops)
  show ?case
  proof (cases op)
    case (Reg k v)
    show ?thesis
    proof (cases "abs r (norm k)")
      case None
      from register_free [OF Cons.prems None, of v] obtain r'
        where r': "register k v r = Inr r'" "invar r'" "abs r' = (abs r)(norm k \<mapsto> v)" by blast
      from Cons.IH [OF r'(2)] Reg None r'(1) show ?thesis by (simp add: r'(3) del: fun_upd_apply)
    next
      case (Some w)
      then have "\<exists>e. register k v r = Inl e" by (intro register_taken [OF Cons.prems]) simp
      with Cons.IH [OF Cons.prems] Reg Some show ?thesis by auto
    qed
  next
    case (Unreg k)
    show ?thesis
    proof (cases "abs r (norm k)")
      case None
      from unregister_free [OF Cons.prems None] Cons.IH [OF Cons.prems] Unreg None
      show ?thesis by (auto simp: fun_upd_idem)
    next
      case (Some w)
      then have "abs r (norm k) \<noteq> None" by simp
      from unregister_taken [OF Cons.prems this] obtain r'
        where r': "unregister k r = Inr r'" "invar r'" "abs r' = (abs r)(norm k := None)" by blast
      from Cons.IH [OF r'(2)] Unreg r'(1) show ?thesis by (simp add: r'(3) del: fun_upd_apply)
    qed
  qed
qed simp

end

end
