(* ===== verification/View_Registry.thy ===== *)
theory View_Registry
  imports Registry_Spec
begin

text \<open>
  \<^verbatim>\<open>sql/viewregistry.go\<close>: views by database and name, case-insensitively. The definition of a view is a
  plan \<^verbatim>\<open>Node\<close>, which the registry only stores: it is the type variable \<open>'n\<close>.
\<close>

record 'n View =
  view_name :: string
  view_definition :: 'n
  textDefinition :: string

definition NewView :: "string \<Rightarrow> 'n \<Rightarrow> string \<Rightarrow> 'n View" where
  "NewView name node txt = \<lparr>view_name = name, view_definition = node, textDefinition = txt\<rparr>"

record ViewKey =
  dbName :: string
  viewName :: string

definition NewViewKey :: "string \<Rightarrow> string \<Rightarrow> ViewKey" where
  "NewViewKey databaseName vName = \<lparr>dbName = ToLower databaseName, viewName = ToLower vName\<rparr>"

record 'n ViewRegistry =
  views :: "(ViewKey, 'n View) gomap"

definition NewViewRegistry :: "'n ViewRegistry" where
  "NewViewRegistry = \<lparr>views = []\<rparr>"

definition Register :: "string \<Rightarrow> 'n View \<Rightarrow> 'n ViewRegistry \<Rightarrow> sql_error + 'n ViewRegistry" where
  "Register database view r =
     (let key = NewViewKey database (view_name view) in
      case map_of (views r) key of
        Some _ \<Rightarrow> Inl (ErrExistingView database (view_name view))
      | None \<Rightarrow> Inr (r\<lparr>views := AList.update key view (views r)\<rparr>))"

definition Delete :: "string \<Rightarrow> string \<Rightarrow> 'n ViewRegistry \<Rightarrow> sql_error + 'n ViewRegistry" where
  "Delete databaseName vName r =
     (let key = NewViewKey databaseName vName in
      case map_of (views r) key of
        None \<Rightarrow> Inl (ErrNonExistingView databaseName vName)
      | Some _ \<Rightarrow> Inr (r\<lparr>views := AList.delete key (views r)\<rparr>))"

definition view_exists :: "string \<Rightarrow> string \<Rightarrow> 'n ViewRegistry \<Rightarrow> bool" where
  "view_exists databaseName vName r = (map_of (views r) (NewViewKey databaseName vName) \<noteq> None)"

text \<open>\<^verbatim>\<open>DeleteList\<close>: the check of all keys, if asked for, and then the deletion of all of them.\<close>

fun first_missing :: "ViewKey list \<Rightarrow> 'n ViewRegistry \<Rightarrow> ViewKey option" where
  "first_missing [] r = None"
| "first_missing (key # ks) r =
     (if \<not> view_exists (dbName key) (viewName key) r then Some key else first_missing ks r)"

definition DeleteList :: "ViewKey list \<Rightarrow> bool \<Rightarrow> 'n ViewRegistry \<Rightarrow> sql_error + 'n ViewRegistry" where
  "DeleteList ks errIfNotExists r =
     (case (if errIfNotExists then first_missing ks r else None) of
        Some key \<Rightarrow> Inl (ErrNonExistingView (dbName key) (viewName key))
      | None \<Rightarrow> Inr (r\<lparr>views := fold AList.delete ks (views r)\<rparr>))"

definition View_lookup :: "string \<Rightarrow> string \<Rightarrow> 'n ViewRegistry \<Rightarrow> sql_error + 'n View" where
  "View_lookup databaseName vName r =
     (case map_of (views r) (NewViewKey databaseName vName) of
        Some view \<Rightarrow> Inr view
      | None \<Rightarrow> Inl (ErrNonExistingView databaseName vName))"

definition AllViews :: "'n ViewRegistry \<Rightarrow> (ViewKey, 'n View) gomap" where
  "AllViews r = views r"

definition ViewsInDatabase :: "string \<Rightarrow> 'n ViewRegistry \<Rightarrow> 'n View list" where
  "ViewsInDatabase databaseName r = map snd (filter (\<lambda>(key, view). dbName key = databaseName) (views r))"

section \<open>Invariant and contract\<close>

text \<open>Every key is the normalised form of its view's name, and no key occurs twice.\<close>

definition views_ok :: "'n ViewRegistry \<Rightarrow> bool" where
  "views_ok r \<longleftrightarrow> map_ok (views r) \<and>
     (\<forall>(key, view) \<in> set (views r). ToLower (dbName key) = dbName key \<and>
        viewName key = ToLower (view_name view))"

lemma views_ok_New [simp, inv_intros]: "views_ok NewViewRegistry"
  by (simp add: views_ok_def NewViewRegistry_def)

lemma set_fold_delete_subset: "set (fold AList.delete ks m) \<subseteq> set m"
  by (induction ks arbitrary: m) (use set_AList_delete_subset in fastforce)+

lemma map_ok_fold_delete [simp, intro]: "map_ok m \<Longrightarrow> map_ok (fold AList.delete ks m)"
  by (induction ks arbitrary: m) auto

lemma map_of_fold_delete [simp]:
  "map_of (fold AList.delete ks m) k = (if k \<in> set ks then None else map_of m k)"
  by (induction ks arbitrary: m) auto

lemma Register_ok [inv_intros]: "views_ok r \<Longrightarrow> Register db v r = Inr r' \<Longrightarrow> views_ok r'"
  using set_AList_update_subset [of "NewViewKey db (view_name v)" v "views r"]
  by (fastforce simp: Register_def views_ok_def Let_def NewViewKey_def split: option.splits)

lemma Delete_ok [inv_intros]: "views_ok r \<Longrightarrow> Delete db n r = Inr r' \<Longrightarrow> views_ok r'"
  using set_AList_delete_subset [of "NewViewKey db n" "views r"]
  by (auto simp: Delete_def views_ok_def Let_def split: option.splits)

lemma DeleteList_ok [inv_intros]: "views_ok r \<Longrightarrow> DeleteList ks b r = Inr r' \<Longrightarrow> views_ok r'"
  using set_fold_delete_subset [of ks "views r"]
  by (auto simp: DeleteList_def views_ok_def split: option.splits)

text \<open>
  The registry as an instance of the shared contract. A name is a database with a view name, what is
  registered under it a definition with its text.
\<close>

definition reg_view ::
    "string \<times> string \<Rightarrow> 'n \<times> string \<Rightarrow> 'n ViewRegistry \<Rightarrow> sql_error + 'n ViewRegistry" where
  "reg_view k d = Register (fst k) (NewView (snd k) (fst d) (snd d))"

definition unreg_view :: "string \<times> string \<Rightarrow> 'n ViewRegistry \<Rightarrow> sql_error + 'n ViewRegistry" where
  "unreg_view k = Delete (fst k) (snd k)"

definition view_key :: "string \<times> string \<Rightarrow> ViewKey" where
  "view_key k = NewViewKey (fst k) (snd k)"

definition views_abs :: "'n ViewRegistry \<Rightarrow> ViewKey \<Rightarrow> ('n \<times> string) option" where
  "views_abs r key = map_option (\<lambda>v. (view_definition v, textDefinition v)) (map_of (views r) key)"

lemmas view_contract_defs = reg_view_def unreg_view_def view_key_def views_abs_def Register_def
  Delete_def NewView_def

interpretation vr: registry_del reg_view view_key views_abs views_ok unreg_view
proof
  fix r :: "'n ViewRegistry" and k v
  assume r: "views_ok r"
  { assume "views_abs r (view_key k) = None"
    then have "reg_view k v r = Inr (r\<lparr>views := AList.update (view_key k)
        (NewView (snd k) (fst v) (snd v)) (views r)\<rparr>)"
      by (simp add: view_contract_defs Let_def)
    then show "\<exists>r'. reg_view k v r = Inr r' \<and> views_ok r' \<and>
        views_abs r' = (views_abs r)(view_key k \<mapsto> v)"
      using Register_ok [OF r, of "fst k" "NewView (snd k) (fst v) (snd v)"]
      by (auto simp: views_abs_def reg_view_def map_of_update NewView_def fun_eq_iff) }
  { assume "views_abs r (view_key k) \<noteq> None"
    then show "\<exists>e. reg_view k v r = Inl e" by (auto simp: view_contract_defs Let_def) }
  { assume "views_abs r (view_key k) \<noteq> None"
    then have "unreg_view k r = Inr (r\<lparr>views := AList.delete (view_key k) (views r)\<rparr>)"
      by (auto simp: view_contract_defs Let_def)
    then show "\<exists>r'. unreg_view k r = Inr r' \<and> views_ok r' \<and>
        views_abs r' = (views_abs r)(view_key k := None)"
      using Delete_ok [OF r, of "fst k" "snd k"]
      by (auto simp: views_abs_def unreg_view_def map_of_delete_fun fun_eq_iff) }
  { assume "views_abs r (view_key k) = None"
    then show "\<exists>e. unreg_view k r = Inl e" by (simp add: view_contract_defs Let_def) }
qed

lemma View_lookup_abs:
  "View_lookup db n r = Inr v \<Longrightarrow> views_abs r (view_key (db, n)) = Some (view_definition v, textDefinition v)"
  by (auto simp: View_lookup_def views_abs_def view_key_def split: option.splits)

lemma first_missing_iff:
  "first_missing ks r = None \<longleftrightarrow> (\<forall>k \<in> set ks. view_exists (dbName k) (viewName k) r)"
  by (induction ks) auto

lemma views_abs_New [simp]: "views_abs NewViewRegistry = Map.empty"
  by (simp add: views_abs_def NewViewRegistry_def fun_eq_iff)

section \<open>Properties\<close>

text \<open>C12. Whatever sequence of \<^verbatim>\<open>Register\<close> and \<^verbatim>\<open>Delete\<close> calls is made on an empty view registry, with failing
  calls in between, the registry implements the specification map over lower-cased names: the first
  registration of a name holds until the name is deleted, and all keys stay normalised.\<close>

theorem view_registry_refines_map:
  "views_ok (run_ops reg_view unreg_view ops NewViewRegistry) \<and>
   views_abs (run_ops reg_view unreg_view ops NewViewRegistry) = spec_ops view_key ops Map.empty"
  using vr.run_ops_refines [of NewViewRegistry ops] by simp

text \<open>C21. After a successful \<^verbatim>\<open>Register\<close> the view is found under every spelling of the two names, a second
  registration under any spelling is refused, and \<^verbatim>\<open>Delete\<close> restores what was registered before.\<close>

theorem Register_View_Delete_roundtrip:
  assumes "Register db v r = Inr r'"
    and "ToLower db' = ToLower db" and "ToLower n' = ToLower (view_name v)"
  shows "View_lookup db' n' r' = Inr v \<and> view_exists db' n' r' \<and>
    Register db' (w\<lparr>view_name := n'\<rparr>) r' = Inl (ErrExistingView db' n') \<and>
    (\<exists>r''. Delete db' n' r' = Inr r'' \<and> map_of (views r'') = map_of (views r))"
proof -
  have key: "NewViewKey db' n' = NewViewKey db (view_name v)"
    using assms(2,3) by (simp add: NewViewKey_def)
  have r': "map_of (views r) (NewViewKey db (view_name v)) = None"
    "views r' = AList.update (NewViewKey db (view_name v)) v (views r)"
    using assms(1) by (auto simp: Register_def Let_def split: option.splits)
  then have "map_of (AList.delete (NewViewKey db (view_name v)) (views r')) = map_of (views r)"
    by (auto simp: map_of_update map_of_delete_fun fun_eq_iff)
  with r' show ?thesis
    by (simp add: View_lookup_def view_exists_def Register_def Delete_def Let_def key map_of_update)
qed

theorem Register_View_Delete_roundtrip_witness:
  "let v = NewView ''MyView'' (7 :: nat) ''select 1'';
       r' = \<lparr>views = [(NewViewKey ''MyDb'' ''MyView'', v)]\<rparr> in
   Register ''MyDb'' v NewViewRegistry = Inr r' \<and> View_lookup ''mydb'' ''MYVIEW'' r' = Inr v \<and>
   Register ''mydb'' (v\<lparr>view_name := ''MYVIEW''\<rparr>) r' = Inl (ErrExistingView ''mydb'' ''MYVIEW'')"
proof -
  define v where "v = NewView ''MyView'' (7 :: nat) ''select 1''"
  define r' where "r' = \<lparr>views = [(NewViewKey ''MyDb'' ''MyView'', v)]\<rparr>"
  have r': "Register ''MyDb'' v NewViewRegistry = Inr r'"
    by (simp add: Register_def NewViewRegistry_def v_def r'_def NewView_def)
  moreover have "ToLower ''mydb'' = ToLower ''MyDb''" "ToLower ''MYVIEW'' = ToLower (view_name v)"
    by (simp_all add: v_def NewView_def, code_simp+)
  ultimately show ?thesis
    using Register_View_Delete_roundtrip [OF r', of "''mydb''" "''MYVIEW''" v]
    unfolding v_def r'_def by (simp add: Let_def)
qed

text \<open>\<^verbatim>\<open>DeleteList\<close> is all or nothing when missing views are errors: it fails exactly when some key is
  missing, and when it succeeds exactly the listed views are gone.\<close>

lemma DeleteList_all_or_nothing:
  "((\<exists>e. DeleteList ks True r = Inl e) \<longleftrightarrow> (\<exists>k. k \<in> set ks \<and> \<not> view_exists (dbName k) (viewName k) r)) \<and>
   (\<exists>r'. DeleteList ks False r = Inr r') \<and>
   (DeleteList ks b r = Inr r' \<longrightarrow>
     map_of (views r') = (\<lambda>k. if k \<in> set ks then None else map_of (views r) k))"
  using first_missing_iff [of ks r]
  by (auto simp: DeleteList_def fun_eq_iff split: option.splits if_splits)

text \<open>\<^verbatim>\<open>ViewsInDatabase\<close> lists the views of a database whose name is in lower case, but finds nothing
  for a name with an upper-case letter, although the view is registered and \<^verbatim>\<open>View\<close> returns it.\<close>

lemma ViewsInDatabase_misses_mixed_case:
  assumes "views_ok r" and "Register db v r = Inr r'"
  shows "(v \<in> set (ViewsInDatabase db r') \<longleftrightarrow> ToLower db = db) \<and>
    (ToLower db \<noteq> db \<longrightarrow> ViewsInDatabase db r' = []) \<and> View_lookup db (view_name v) r' = Inr v"
proof -
  have r': "views r' = AList.update (NewViewKey db (view_name v)) v (views r)"
    using assms(2) by (auto simp: Register_def Let_def split: option.splits)
  have look: "map_of (views r') (NewViewKey db (view_name v)) = Some v" by (simp add: r' map_of_update)
  then have "(NewViewKey db (view_name v), v) \<in> set (views r')" by (rule map_of_SomeD)
  then have low: "ToLower db = db \<Longrightarrow> v \<in> set (ViewsInDatabase db r')"
    by (force simp: ViewsInDatabase_def NewViewKey_def)
  from Register_ok [OF assms] have "ToLower db \<noteq> db \<longrightarrow> ViewsInDatabase db r' = []"
    by (auto simp: ViewsInDatabase_def views_ok_def filter_empty_conv)
  with low look show ?thesis by (cases "ToLower db = db") (simp_all add: View_lookup_def)
qed

end
