(* ===== verification/Charset.thy ===== *)
theory Charset
  imports Go_Prelude
begin

text \<open>
  \<^verbatim>\<open>sql/charsetcollation.go\<close>: the character sets and collations and the tables between them. The Go types
  \<^verbatim>\<open>CharacterSet\<close> and \<^verbatim>\<open>Collation\<close> are strings, the tables Go maps; a method that panics on a missing entry
  returns \<^const>\<open>Panic\<close>.
\<close>

type_synonym CharacterSet = string
type_synonym Collation = string

section \<open>Constants and tables\<close>

text \<open>The values of the declared constants, in the order of their declaration.\<close>

definition CharacterSet_consts :: "CharacterSet list" where
  "CharacterSet_consts =
   [''armscii8'', ''ascii'', ''big5'', ''binary'', ''cp1250'', ''cp1251'', ''cp1256'', ''cp1257'',
    ''cp850'', ''cp852'', ''cp866'', ''cp932'', ''dec8'', ''eucjpms'', ''euckr'', ''gb18030'',
    ''gb2312'', ''gbk'', ''geostd8'', ''greek'', ''hebrew'', ''hp8'', ''keybcs2'', ''koi8r'',
    ''koi8u'', ''latin1'', ''latin2'', ''latin5'', ''latin7'', ''macce'', ''macroman'', ''sjis'',
    ''swe7'', ''tis620'', ''ucs2'', ''ujis'', ''utf16'', ''utf16le'', ''utf32'', ''utf8'', ''utf8mb3'',
    ''utf8mb4'']"

definition Collation_consts_legacy :: "Collation list" where
  "Collation_consts_legacy =
   [''armscii8_general_ci'', ''armscii8_bin'', ''ascii_general_ci'', ''ascii_bin'',
    ''big5_chinese_ci'', ''big5_bin'', ''binary'', ''cp1250_general_ci'', ''cp1250_czech_cs'',
    ''cp1250_croatian_ci'', ''cp1250_bin'', ''cp1250_polish_ci'', ''cp1251_bulgarian_ci'',
    ''cp1251_ukrainian_ci'', ''cp1251_bin'', ''cp1251_general_ci'', ''cp1251_general_cs'',
    ''cp1256_general_ci'', ''cp1256_bin'', ''cp1257_lithuanian_ci'', ''cp1257_bin'',
    ''cp1257_general_ci'', ''cp850_general_ci'', ''cp850_bin'', ''cp852_general_ci'', ''cp852_bin'',
    ''cp866_general_ci'', ''cp866_bin'', ''cp932_japanese_ci'', ''cp932_bin'', ''dec8_swedish_ci'',
    ''dec8_bin'', ''eucjpms_japanese_ci'', ''eucjpms_bin'', ''euckr_korean_ci'', ''euckr_bin'',
    ''gb18030_chinese_ci'', ''gb18030_bin'', ''gb18030_unicode_520_ci'', ''gb2312_chinese_ci'',
    ''gb2312_bin'', ''gbk_chinese_ci'', ''gbk_bin'', ''geostd8_general_ci'', ''geostd8_bin'',
    ''greek_general_ci'', ''greek_bin'', ''hebrew_general_ci'', ''hebrew_bin'', ''hp8_english_ci'',
    ''hp8_bin'', ''keybcs2_general_ci'', ''keybcs2_bin'', ''koi8r_general_ci'', ''koi8r_bin'',
    ''koi8u_general_ci'', ''koi8u_bin'', ''latin1_german1_ci'', ''latin1_swedish_ci'',
    ''latin1_danish_ci'', ''latin1_german2_ci'', ''latin1_bin'', ''latin1_general_ci'',
    ''latin1_general_cs'', ''latin1_spanish_ci'', ''latin2_czech_cs'', ''latin2_general_ci'',
    ''latin2_hungarian_ci'', ''latin2_croatian_ci'', ''latin2_bin'', ''latin5_turkish_ci'',
    ''latin5_bin'', ''latin7_estonian_cs'', ''latin7_general_ci'', ''latin7_general_cs'',
    ''latin7_bin'', ''macce_general_ci'', ''macce_bin'', ''macroman_general_ci'', ''macroman_bin'',
    ''sjis_japanese_ci'', ''sjis_bin'', ''swe7_swedish_ci'', ''swe7_bin'', ''tis620_thai_ci'',
    ''tis620_bin'', ''ucs2_general_ci'', ''ucs2_bin'', ''ucs2_unicode_ci'', ''ucs2_icelandic_ci'',
    ''ucs2_latvian_ci'', ''ucs2_romanian_ci'', ''ucs2_slovenian_ci'', ''ucs2_polish_ci'',
    ''ucs2_estonian_ci'', ''ucs2_spanish_ci'', ''ucs2_swedish_ci'', ''ucs2_turkish_ci'',
    ''ucs2_czech_ci'', ''ucs2_danish_ci'', ''ucs2_lithuanian_ci'', ''ucs2_slovak_ci'',
    ''ucs2_spanish2_ci'', ''ucs2_roman_ci'', ''ucs2_persian_ci'', ''ucs2_esperanto_ci'',
    ''ucs2_hungarian_ci'', ''ucs2_sinhala_ci'', ''ucs2_german2_ci'', ''ucs2_croatian_ci'',
    ''ucs2_unicode_520_ci'', ''ucs2_vietnamese_ci'', ''ucs2_general_mysql500_ci'',
    ''ujis_japanese_ci'', ''ujis_bin'', ''utf16_general_ci'', ''utf16_bin'', ''utf16_unicode_ci'',
    ''utf16_icelandic_ci'', ''utf16_latvian_ci'', ''utf16_romanian_ci'', ''utf16_slovenian_ci'',
    ''utf16_polish_ci'', ''utf16_estonian_ci'', ''utf16_spanish_ci'', ''utf16_swedish_ci'',
    ''utf16_turkish_ci'', ''utf16_czech_ci'', ''utf16_danish_ci'', ''utf16_lithuanian_ci'',
    ''utf16_slovak_ci'', ''utf16_spanish2_ci'', ''utf16_roman_ci'', ''utf16_persian_ci'',
    ''utf16_esperanto_ci'', ''utf16_hungarian_ci'', ''utf16_sinhala_ci'', ''utf16_german2_ci'',
    ''utf16_croatian_ci'', ''utf16_unicode_520_ci'', ''utf16_vietnamese_ci'', ''utf16le_general_ci'',
    ''utf16le_bin'', ''utf32_general_ci'', ''utf32_bin'', ''utf32_unicode_ci'', ''utf32_icelandic_ci'',
    ''utf32_latvian_ci'', ''utf32_romanian_ci'', ''utf32_slovenian_ci'', ''utf32_polish_ci'',
    ''utf32_estonian_ci'', ''utf32_spanish_ci'', ''utf32_swedish_ci'', ''utf32_turkish_ci'',
    ''utf32_czech_ci'', ''utf32_danish_ci'', ''utf32_lithuanian_ci'', ''utf32_slovak_ci'',
    ''utf32_spanish2_ci'', ''utf32_roman_ci'', ''utf32_persian_ci'', ''utf32_esperanto_ci'',
    ''utf32_hungarian_ci'', ''utf32_sinhala_ci'', ''utf32_german2_ci'', ''utf32_croatian_ci'',
    ''utf32_unicode_520_ci'', ''utf32_vietnamese_ci'']"

definition Collation_consts_utf8mb3 :: "Collation list" where
  "Collation_consts_utf8mb3 =
   [''utf8mb3_general_ci'', ''utf8mb3_tolower_ci'', ''utf8mb3_bin'', ''utf8mb3_unicode_ci'', ''utf8mb3_icelandic_ci'',
    ''utf8mb3_latvian_ci'', ''utf8mb3_romanian_ci'', ''utf8mb3_slovenian_ci'', ''utf8mb3_polish_ci'',
    ''utf8mb3_estonian_ci'', ''utf8mb3_spanish_ci'', ''utf8mb3_swedish_ci'', ''utf8mb3_turkish_ci'',
    ''utf8mb3_czech_ci'', ''utf8mb3_danish_ci'', ''utf8mb3_lithuanian_ci'', ''utf8mb3_slovak_ci'',
    ''utf8mb3_spanish2_ci'', ''utf8mb3_roman_ci'', ''utf8mb3_persian_ci'', ''utf8mb3_esperanto_ci'',
    ''utf8mb3_hungarian_ci'', ''utf8mb3_sinhala_ci'', ''utf8mb3_german2_ci'', ''utf8mb3_croatian_ci'',
    ''utf8mb3_unicode_520_ci'', ''utf8mb3_vietnamese_ci'', ''utf8mb3_general_mysql500_ci'']"

definition Collation_consts_utf8mb4 :: "Collation list" where
  "Collation_consts_utf8mb4 =
   [''utf8mb4_general_ci'', ''utf8mb4_bin'', ''utf8mb4_unicode_ci'', ''utf8mb4_icelandic_ci'',
    ''utf8mb4_latvian_ci'', ''utf8mb4_romanian_ci'', ''utf8mb4_slovenian_ci'', ''utf8mb4_polish_ci'',
    ''utf8mb4_estonian_ci'', ''utf8mb4_spanish_ci'', ''utf8mb4_swedish_ci'', ''utf8mb4_turkish_ci'',
    ''utf8mb4_czech_ci'', ''utf8mb4_danish_ci'', ''utf8mb4_lithuanian_ci'', ''utf8mb4_slovak_ci'',
    ''utf8mb4_spanish2_ci'', ''utf8mb4_roman_ci'', ''utf8mb4_persian_ci'', ''utf8mb4_esperanto_ci'',
    ''utf8mb4_hungarian_ci'', ''utf8mb4_sinhala_ci'', ''utf8mb4_german2_ci'', ''utf8mb4_croatian_ci'',
    ''utf8mb4_unicode_520_ci'', ''utf8mb4_vietnamese_ci'', ''utf8mb4_0900_ai_ci'',
    ''utf8mb4_de_pb_0900_ai_ci'', ''utf8mb4_is_0900_ai_ci'', ''utf8mb4_lv_0900_ai_ci'',
    ''utf8mb4_ro_0900_ai_ci'', ''utf8mb4_sl_0900_ai_ci'', ''utf8mb4_pl_0900_ai_ci'',
    ''utf8mb4_et_0900_ai_ci'', ''utf8mb4_es_0900_ai_ci'', ''utf8mb4_sv_0900_ai_ci'',
    ''utf8mb4_tr_0900_ai_ci'', ''utf8mb4_cs_0900_ai_ci'', ''utf8mb4_da_0900_ai_ci'',
    ''utf8mb4_lt_0900_ai_ci'', ''utf8mb4_sk_0900_ai_ci'', ''utf8mb4_es_trad_0900_ai_ci'',
    ''utf8mb4_la_0900_ai_ci'', ''utf8mb4_eo_0900_ai_ci'', ''utf8mb4_hu_0900_ai_ci'',
    ''utf8mb4_hr_0900_ai_ci'', ''utf8mb4_vi_0900_ai_ci'', ''utf8mb4_0900_as_cs'',
    ''utf8mb4_de_pb_0900_as_cs'', ''utf8mb4_is_0900_as_cs'', ''utf8mb4_lv_0900_as_cs'',
    ''utf8mb4_ro_0900_as_cs'', ''utf8mb4_sl_0900_as_cs'', ''utf8mb4_pl_0900_as_cs'',
    ''utf8mb4_et_0900_as_cs'', ''utf8mb4_es_0900_as_cs'', ''utf8mb4_sv_0900_as_cs'',
    ''utf8mb4_tr_0900_as_cs'', ''utf8mb4_cs_0900_as_cs'', ''utf8mb4_da_0900_as_cs'',
    ''utf8mb4_lt_0900_as_cs'', ''utf8mb4_sk_0900_as_cs'', ''utf8mb4_es_trad_0900_as_cs'',
    ''utf8mb4_la_0900_as_cs'', ''utf8mb4_eo_0900_as_cs'', ''utf8mb4_hu_0900_as_cs'',
    ''utf8mb4_hr_0900_as_cs'', ''utf8mb4_vi_0900_as_cs'', ''utf8mb4_ja_0900_as_cs'',
    ''utf8mb4_ja_0900_as_cs_ks'', ''utf8mb4_0900_as_ci'', ''utf8mb4_ru_0900_ai_ci'',
    ''utf8mb4_ru_0900_as_cs'', ''utf8mb4_zh_0900_as_cs'', ''utf8mb4_0900_bin'']"

definition Collation_Default :: Collation where
  "Collation_Default = ''utf8mb4_0900_ai_ci''"

definition Collation_binary :: Collation where
  "Collation_binary = ''binary''"

definition Collation_utf8_general_ci :: Collation where
  "Collation_utf8_general_ci = ''utf8''"

definition CharacterSet_binary :: CharacterSet where
  "CharacterSet_binary = ''binary''"

definition characterSets :: "(string, CharacterSet) gomap" where
  "characterSets =
   [(''armscii8'', ''armscii8''), (''ascii'', ''ascii''), (''big5'', ''big5''),
    (''binary'', ''binary''), (''cp1250'', ''cp1250''), (''cp1251'', ''cp1251''),
    (''cp1256'', ''cp1256''), (''cp1257'', ''cp1257''), (''cp850'', ''cp850''), (''cp852'', ''cp852''),
    (''cp866'', ''cp866''), (''cp932'', ''cp932''), (''dec8'', ''dec8''), (''eucjpms'', ''eucjpms''),
    (''euckr'', ''euckr''), (''gb18030'', ''gb18030''), (''gb2312'', ''gb2312''), (''gbk'', ''gbk''),
    (''geostd8'', ''geostd8''), (''greek'', ''greek''), (''hebrew'', ''hebrew''), (''hp8'', ''hp8''),
    (''keybcs2'', ''keybcs2''), (''koi8r'', ''koi8r''), (''koi8u'', ''koi8u''),
    (''latin1'', ''latin1''), (''latin2'', ''latin2''), (''latin5'', ''latin5''),
    (''latin7'', ''latin7''), (''macce'', ''macce''), (''macroman'', ''macroman''),
    (''sjis'', ''sjis''), (''swe7'', ''swe7''), (''tis620'', ''tis620''), (''ucs2'', ''ucs2''),
    (''ujis'', ''ujis''), (''utf16'', ''utf16''), (''utf16le'', ''utf16le''), (''utf32'', ''utf32''),
    (''utf8'', ''utf8mb3''), (''utf8mb3'', ''utf8mb3''), (''utf8mb4'', ''utf8mb4'')]"

definition collations :: "(string, Collation) gomap" where
  "collations =
   [(''armscii8_general_ci'', ''armscii8_general_ci''), (''armscii8_bin'', ''armscii8_bin''),
    (''ascii_general_ci'', ''ascii_general_ci''), (''ascii_bin'', ''ascii_bin''),
    (''big5_chinese_ci'', ''big5_chinese_ci''), (''big5_bin'', ''big5_bin''), (''binary'', ''binary''),
    (''cp1250_general_ci'', ''cp1250_general_ci''), (''cp1250_czech_cs'', ''cp1250_czech_cs''),
    (''cp1250_croatian_ci'', ''cp1250_croatian_ci''), (''cp1250_bin'', ''cp1250_bin''),
    (''cp1250_polish_ci'', ''cp1250_polish_ci''), (''cp1251_bulgarian_ci'', ''cp1251_bulgarian_ci''),
    (''cp1251_ukrainian_ci'', ''cp1251_ukrainian_ci''), (''cp1251_bin'', ''cp1251_bin''),
    (''cp1251_general_ci'', ''cp1251_general_ci''), (''cp1251_general_cs'', ''cp1251_general_cs''),
    (''cp1256_general_ci'', ''cp1256_general_ci''), (''cp1256_bin'', ''cp1256_bin''),
    (''cp1257_lithuanian_ci'', ''cp1257_lithuanian_ci''), (''cp1257_bin'', ''cp1257_bin''),
    (''cp1257_general_ci'', ''cp1257_general_ci''), (''cp850_general_ci'', ''cp850_general_ci''),
    (''cp850_bin'', ''cp850_bin''), (''cp852_general_ci'', ''cp852_general_ci''),
    (''cp852_bin'', ''cp852_bin''), (''cp866_general_ci'', ''cp866_general_ci''),
    (''cp866_bin'', ''cp866_bin''), (''cp932_japanese_ci'', ''cp932_japanese_ci''),
    (''cp932_bin'', ''cp932_bin''), (''dec8_swedish_ci'', ''dec8_swedish_ci''),
    (''dec8_bin'', ''dec8_bin''), (''eucjpms_japanese_ci'', ''eucjpms_japanese_ci''),
    (''eucjpms_bin'', ''eucjpms_bin''), (''euckr_korean_ci'', ''euckr_korean_ci''),
    (''euckr_bin'', ''euckr_bin''), (''gb18030_chinese_ci'', ''gb18030_chinese_ci''),
    (''gb18030_bin'', ''gb18030_bin''), (''gb18030_unicode_520_ci'', ''gb18030_unicode_520_ci''),
    (''gb2312_chinese_ci'', ''gb2312_chinese_ci''), (''gb2312_bin'', ''gb2312_bin''),
    (''gbk_chinese_ci'', ''gbk_chinese_ci''), (''gbk_bin'', ''gbk_bin''),
    (''geostd8_general_ci'', ''geostd8_general_ci''), (''geostd8_bin'', ''geostd8_bin''),
    (''greek_general_ci'', ''greek_general_ci''), (''greek_bin'', ''greek_bin''),
    (''hebrew_general_ci'', ''hebrew_general_ci''), (''hebrew_bin'', ''hebrew_bin''),
    (''hp8_english_ci'', ''hp8_english_ci''), (''hp8_bin'', ''hp8_bin''),
    (''keybcs2_general_ci'', ''keybcs2_general_ci''), (''keybcs2_bin'', ''keybcs2_bin''),
    (''koi8r_general_ci'', ''koi8r_general_ci''), (''koi8r_bin'', ''koi8r_bin''),
    (''koi8u_general_ci'', ''koi8u_general_ci''), (''koi8u_bin'', ''koi8u_bin''),
    (''latin1_german1_ci'', ''latin1_german1_ci''), (''latin1_swedish_ci'', ''latin1_swedish_ci''),
    (''latin1_danish_ci'', ''latin1_danish_ci''), (''latin1_german2_ci'', ''latin1_german2_ci''),
    (''latin1_bin'', ''latin1_bin''), (''latin1_general_ci'', ''latin1_general_ci''),
    (''latin1_general_cs'', ''latin1_general_cs''), (''latin1_spanish_ci'', ''latin1_spanish_ci''),
    (''latin2_czech_cs'', ''latin2_czech_cs''), (''latin2_general_ci'', ''latin2_general_ci''),
    (''latin2_hungarian_ci'', ''latin2_hungarian_ci''),
    (''latin2_croatian_ci'', ''latin2_croatian_ci''), (''latin2_bin'', ''latin2_bin''),
    (''latin5_turkish_ci'', ''latin5_turkish_ci''), (''latin5_bin'', ''latin5_bin''),
    (''latin7_estonian_cs'', ''latin7_estonian_cs''), (''latin7_general_ci'', ''latin7_general_ci''),
    (''latin7_general_cs'', ''latin7_general_cs''), (''latin7_bin'', ''latin7_bin''),
    (''macce_general_ci'', ''macce_general_ci''), (''macce_bin'', ''macce_bin''),
    (''macroman_general_ci'', ''macroman_general_ci''), (''macroman_bin'', ''macroman_bin''),
    (''sjis_japanese_ci'', ''sjis_japanese_ci''), (''sjis_bin'', ''sjis_bin''),
    (''swe7_swedish_ci'', ''swe7_swedish_ci''), (''swe7_bin'', ''swe7_bin''),
    (''tis620_thai_ci'', ''tis620_thai_ci''), (''tis620_bin'', ''tis620_bin''),
    (''ucs2_general_ci'', ''ucs2_general_ci''), (''ucs2_bin'', ''ucs2_bin''),
    (''ucs2_unicode_ci'', ''ucs2_unicode_ci''), (''ucs2_icelandic_ci'', ''ucs2_icelandic_ci''),
    (''ucs2_latvian_ci'', ''ucs2_latvian_ci''), (''ucs2_romanian_ci'', ''ucs2_romanian_ci''),
    (''ucs2_slovenian_ci'', ''ucs2_slovenian_ci''), (''ucs2_polish_ci'', ''ucs2_polish_ci''),
    (''ucs2_estonian_ci'', ''ucs2_estonian_ci''), (''ucs2_spanish_ci'', ''ucs2_spanish_ci''),
    (''ucs2_swedish_ci'', ''ucs2_swedish_ci''), (''ucs2_turkish_ci'', ''ucs2_turkish_ci''),
    (''ucs2_czech_ci'', ''ucs2_czech_ci''), (''ucs2_danish_ci'', ''ucs2_danish_ci''),
    (''ucs2_lithuanian_ci'', ''ucs2_lithuanian_ci''), (''ucs2_slovak_ci'', ''ucs2_slovak_ci''),
    (''ucs2_spanish2_ci'', ''ucs2_spanish2_ci''), (''ucs2_roman_ci'', ''ucs2_roman_ci''),
    (''ucs2_persian_ci'', ''ucs2_persian_ci''), (''ucs2_esperanto_ci'', ''ucs2_esperanto_ci''),
    (''ucs2_hungarian_ci'', ''ucs2_hungarian_ci''), (''ucs2_sinhala_ci'', ''ucs2_sinhala_ci''),
    (''ucs2_german2_ci'', ''ucs2_german2_ci''), (''ucs2_croatian_ci'', ''ucs2_croatian_ci''),
    (''ucs2_unicode_520_ci'', ''ucs2_unicode_520_ci''),
    (''ucs2_vietnamese_ci'', ''ucs2_vietnamese_ci''),
    (''ucs2_general_mysql500_ci'', ''ucs2_general_mysql500_ci''),
    (''ujis_japanese_ci'', ''ujis_japanese_ci''), (''ujis_bin'', ''ujis_bin''),
    (''utf16_general_ci'', ''utf16_general_ci''), (''utf16_bin'', ''utf16_bin''),
    (''utf16_unicode_ci'', ''utf16_unicode_ci''), (''utf16_icelandic_ci'', ''utf16_icelandic_ci''),
    (''utf16_latvian_ci'', ''utf16_latvian_ci''), (''utf16_romanian_ci'', ''utf16_romanian_ci''),
    (''utf16_slovenian_ci'', ''utf16_slovenian_ci''), (''utf16_polish_ci'', ''utf16_polish_ci''),
    (''utf16_estonian_ci'', ''utf16_estonian_ci''), (''utf16_spanish_ci'', ''utf16_spanish_ci''),
    (''utf16_swedish_ci'', ''utf16_swedish_ci''), (''utf16_turkish_ci'', ''utf16_turkish_ci''),
    (''utf16_czech_ci'', ''utf16_czech_ci''), (''utf16_danish_ci'', ''utf16_danish_ci''),
    (''utf16_lithuanian_ci'', ''utf16_lithuanian_ci''), (''utf16_slovak_ci'', ''utf16_slovak_ci''),
    (''utf16_spanish2_ci'', ''utf16_spanish2_ci''), (''utf16_roman_ci'', ''utf16_roman_ci''),
    (''utf16_persian_ci'', ''utf16_persian_ci''), (''utf16_esperanto_ci'', ''utf16_esperanto_ci''),
    (''utf16_hungarian_ci'', ''utf16_hungarian_ci''), (''utf16_sinhala_ci'', ''utf16_sinhala_ci''),
    (''utf16_german2_ci'', ''utf16_german2_ci''), (''utf16_croatian_ci'', ''utf16_croatian_ci''),
    (''utf16_unicode_520_ci'', ''utf16_unicode_520_ci''),
    (''utf16_vietnamese_ci'', ''utf16_vietnamese_ci''),
    (''utf16le_general_ci'', ''utf16le_general_ci''), (''utf16le_bin'', ''utf16le_bin''),
    (''utf32_general_ci'', ''utf32_general_ci''), (''utf32_bin'', ''utf32_bin''),
    (''utf32_unicode_ci'', ''utf32_unicode_ci''), (''utf32_icelandic_ci'', ''utf32_icelandic_ci''),
    (''utf32_latvian_ci'', ''utf32_latvian_ci''), (''utf32_romanian_ci'', ''utf32_romanian_ci''),
    (''utf32_slovenian_ci'', ''utf32_slovenian_ci''), (''utf32_polish_ci'', ''utf32_polish_ci''),
    (''utf32_estonian_ci'', ''utf32_estonian_ci''), (''utf32_spanish_ci'', ''utf32_spanish_ci''),
    (''utf32_swedish_ci'', ''utf32_swedish_ci''), (''utf32_turkish_ci'', ''utf32_turkish_ci''),
    (''utf32_czech_ci'', ''utf32_czech_ci''), (''utf32_danish_ci'', ''utf32_danish_ci''),
    (''utf32_lithuanian_ci'', ''utf32_lithuanian_ci''), (''utf32_slovak_ci'', ''utf32_slovak_ci''),
    (''utf32_spanish2_ci'', ''utf32_spanish2_ci''), (''utf32_roman_ci'', ''utf32_roman_ci''),
    (''utf32_persian_ci'', ''utf32_persian_ci''), (''utf32_esperanto_ci'', ''utf32_esperanto_ci''),
    (''utf32_hungarian_ci'', ''utf32_hungarian_ci''), (''utf32_sinhala_ci'', ''utf32_sinhala_ci''),
    (''utf32_german2_ci'', ''utf32_german2_ci''), (''utf32_croatian_ci'', ''utf32_croatian_ci''),
    (''utf32_unicode_520_ci'', ''utf32_unicode_520_ci''),
    (''utf32_vietnamese_ci'', ''utf32_vietnamese_ci''), (''utf8_general_ci'', ''utf8mb3_general_ci''),
    (''utf8_tolower_ci'', ''utf8mb3_tolower_ci''), (''utf8_bin'', ''utf8mb3_bin''),
    (''utf8_unicode_ci'', ''utf8mb3_unicode_ci''), (''utf8_icelandic_ci'', ''utf8mb3_icelandic_ci''),
    (''utf8_latvian_ci'', ''utf8mb3_latvian_ci''), (''utf8_romanian_ci'', ''utf8mb3_romanian_ci''),
    (''utf8_slovenian_ci'', ''utf8mb3_slovenian_ci''), (''utf8_polish_ci'', ''utf8mb3_polish_ci''),
    (''utf8_estonian_ci'', ''utf8mb3_estonian_ci''), (''utf8_spanish_ci'', ''utf8mb3_spanish_ci''),
    (''utf8_swedish_ci'', ''utf8mb3_swedish_ci''), (''utf8_turkish_ci'', ''utf8mb3_turkish_ci''),
    (''utf8_czech_ci'', ''utf8mb3_czech_ci''), (''utf8_danish_ci'', ''utf8mb3_danish_ci''),
    (''utf8_lithuanian_ci'', ''utf8mb3_lithuanian_ci''), (''utf8_slovak_ci'', ''utf8mb3_slovak_ci''),
    (''utf8_spanish2_ci'', ''utf8mb3_spanish2_ci''), (''utf8_roman_ci'', ''utf8mb3_roman_ci''),
    (''utf8_persian_ci'', ''utf8mb3_persian_ci''), (''utf8_esperanto_ci'', ''utf8mb3_esperanto_ci''),
    (''utf8_hungarian_ci'', ''utf8mb3_hungarian_ci''), (''utf8_sinhala_ci'', ''utf8mb3_sinhala_ci''),
    (''utf8_german2_ci'', ''utf8mb3_german2_ci''), (''utf8_croatian_ci'', ''utf8mb3_croatian_ci''),
    (''utf8_unicode_520_ci'', ''utf8mb3_unicode_520_ci''),
    (''utf8_vietnamese_ci'', ''utf8mb3_vietnamese_ci''),
    (''utf8_general_mysql500_ci'', ''utf8mb3_general_mysql500_ci''),
    (''utf8mb3_general_ci'', ''utf8mb3_general_ci''), (''utf8mb3_tolower_ci'', ''utf8mb3_tolower_ci''),
    (''utf8mb3_bin'', ''utf8mb3_bin''), (''utf8mb3_unicode_ci'', ''utf8mb3_unicode_ci''),
    (''utf8mb3_icelandic_ci'', ''utf8mb3_icelandic_ci''),
    (''utf8mb3_latvian_ci'', ''utf8mb3_latvian_ci''),
    (''utf8mb3_romanian_ci'', ''utf8mb3_romanian_ci''),
    (''utf8mb3_slovenian_ci'', ''utf8mb3_slovenian_ci''),
    (''utf8mb3_polish_ci'', ''utf8mb3_polish_ci''), (''utf8mb3_estonian_ci'', ''utf8mb3_estonian_ci''),
    (''utf8mb3_spanish_ci'', ''utf8mb3_spanish_ci''), (''utf8mb3_swedish_ci'', ''utf8mb3_swedish_ci''),
    (''utf8mb3_turkish_ci'', ''utf8mb3_turkish_ci''), (''utf8mb3_czech_ci'', ''utf8mb3_czech_ci''),
    (''utf8mb3_danish_ci'', ''utf8mb3_danish_ci''),
    (''utf8mb3_lithuanian_ci'', ''utf8mb3_lithuanian_ci''),
    (''utf8mb3_slovak_ci'', ''utf8mb3_slovak_ci''), (''utf8mb3_spanish2_ci'', ''utf8mb3_spanish2_ci''),
    (''utf8mb3_roman_ci'', ''utf8mb3_roman_ci''), (''utf8mb3_persian_ci'', ''utf8mb3_persian_ci''),
    (''utf8mb3_esperanto_ci'', ''utf8mb3_esperanto_ci''),
    (''utf8mb3_hungarian_ci'', ''utf8mb3_hungarian_ci''),
    (''utf8mb3_sinhala_ci'', ''utf8mb3_sinhala_ci''), (''utf8mb3_german2_ci'', ''utf8mb3_german2_ci''),
    (''utf8mb3_croatian_ci'', ''utf8mb3_croatian_ci''),
    (''utf8mb3_unicode_520_ci'', ''utf8mb3_unicode_520_ci''),
    (''utf8mb3_vietnamese_ci'', ''utf8mb3_vietnamese_ci''),
    (''utf8mb3_general_mysql500_ci'', ''utf8mb3_general_mysql500_ci''),
    (''utf8mb4_general_ci'', ''utf8mb4_general_ci''), (''utf8mb4_bin'', ''utf8mb4_bin''),
    (''utf8mb4_unicode_ci'', ''utf8mb4_unicode_ci''),
    (''utf8mb4_icelandic_ci'', ''utf8mb4_icelandic_ci''),
    (''utf8mb4_latvian_ci'', ''utf8mb4_latvian_ci''),
    (''utf8mb4_romanian_ci'', ''utf8mb4_romanian_ci''),
    (''utf8mb4_slovenian_ci'', ''utf8mb4_slovenian_ci''),
    (''utf8mb4_polish_ci'', ''utf8mb4_polish_ci''), (''utf8mb4_estonian_ci'', ''utf8mb4_estonian_ci''),
    (''utf8mb4_spanish_ci'', ''utf8mb4_spanish_ci''), (''utf8mb4_swedish_ci'', ''utf8mb4_swedish_ci''),
    (''utf8mb4_turkish_ci'', ''utf8mb4_turkish_ci''), (''utf8mb4_czech_ci'', ''utf8mb4_czech_ci''),
    (''utf8mb4_danish_ci'', ''utf8mb4_danish_ci''),
    (''utf8mb4_lithuanian_ci'', ''utf8mb4_lithuanian_ci''),
    (''utf8mb4_slovak_ci'', ''utf8mb4_slovak_ci''), (''utf8mb4_spanish2_ci'', ''utf8mb4_spanish2_ci''),
    (''utf8mb4_roman_ci'', ''utf8mb4_roman_ci''), (''utf8mb4_persian_ci'', ''utf8mb4_persian_ci''),
    (''utf8mb4_esperanto_ci'', ''utf8mb4_esperanto_ci''),
    (''utf8mb4_hungarian_ci'', ''utf8mb4_hungarian_ci''),
    (''utf8mb4_sinhala_ci'', ''utf8mb4_sinhala_ci''), (''utf8mb4_german2_ci'', ''utf8mb4_german2_ci''),
    (''utf8mb4_croatian_ci'', ''utf8mb4_croatian_ci''),
    (''utf8mb4_unicode_520_ci'', ''utf8mb4_unicode_520_ci''),
    (''utf8mb4_vietnamese_ci'', ''utf8mb4_vietnamese_ci''),
    (''utf8mb4_0900_ai_ci'', ''utf8mb4_0900_ai_ci''),
    (''utf8mb4_de_pb_0900_ai_ci'', ''utf8mb4_de_pb_0900_ai_ci''),
    (''utf8mb4_is_0900_ai_ci'', ''utf8mb4_is_0900_ai_ci''),
    (''utf8mb4_lv_0900_ai_ci'', ''utf8mb4_lv_0900_ai_ci''),
    (''utf8mb4_ro_0900_ai_ci'', ''utf8mb4_ro_0900_ai_ci''),
    (''utf8mb4_sl_0900_ai_ci'', ''utf8mb4_sl_0900_ai_ci''),
    (''utf8mb4_pl_0900_ai_ci'', ''utf8mb4_pl_0900_ai_ci''),
    (''utf8mb4_et_0900_ai_ci'', ''utf8mb4_et_0900_ai_ci''),
    (''utf8mb4_es_0900_ai_ci'', ''utf8mb4_es_0900_ai_ci''),
    (''utf8mb4_sv_0900_ai_ci'', ''utf8mb4_sv_0900_ai_ci''),
    (''utf8mb4_tr_0900_ai_ci'', ''utf8mb4_tr_0900_ai_ci''),
    (''utf8mb4_cs_0900_ai_ci'', ''utf8mb4_cs_0900_ai_ci''),
    (''utf8mb4_da_0900_ai_ci'', ''utf8mb4_da_0900_ai_ci''),
    (''utf8mb4_lt_0900_ai_ci'', ''utf8mb4_lt_0900_ai_ci''),
    (''utf8mb4_sk_0900_ai_ci'', ''utf8mb4_sk_0900_ai_ci''),
    (''utf8mb4_es_trad_0900_ai_ci'', ''utf8mb4_es_trad_0900_ai_ci''),
    (''utf8mb4_la_0900_ai_ci'', ''utf8mb4_la_0900_ai_ci''),
    (''utf8mb4_eo_0900_ai_ci'', ''utf8mb4_eo_0900_ai_ci''),
    (''utf8mb4_hu_0900_ai_ci'', ''utf8mb4_hu_0900_ai_ci''),
    (''utf8mb4_hr_0900_ai_ci'', ''utf8mb4_hr_0900_ai_ci''),
    (''utf8mb4_vi_0900_ai_ci'', ''utf8mb4_vi_0900_ai_ci''),
    (''utf8mb4_0900_as_cs'', ''utf8mb4_0900_as_cs''),
    (''utf8mb4_de_pb_0900_as_cs'', ''utf8mb4_de_pb_0900_as_cs''),
    (''utf8mb4_is_0900_as_cs'', ''utf8mb4_is_0900_as_cs''),
    (''utf8mb4_lv_0900_as_cs'', ''utf8mb4_lv_0900_as_cs''),
    (''utf8mb4_ro_0900_as_cs'', ''utf8mb4_ro_0900_as_cs''),
    (''utf8mb4_sl_0900_as_cs'', ''utf8mb4_sl_0900_as_cs''),
    (''utf8mb4_pl_0900_as_cs'', ''utf8mb4_pl_0900_as_cs''),
    (''utf8mb4_et_0900_as_cs'', ''utf8mb4_et_0900_as_cs''),
    (''utf8mb4_es_0900_as_cs'', ''utf8mb4_es_0900_as_cs''),
    (''utf8mb4_sv_0900_as_cs'', ''utf8mb4_sv_0900_as_cs''),
    (''utf8mb4_tr_0900_as_cs'', ''utf8mb4_tr_0900_as_cs''),
    (''utf8mb4_cs_0900_as_cs'', ''utf8mb4_cs_0900_as_cs''),
    (''utf8mb4_da_0900_as_cs'', ''utf8mb4_da_0900_as_cs''),
    (''utf8mb4_lt_0900_as_cs'', ''utf8mb4_lt_0900_as_cs''),
    (''utf8mb4_sk_0900_as_cs'', ''utf8mb4_sk_0900_as_cs''),
    (''utf8mb4_es_trad_0900_as_cs'', ''utf8mb4_es_trad_0900_as_cs''),
    (''utf8mb4_la_0900_as_cs'', ''utf8mb4_la_0900_as_cs''),
    (''utf8mb4_eo_0900_as_cs'', ''utf8mb4_eo_0900_as_cs''),
    (''utf8mb4_hu_0900_as_cs'', ''utf8mb4_hu_0900_as_cs''),
    (''utf8mb4_hr_0900_as_cs'', ''utf8mb4_hr_0900_as_cs''),
    (''utf8mb4_vi_0900_as_cs'', ''utf8mb4_vi_0900_as_cs''),
    (''utf8mb4_ja_0900_as_cs'', ''utf8mb4_ja_0900_as_cs''),
    (''utf8mb4_ja_0900_as_cs_ks'', ''utf8mb4_ja_0900_as_cs_ks''),
    (''utf8mb4_0900_as_ci'', ''utf8mb4_0900_as_ci''),
    (''utf8mb4_ru_0900_ai_ci'', ''utf8mb4_ru_0900_ai_ci''),
    (''utf8mb4_ru_0900_as_cs'', ''utf8mb4_ru_0900_as_cs''),
    (''utf8mb4_zh_0900_as_cs'', ''utf8mb4_zh_0900_as_cs''),
    (''utf8mb4_0900_bin'', ''utf8mb4_0900_bin'')]"

definition characterSetDefaults :: "(CharacterSet, Collation) gomap" where
  "characterSetDefaults =
   [(''armscii8'', ''armscii8_general_ci''), (''ascii'', ''ascii_general_ci''),
    (''big5'', ''big5_chinese_ci''), (''binary'', ''binary''), (''cp1250'', ''cp1250_general_ci''),
    (''cp1251'', ''cp1251_general_ci''), (''cp1256'', ''cp1256_general_ci''),
    (''cp1257'', ''cp1257_general_ci''), (''cp850'', ''cp850_general_ci''),
    (''cp852'', ''cp852_general_ci''), (''cp866'', ''cp866_general_ci''),
    (''cp932'', ''cp932_japanese_ci''), (''dec8'', ''dec8_swedish_ci''),
    (''eucjpms'', ''eucjpms_japanese_ci''), (''euckr'', ''euckr_korean_ci''),
    (''gb18030'', ''gb18030_chinese_ci''), (''gb2312'', ''gb2312_chinese_ci''),
    (''gbk'', ''gbk_chinese_ci''), (''geostd8'', ''geostd8_general_ci''),
    (''greek'', ''greek_general_ci''), (''hebrew'', ''hebrew_general_ci''),
    (''hp8'', ''hp8_english_ci''), (''keybcs2'', ''keybcs2_general_ci''),
    (''koi8r'', ''koi8r_general_ci''), (''koi8u'', ''koi8u_general_ci''),
    (''latin1'', ''latin1_swedish_ci''), (''latin2'', ''latin2_general_ci''),
    (''latin5'', ''latin5_turkish_ci''), (''latin7'', ''latin7_general_ci''),
    (''macce'', ''macce_general_ci''), (''macroman'', ''macroman_general_ci''),
    (''sjis'', ''sjis_japanese_ci''), (''swe7'', ''swe7_swedish_ci''),
    (''tis620'', ''tis620_thai_ci''), (''ucs2'', ''ucs2_general_ci''),
    (''ujis'', ''ujis_japanese_ci''), (''utf16'', ''utf16_general_ci''),
    (''utf16le'', ''utf16le_general_ci''), (''utf32'', ''utf32_general_ci''),
    (''utf8mb3'', ''utf8mb3_general_ci''), (''utf8mb4'', ''utf8mb4_0900_ai_ci'')]"

definition characterSetDefaultBinaryColl :: "(CharacterSet, Collation) gomap" where
  "characterSetDefaultBinaryColl =
   [(''armscii8'', ''armscii8_bin''), (''ascii'', ''ascii_bin''), (''big5'', ''big5_bin''),
    (''binary'', ''binary''), (''cp1250'', ''cp1250_bin''), (''cp1251'', ''cp1251_bin''),
    (''cp1256'', ''cp1256_bin''), (''cp1257'', ''cp1257_bin''), (''cp850'', ''cp850_bin''),
    (''cp852'', ''cp852_bin''), (''cp866'', ''cp866_bin''), (''cp932'', ''cp932_bin''),
    (''dec8'', ''dec8_bin''), (''eucjpms'', ''eucjpms_bin''), (''euckr'', ''euckr_bin''),
    (''gb18030'', ''gb18030_bin''), (''gb2312'', ''gb2312_bin''), (''gbk'', ''gbk_bin''),
    (''geostd8'', ''geostd8_bin''), (''greek'', ''greek_bin''), (''hebrew'', ''hebrew_bin''),
    (''hp8'', ''hp8_bin''), (''keybcs2'', ''keybcs2_bin''), (''koi8r'', ''koi8r_bin''),
    (''koi8u'', ''koi8u_bin''), (''latin1'', ''latin1_bin''), (''latin2'', ''latin2_bin''),
    (''latin5'', ''latin5_bin''), (''latin7'', ''latin7_bin''), (''macce'', ''macce_bin''),
    (''macroman'', ''macroman_bin''), (''sjis'', ''sjis_bin''), (''swe7'', ''swe7_bin''),
    (''tis620'', ''tis620_bin''), (''ucs2'', ''ucs2_bin''), (''ujis'', ''ujis_bin''),
    (''utf16'', ''utf16_bin''), (''utf16le'', ''utf16le_bin''), (''utf32'', ''utf32_bin''),
    (''utf8mb3'', ''utf8mb3_bin''), (''utf8mb4'', ''utf8mb4_bin'')]"

definition collationToCharacterSet :: "(Collation, CharacterSet) gomap" where
  "collationToCharacterSet =
   [(''armscii8_general_ci'', ''armscii8''), (''armscii8_bin'', ''armscii8''),
    (''ascii_general_ci'', ''ascii''), (''ascii_bin'', ''ascii''), (''big5_chinese_ci'', ''big5''),
    (''big5_bin'', ''big5''), (''binary'', ''binary''), (''cp1250_general_ci'', ''cp1250''),
    (''cp1250_czech_cs'', ''cp1250''), (''cp1250_croatian_ci'', ''cp1250''),
    (''cp1250_bin'', ''cp1250''), (''cp1250_polish_ci'', ''cp1250''),
    (''cp1251_bulgarian_ci'', ''cp1251''), (''cp1251_ukrainian_ci'', ''cp1251''),
    (''cp1251_bin'', ''cp1251''), (''cp1251_general_ci'', ''cp1251''),
    (''cp1251_general_cs'', ''cp1251''), (''cp1256_general_ci'', ''cp1256''),
    (''cp1256_bin'', ''cp1256''), (''cp1257_lithuanian_ci'', ''cp1257''), (''cp1257_bin'', ''cp1257''),
    (''cp1257_general_ci'', ''cp1257''), (''cp850_general_ci'', ''cp850''), (''cp850_bin'', ''cp850''),
    (''cp852_general_ci'', ''cp852''), (''cp852_bin'', ''cp852''), (''cp866_general_ci'', ''cp866''),
    (''cp866_bin'', ''cp866''), (''cp932_japanese_ci'', ''cp932''), (''cp932_bin'', ''cp932''),
    (''dec8_swedish_ci'', ''dec8''), (''dec8_bin'', ''dec8''), (''eucjpms_japanese_ci'', ''eucjpms''),
    (''eucjpms_bin'', ''eucjpms''), (''euckr_korean_ci'', ''euckr''), (''euckr_bin'', ''euckr''),
    (''gb18030_chinese_ci'', ''gb18030''), (''gb18030_bin'', ''gb18030''),
    (''gb18030_unicode_520_ci'', ''gb18030''), (''gb2312_chinese_ci'', ''gb2312''),
    (''gb2312_bin'', ''gb2312''), (''gbk_chinese_ci'', ''gbk''), (''gbk_bin'', ''gbk''),
    (''geostd8_general_ci'', ''geostd8''), (''geostd8_bin'', ''geostd8''),
    (''greek_general_ci'', ''greek''), (''greek_bin'', ''greek''), (''hebrew_general_ci'', ''hebrew''),
    (''hebrew_bin'', ''hebrew''), (''hp8_english_ci'', ''hp8''), (''hp8_bin'', ''hp8''),
    (''keybcs2_general_ci'', ''keybcs2''), (''keybcs2_bin'', ''keybcs2''),
    (''koi8r_general_ci'', ''koi8r''), (''koi8r_bin'', ''koi8r''), (''koi8u_general_ci'', ''koi8u''),
    (''koi8u_bin'', ''koi8u''), (''latin1_german1_ci'', ''latin1''),
    (''latin1_swedish_ci'', ''latin1''), (''latin1_danish_ci'', ''latin1''),
    (''latin1_german2_ci'', ''latin1''), (''latin1_bin'', ''latin1''),
    (''latin1_general_ci'', ''latin1''), (''latin1_general_cs'', ''latin1''),
    (''latin1_spanish_ci'', ''latin1''), (''latin2_czech_cs'', ''latin2''),
    (''latin2_general_ci'', ''latin2''), (''latin2_hungarian_ci'', ''latin2''),
    (''latin2_croatian_ci'', ''latin2''), (''latin2_bin'', ''latin2''),
    (''latin5_turkish_ci'', ''latin5''), (''latin5_bin'', ''latin5''),
    (''latin7_estonian_cs'', ''latin7''), (''latin7_general_ci'', ''latin7''),
    (''latin7_general_cs'', ''latin7''), (''latin7_bin'', ''latin7''),
    (''macce_general_ci'', ''macce''), (''macce_bin'', ''macce''),
    (''macroman_general_ci'', ''macroman''), (''macroman_bin'', ''macroman''),
    (''sjis_japanese_ci'', ''sjis''), (''sjis_bin'', ''sjis''), (''swe7_swedish_ci'', ''swe7''),
    (''swe7_bin'', ''swe7''), (''tis620_thai_ci'', ''tis620''), (''tis620_bin'', ''tis620''),
    (''ucs2_general_ci'', ''ucs2''), (''ucs2_bin'', ''ucs2''), (''ucs2_unicode_ci'', ''ucs2''),
    (''ucs2_icelandic_ci'', ''ucs2''), (''ucs2_latvian_ci'', ''ucs2''),
    (''ucs2_romanian_ci'', ''ucs2''), (''ucs2_slovenian_ci'', ''ucs2''),
    (''ucs2_polish_ci'', ''ucs2''), (''ucs2_estonian_ci'', ''ucs2''), (''ucs2_spanish_ci'', ''ucs2''),
    (''ucs2_swedish_ci'', ''ucs2''), (''ucs2_turkish_ci'', ''ucs2''), (''ucs2_czech_ci'', ''ucs2''),
    (''ucs2_danish_ci'', ''ucs2''), (''ucs2_lithuanian_ci'', ''ucs2''), (''ucs2_slovak_ci'', ''ucs2''),
    (''ucs2_spanish2_ci'', ''ucs2''), (''ucs2_roman_ci'', ''ucs2''), (''ucs2_persian_ci'', ''ucs2''),
    (''ucs2_esperanto_ci'', ''ucs2''), (''ucs2_hungarian_ci'', ''ucs2''),
    (''ucs2_sinhala_ci'', ''ucs2''), (''ucs2_german2_ci'', ''ucs2''), (''ucs2_croatian_ci'', ''ucs2''),
    (''ucs2_unicode_520_ci'', ''ucs2''), (''ucs2_vietnamese_ci'', ''ucs2''),
    (''ucs2_general_mysql500_ci'', ''ucs2''), (''ujis_japanese_ci'', ''ujis''),
    (''ujis_bin'', ''ujis''), (''utf16_general_ci'', ''utf16''), (''utf16_bin'', ''utf16''),
    (''utf16_unicode_ci'', ''utf16''), (''utf16_icelandic_ci'', ''utf16''),
    (''utf16_latvian_ci'', ''utf16''), (''utf16_romanian_ci'', ''utf16''),
    (''utf16_slovenian_ci'', ''utf16''), (''utf16_polish_ci'', ''utf16''),
    (''utf16_estonian_ci'', ''utf16''), (''utf16_spanish_ci'', ''utf16''),
    (''utf16_swedish_ci'', ''utf16''), (''utf16_turkish_ci'', ''utf16''),
    (''utf16_czech_ci'', ''utf16''), (''utf16_danish_ci'', ''utf16''),
    (''utf16_lithuanian_ci'', ''utf16''), (''utf16_slovak_ci'', ''utf16''),
    (''utf16_spanish2_ci'', ''utf16''), (''utf16_roman_ci'', ''utf16''),
    (''utf16_persian_ci'', ''utf16''), (''utf16_esperanto_ci'', ''utf16''),
    (''utf16_hungarian_ci'', ''utf16''), (''utf16_sinhala_ci'', ''utf16''),
    (''utf16_german2_ci'', ''utf16''), (''utf16_croatian_ci'', ''utf16''),
    (''utf16_unicode_520_ci'', ''utf16''), (''utf16_vietnamese_ci'', ''utf16''),
    (''utf16le_general_ci'', ''utf16le''), (''utf16le_bin'', ''utf16le''),
    (''utf32_general_ci'', ''utf32''), (''utf32_bin'', ''utf32''), (''utf32_unicode_ci'', ''utf32''),
    (''utf32_icelandic_ci'', ''utf32''), (''utf32_latvian_ci'', ''utf32''),
    (''utf32_romanian_ci'', ''utf32''), (''utf32_slovenian_ci'', ''utf32''),
    (''utf32_polish_ci'', ''utf32''), (''utf32_estonian_ci'', ''utf32''),
    (''utf32_spanish_ci'', ''utf32''), (''utf32_swedish_ci'', ''utf32''),
    (''utf32_turkish_ci'', ''utf32''), (''utf32_czech_ci'', ''utf32''),
    (''utf32_danish_ci'', ''utf32''), (''utf32_lithuanian_ci'', ''utf32''),
    (''utf32_slovak_ci'', ''utf32''), (''utf32_spanish2_ci'', ''utf32''),
    (''utf32_roman_ci'', ''utf32''), (''utf32_persian_ci'', ''utf32''),
    (''utf32_esperanto_ci'', ''utf32''), (''utf32_hungarian_ci'', ''utf32''),
    (''utf32_sinhala_ci'', ''utf32''), (''utf32_german2_ci'', ''utf32''),
    (''utf32_croatian_ci'', ''utf32''), (''utf32_unicode_520_ci'', ''utf32''),
    (''utf32_vietnamese_ci'', ''utf32''), (''utf8mb3_general_ci'', ''utf8mb3''),
    (''utf8mb3_tolower_ci'', ''utf8mb3''), (''utf8mb3_bin'', ''utf8mb3''),
    (''utf8mb3_unicode_ci'', ''utf8mb3''), (''utf8mb3_icelandic_ci'', ''utf8mb3''),
    (''utf8mb3_latvian_ci'', ''utf8mb3''), (''utf8mb3_romanian_ci'', ''utf8mb3''),
    (''utf8mb3_slovenian_ci'', ''utf8mb3''), (''utf8mb3_polish_ci'', ''utf8mb3''),
    (''utf8mb3_estonian_ci'', ''utf8mb3''), (''utf8mb3_spanish_ci'', ''utf8mb3''),
    (''utf8mb3_swedish_ci'', ''utf8mb3''), (''utf8mb3_turkish_ci'', ''utf8mb3''),
    (''utf8mb3_czech_ci'', ''utf8mb3''), (''utf8mb3_danish_ci'', ''utf8mb3''),
    (''utf8mb3_lithuanian_ci'', ''utf8mb3''), (''utf8mb3_slovak_ci'', ''utf8mb3''),
    (''utf8mb3_spanish2_ci'', ''utf8mb3''), (''utf8mb3_roman_ci'', ''utf8mb3''),
    (''utf8mb3_persian_ci'', ''utf8mb3''), (''utf8mb3_esperanto_ci'', ''utf8mb3''),
    (''utf8mb3_hungarian_ci'', ''utf8mb3''), (''utf8mb3_sinhala_ci'', ''utf8mb3''),
    (''utf8mb3_german2_ci'', ''utf8mb3''), (''utf8mb3_croatian_ci'', ''utf8mb3''),
    (''utf8mb3_unicode_520_ci'', ''utf8mb3''), (''utf8mb3_vietnamese_ci'', ''utf8mb3''),
    (''utf8mb3_general_mysql500_ci'', ''utf8mb3''), (''utf8mb4_general_ci'', ''utf8mb4''),
    (''utf8mb4_bin'', ''utf8mb4''), (''utf8mb4_unicode_ci'', ''utf8mb4''),
    (''utf8mb4_icelandic_ci'', ''utf8mb4''), (''utf8mb4_latvian_ci'', ''utf8mb4''),
    (''utf8mb4_romanian_ci'', ''utf8mb4''), (''utf8mb4_slovenian_ci'', ''utf8mb4''),
    (''utf8mb4_polish_ci'', ''utf8mb4''), (''utf8mb4_estonian_ci'', ''utf8mb4''),
    (''utf8mb4_spanish_ci'', ''utf8mb4''), (''utf8mb4_swedish_ci'', ''utf8mb4''),
    (''utf8mb4_turkish_ci'', ''utf8mb4''), (''utf8mb4_czech_ci'', ''utf8mb4''),
    (''utf8mb4_danish_ci'', ''utf8mb4''), (''utf8mb4_lithuanian_ci'', ''utf8mb4''),
    (''utf8mb4_slovak_ci'', ''utf8mb4''), (''utf8mb4_spanish2_ci'', ''utf8mb4''),
    (''utf8mb4_roman_ci'', ''utf8mb4''), (''utf8mb4_persian_ci'', ''utf8mb4''),
    (''utf8mb4_esperanto_ci'', ''utf8mb4''), (''utf8mb4_hungarian_ci'', ''utf8mb4''),
    (''utf8mb4_sinhala_ci'', ''utf8mb4''), (''utf8mb4_german2_ci'', ''utf8mb4''),
    (''utf8mb4_croatian_ci'', ''utf8mb4''), (''utf8mb4_unicode_520_ci'', ''utf8mb4''),
    (''utf8mb4_vietnamese_ci'', ''utf8mb4''), (''utf8mb4_0900_ai_ci'', ''utf8mb4''),
    (''utf8mb4_de_pb_0900_ai_ci'', ''utf8mb4''), (''utf8mb4_is_0900_ai_ci'', ''utf8mb4''),
    (''utf8mb4_lv_0900_ai_ci'', ''utf8mb4''), (''utf8mb4_ro_0900_ai_ci'', ''utf8mb4''),
    (''utf8mb4_sl_0900_ai_ci'', ''utf8mb4''), (''utf8mb4_pl_0900_ai_ci'', ''utf8mb4''),
    (''utf8mb4_et_0900_ai_ci'', ''utf8mb4''), (''utf8mb4_es_0900_ai_ci'', ''utf8mb4''),
    (''utf8mb4_sv_0900_ai_ci'', ''utf8mb4''), (''utf8mb4_tr_0900_ai_ci'', ''utf8mb4''),
    (''utf8mb4_cs_0900_ai_ci'', ''utf8mb4''), (''utf8mb4_da_0900_ai_ci'', ''utf8mb4''),
    (''utf8mb4_lt_0900_ai_ci'', ''utf8mb4''), (''utf8mb4_sk_0900_ai_ci'', ''utf8mb4''),
    (''utf8mb4_es_trad_0900_ai_ci'', ''utf8mb4''), (''utf8mb4_la_0900_ai_ci'', ''utf8mb4''),
    (''utf8mb4_eo_0900_ai_ci'', ''utf8mb4''), (''utf8mb4_hu_0900_ai_ci'', ''utf8mb4''),
    (''utf8mb4_hr_0900_ai_ci'', ''utf8mb4''), (''utf8mb4_vi_0900_ai_ci'', ''utf8mb4''),
    (''utf8mb4_0900_as_cs'', ''utf8mb4''), (''utf8mb4_de_pb_0900_as_cs'', ''utf8mb4''),
    (''utf8mb4_is_0900_as_cs'', ''utf8mb4''), (''utf8mb4_lv_0900_as_cs'', ''utf8mb4''),
    (''utf8mb4_ro_0900_as_cs'', ''utf8mb4''), (''utf8mb4_sl_0900_as_cs'', ''utf8mb4''),
    (''utf8mb4_pl_0900_as_cs'', ''utf8mb4''), (''utf8mb4_et_0900_as_cs'', ''utf8mb4''),
    (''utf8mb4_es_0900_as_cs'', ''utf8mb4''), (''utf8mb4_sv_0900_as_cs'', ''utf8mb4''),
    (''utf8mb4_tr_0900_as_cs'', ''utf8mb4''), (''utf8mb4_cs_0900_as_cs'', ''utf8mb4''),
    (''utf8mb4_da_0900_as_cs'', ''utf8mb4''), (''utf8mb4_lt_0900_as_cs'', ''utf8mb4''),
    (''utf8mb4_sk_0900_as_cs'', ''utf8mb4''), (''utf8mb4_es_trad_0900_as_cs'', ''utf8mb4''),
    (''utf8mb4_la_0900_as_cs'', ''utf8mb4''), (''utf8mb4_eo_0900_as_cs'', ''utf8mb4''),
    (''utf8mb4_hu_0900_as_cs'', ''utf8mb4''), (''utf8mb4_hr_0900_as_cs'', ''utf8mb4''),
    (''utf8mb4_vi_0900_as_cs'', ''utf8mb4''), (''utf8mb4_ja_0900_as_cs'', ''utf8mb4''),
    (''utf8mb4_ja_0900_as_cs_ks'', ''utf8mb4''), (''utf8mb4_0900_as_ci'', ''utf8mb4''),
    (''utf8mb4_ru_0900_ai_ci'', ''utf8mb4''), (''utf8mb4_ru_0900_as_cs'', ''utf8mb4''),
    (''utf8mb4_zh_0900_as_cs'', ''utf8mb4''), (''utf8mb4_0900_bin'', ''utf8mb4''), (''utf8'', ''utf8'')]"

definition characterSetDescriptions :: "(CharacterSet, string) gomap" where
  "characterSetDescriptions =
   [(''armscii8'', ''ARMSCII-8 Armenian''), (''ascii'', ''US ASCII''),
    (''big5'', ''Big5 Traditional Chinese''), (''binary'', ''Binary pseudo charset''),
    (''cp1250'', ''Windows Central European''), (''cp1251'', ''Windows Cyrillic''),
    (''cp1256'', ''Windows Arabic''), (''cp1257'', ''Windows Baltic''),
    (''cp850'', ''DOS West European''), (''cp852'', ''DOS Central European''),
    (''cp866'', ''DOS Russian''), (''cp932'', ''SJIS for Windows Japanese''),
    (''dec8'', ''DEC West European''), (''eucjpms'', ''UJIS for Windows Japanese''),
    (''euckr'', ''EUC-KR Korean''), (''gb18030'', ''China National Standard GB18030''),
    (''gb2312'', ''GB2312 Simplified Chinese''), (''gbk'', ''GBK Simplified Chinese''),
    (''geostd8'', ''GEOSTD8 Georgian''), (''greek'', ''ISO 8859-7 Greek''),
    (''hebrew'', ''ISO 8859-8 Hebrew''), (''hp8'', ''HP West European''),
    (''keybcs2'', ''DOS Kamenicky Czech-Slovak''), (''koi8r'', ''KOI8-R Relcom Russian''),
    (''koi8u'', ''KOI8-U Ukrainian''), (''latin1'', ''cp1252 West European''),
    (''latin2'', ''ISO 8859-2 Central European''), (''latin5'', ''ISO 8859-9 Turkish''),
    (''latin7'', ''ISO 8859-13 Baltic''), (''macce'', ''Mac Central European''),
    (''macroman'', ''Mac West European''), (''sjis'', ''Shift-JIS Japanese''),
    (''swe7'', ''7bit Swedish''), (''tis620'', ''TIS620 Thai''), (''ucs2'', ''UCS-2 Unicode''),
    (''ujis'', ''EUC-JP Japanese''), (''utf16'', ''UTF-16 Unicode''),
    (''utf16le'', ''UTF-16LE Unicode''), (''utf32'', ''UTF-32 Unicode''),
    (''utf8mb3'', ''UTF-8 Unicode''), (''utf8mb4'', ''UTF-8 Unicode'')]"

definition characterSetMaxLengths :: "(CharacterSet, int) gomap" where
  "characterSetMaxLengths =
   [(''armscii8'', 1), (''ascii'', 1), (''big5'', 2), (''binary'', 1), (''cp1250'', 1),
    (''cp1251'', 1), (''cp1256'', 1), (''cp1257'', 1), (''cp850'', 1), (''cp852'', 1), (''cp866'', 1),
    (''cp932'', 2), (''dec8'', 1), (''eucjpms'', 3), (''euckr'', 2), (''gb18030'', 4), (''gb2312'', 2),
    (''gbk'', 2), (''geostd8'', 1), (''greek'', 1), (''hebrew'', 1), (''hp8'', 1), (''keybcs2'', 1),
    (''koi8r'', 1), (''koi8u'', 1), (''latin1'', 1), (''latin2'', 1), (''latin5'', 1), (''latin7'', 1),
    (''macce'', 1), (''macroman'', 1), (''sjis'', 2), (''swe7'', 1), (''tis620'', 1), (''ucs2'', 2),
    (''ujis'', 3), (''utf16'', 4), (''utf16le'', 4), (''utf32'', 4), (''utf8mb3'', 3), (''utf8mb4'', 4)]"

record mysqlCollationRow =
  row_ID :: int
  row_IsDefault :: string
  row_IsCompiled :: string
  row_SortLen :: int
  row_PadSpace :: string

definition CollationToMySQLVals :: "(Collation, mysqlCollationRow) gomap" where
  "CollationToMySQLVals =
   [(Collation_binary, \<lparr>row_ID = 63, row_IsDefault = ''Yes'', row_IsCompiled = ''Yes'', row_SortLen = 0,
       row_PadSpace = ''NO PAD''\<rparr>),
    (Collation_utf8_general_ci, \<lparr>row_ID = 33, row_IsDefault = ''Yes'', row_IsCompiled = ''Yes'',
       row_SortLen = 1, row_PadSpace = ''PAD SPACE''\<rparr>),
    (Collation_Default, \<lparr>row_ID = 255, row_IsDefault = ''Yes'', row_IsCompiled = ''Yes'', row_SortLen = 0,
       row_PadSpace = ''NO PAD''\<rparr>)]"

section \<open>Methods\<close>

text \<open>A table lookup that panics on a missing key, the shape of five methods.\<close>

definition must_lookup :: "string \<Rightarrow> ('k, 'v) gomap \<Rightarrow> 'k \<Rightarrow> sql_error + 'v" where
  "must_lookup what m k = (case map_of m k of Some v \<Rightarrow> Inr v | None \<Rightarrow> Inl (Panic what))"

definition DefaultCollation :: "CharacterSet \<Rightarrow> sql_error + Collation" where
  "DefaultCollation cs = must_lookup (cs @ '' does not have a default collation set'') characterSetDefaults cs"

definition BinaryCollation :: "CharacterSet \<Rightarrow> sql_error + Collation" where
  "BinaryCollation cs =
     must_lookup (cs @ '' does not have a default binary collation set'') characterSetDefaultBinaryColl cs"

definition Description :: "CharacterSet \<Rightarrow> sql_error + string" where
  "Description cs = must_lookup (cs @ '' does not have a description set'') characterSetDescriptions cs"

definition MaxLength :: "CharacterSet \<Rightarrow> sql_error + int" where
  "MaxLength cs = must_lookup (cs @ '' does not have a maximum length set'') characterSetMaxLengths cs"

definition CharacterSet_of :: "Collation \<Rightarrow> sql_error + CharacterSet" where
  "CharacterSet_of c = must_lookup (c @ '' does not have a character set defined'') collationToCharacterSet c"

definition WorksWithCharacterSet :: "Collation \<Rightarrow> CharacterSet \<Rightarrow> sql_error + bool" where
  "WorksWithCharacterSet c cs = map_sum id (\<lambda>x. x = cs) (CharacterSet_of c)"

definition Collation_ID :: "Collation \<Rightarrow> int" where
  "Collation_ID c = (case map_of CollationToMySQLVals c of
     None \<Rightarrow> (case map_of CollationToMySQLVals Collation_Default of Some s \<Rightarrow> row_ID s | None \<Rightarrow> 0)
   | Some s \<Rightarrow> row_ID s)"

definition Collation_IsDefault :: "Collation \<Rightarrow> string" where
  "Collation_IsDefault c = (case map_of CollationToMySQLVals c of None \<Rightarrow> ''Yes'' | Some s \<Rightarrow> row_IsDefault s)"

definition Collation_IsCompiled :: "Collation \<Rightarrow> string" where
  "Collation_IsCompiled c = (case map_of CollationToMySQLVals c of None \<Rightarrow> ''Yes'' | Some s \<Rightarrow> row_IsCompiled s)"

definition Collation_SortLen :: "Collation \<Rightarrow> int" where
  "Collation_SortLen c = (case map_of CollationToMySQLVals c of None \<Rightarrow> 1 | Some s \<Rightarrow> row_SortLen s)"

definition Collation_PadSpace :: "Collation \<Rightarrow> string" where
  "Collation_PadSpace c =
     (case map_of CollationToMySQLVals c of None \<Rightarrow> ''PAD SPACE'' | Some s \<Rightarrow> row_PadSpace s)"

definition ParseCharacterSet :: "string \<Rightarrow> sql_error + CharacterSet" where
  "ParseCharacterSet str = (case map_of characterSets str of
     Some cs \<Rightarrow> Inr cs
   | None \<Rightarrow> Inl (ErrCharacterSetNotSupported str))"

text \<open>A nil pointer and a pointer to the empty string are treated alike.\<close>

definition absent :: "string option \<Rightarrow> bool" where
  "absent s = (case s of None \<Rightarrow> True | Some x \<Rightarrow> x = [])"

definition ParseCollation :: "string option \<Rightarrow> string option \<Rightarrow> bool \<Rightarrow> sql_error + Collation" where
  "ParseCollation characterSetStr collationStr binaryAttribute =
     (if absent characterSetStr then
        if absent collationStr then
          if binaryAttribute then bindE (CharacterSet_of Collation_Default) BinaryCollation
          else Inr Collation_Default
        else
          case map_of collations (the collationStr) of
            Some collation \<Rightarrow>
              if binaryAttribute then bindE (CharacterSet_of collation) BinaryCollation else Inr collation
          | None \<Rightarrow> Inl (ErrCollationNotSupported (the collationStr))
      else
        bindE (ParseCharacterSet (the characterSetStr)) (\<lambda>characterSet.
          if absent collationStr then
            if binaryAttribute then BinaryCollation characterSet else DefaultCollation characterSet
          else
            case map_of collations (the collationStr) of
              None \<Rightarrow> Inl (ErrCollationNotSupported (the collationStr))
            | Some collation \<Rightarrow>
                bindE (WorksWithCharacterSet collation characterSet) (\<lambda>works.
                  if \<not> works then Inl (ErrGeneric (characterSet @ '' is not a valid character set for '' @ collation))
                  else Inr collation)))"

section \<open>Consistency of the tables\<close>

text \<open>
  The tables are written in the order of the constants, so one pass over each of them shows its shape:
  \<open>collations\<close> maps every constant to itself and the old \<^verbatim>\<open>utf8_\<close> names to the \<^verbatim>\<open>utf8mb3_\<close> constants, and the
  part of a collation's name before the first underscore is the name of its character set.
\<close>

definition cs_prefix :: "Collation \<Rightarrow> CharacterSet" where
  "cs_prefix = takeWhile (\<lambda>x. x \<noteq> CHR ''_'')"

definition utf8_name :: "Collation \<Rightarrow> string" where
  "utf8_name c = ''utf8'' @ drop 7 c"

lemma collations_shape:
  "collations = map (\<lambda>c. (c, c)) Collation_consts_legacy @
     map (\<lambda>c. (utf8_name c, c)) Collation_consts_utf8mb3 @
     map (\<lambda>c. (c, c)) Collation_consts_utf8mb3 @ map (\<lambda>c. (c, c)) Collation_consts_utf8mb4"
  by (simp add: collations_def Collation_consts_legacy_def Collation_consts_utf8mb3_def
      Collation_consts_utf8mb4_def utf8_name_def)

lemma collationToCharacterSet_shape:
  "collationToCharacterSet = map (\<lambda>c. (c, cs_prefix c)) (Collation_consts_legacy @
     Collation_consts_utf8mb3 @ Collation_consts_utf8mb4 @ [Collation_utf8_general_ci])"
  by (simp add: collationToCharacterSet_def Collation_consts_legacy_def Collation_consts_utf8mb3_def
      Collation_consts_utf8mb4_def Collation_utf8_general_ci_def cs_prefix_def)

definition known_collations :: "Collation set" where
  "known_collations =
     set Collation_consts_legacy \<union> set Collation_consts_utf8mb3 \<union> set Collation_consts_utf8mb4"

definition known_charsets :: "CharacterSet list" where
  "known_charsets = take 39 CharacterSet_consts @ drop 40 CharacterSet_consts"

lemma ran_collations: "map_of collations n = Some c \<Longrightarrow> c \<in> known_collations"
  using map_of_SomeD [of collations n c] by (auto simp: collations_shape known_collations_def)

lemma map_of_graph: "map_of (map (\<lambda>c. (c, f c)) xs) x = (if x \<in> set xs then Some (f x) else None)"
  by (induction xs) auto

lemma CharacterSet_of_known: "c \<in> known_collations \<Longrightarrow> CharacterSet_of c = Inr (cs_prefix c)"
  unfolding CharacterSet_of_def must_lookup_def collationToCharacterSet_shape map_of_graph
    known_collations_def by auto

lemma characterSets_shape:
  "characterSets = map (\<lambda>x. (x, x)) (take 39 CharacterSet_consts) @ [(''utf8'', ''utf8mb3'')] @
     map (\<lambda>x. (x, x)) (drop 40 CharacterSet_consts)"
  by (simp add: characterSets_def CharacterSet_consts_def)

lemma charset_tables_keys:
  "keys characterSetDefaults = known_charsets" "keys characterSetDefaultBinaryColl = known_charsets"
  "keys characterSetDescriptions = known_charsets" "keys characterSetMaxLengths = known_charsets"
  by (simp_all add: known_charsets_def CharacterSet_consts_def characterSetDefaults_def
      characterSetDefaultBinaryColl_def characterSetDescriptions_def characterSetMaxLengths_def)

lemma utf8mb3_known: "''utf8mb3'' \<in> set known_charsets"
  by (simp add: known_charsets_def CharacterSet_consts_def)

lemma ran_characterSets: "map_of characterSets n = Some cs \<Longrightarrow> cs \<in> set known_charsets"
  using map_of_SomeD [of characterSets n cs] utf8mb3_known
  by (auto simp: characterSets_shape known_charsets_def simp del: set_drop_subset)

lemma default_prefixes:
  "list_all (\<lambda>(cs, c). cs_prefix c = cs) characterSetDefaults"
  "list_all (\<lambda>(cs, c). cs_prefix c = cs) characterSetDefaultBinaryColl"
  by (simp_all add: characterSetDefaults_def characterSetDefaultBinaryColl_def cs_prefix_def)

lemmas collation_consts_defs =
  Collation_consts_legacy_def Collation_consts_utf8mb3_def Collation_consts_utf8mb4_def

text \<open>The default and the binary collations are listed in the order of the constants.\<close>

lemma default_collations_subseq:
  "subseq (map snd characterSetDefaults)
     (Collation_consts_legacy @ Collation_consts_utf8mb3 @ Collation_consts_utf8mb4)"
  unfolding characterSetDefaults_def collation_consts_defs list.map snd_conv append.simps
  by (rule list_emb_Nil | rule subseq_Cons2 | rule list_emb_Cons)+

lemma binary_collations_subseq:
  "subseq (map snd characterSetDefaultBinaryColl)
     (Collation_consts_legacy @ Collation_consts_utf8mb3 @ Collation_consts_utf8mb4)"
  unfolding characterSetDefaultBinaryColl_def collation_consts_defs list.map snd_conv append.simps
  by (rule list_emb_Nil | rule subseq_Cons2 | rule list_emb_Cons)+

lemma MaxLengths_bounds: "list_all (\<lambda>(cs, n). 1 \<le> n \<and> n \<le> 4) characterSetMaxLengths"
  by (simp add: characterSetMaxLengths_def)

lemma subseq_known:
  assumes "subseq xs (Collation_consts_legacy @ Collation_consts_utf8mb3 @ Collation_consts_utf8mb4)"
    and "c \<in> set xs"
  shows "c \<in> known_collations"
  using list_emb_set [OF assms] by (auto simp: known_collations_def)

lemma must_lookup_known: "k \<in> set (keys m) \<Longrightarrow> \<exists>v. must_lookup w m k = Inr v \<and> (k, v) \<in> set m"
  by (cases "map_of m k") (auto simp: must_lookup_def map_of_eq_None_iff dest: map_of_SomeD)

lemma DefaultCollation_known:
  assumes "cs \<in> set known_charsets"
  shows "\<exists>c. DefaultCollation cs = Inr c \<and> c \<in> known_collations \<and> cs_prefix c = cs"
proof -
  from assms obtain c where c: "DefaultCollation cs = Inr c" "(cs, c) \<in> set characterSetDefaults"
    unfolding DefaultCollation_def charset_tables_keys(1) [symmetric] by (metis must_lookup_known)
  from c(2) have "c \<in> set (map snd characterSetDefaults)" by force
  then have "c \<in> known_collations" by (rule subseq_known [OF default_collations_subseq])
  with c default_prefixes(1) show ?thesis by (auto simp: list_all_iff)
qed

lemma BinaryCollation_known:
  assumes "cs \<in> set known_charsets"
  shows "\<exists>c. BinaryCollation cs = Inr c \<and> c \<in> known_collations \<and> cs_prefix c = cs"
proof -
  from assms obtain c where c: "BinaryCollation cs = Inr c" "(cs, c) \<in> set characterSetDefaultBinaryColl"
    unfolding BinaryCollation_def charset_tables_keys(2) [symmetric] by (metis must_lookup_known)
  from c(2) have "c \<in> set (map snd characterSetDefaultBinaryColl)" by force
  then have "c \<in> known_collations" by (rule subseq_known [OF binary_collations_subseq])
  with c default_prefixes(2) show ?thesis by (auto simp: list_all_iff)
qed

lemma MaxLength_known:
  assumes "cs \<in> set known_charsets"
  shows "\<exists>n. MaxLength cs = Inr n \<and> 1 \<le> n \<and> n \<le> 4"
proof -
  from assms obtain n where "MaxLength cs = Inr n" "(cs, n) \<in> set characterSetMaxLengths"
    unfolding MaxLength_def charset_tables_keys(4) [symmetric] by (metis must_lookup_known)
  with MaxLengths_bounds show ?thesis by (auto simp: list_all_iff)
qed

text \<open>
  Every collation constant belongs to a known character set: both are listed in the same order, so one
  pass over both lists shows it.
\<close>

lemma covered_Nil: "set [] \<subseteq> set ys"
  and covered_same: "set xs \<subseteq> set (y # ys) \<Longrightarrow> set (y # xs) \<subseteq> set (y # ys)"
  and covered_skip: "set xs \<subseteq> set ys \<Longrightarrow> set xs \<subseteq> set (y # ys)"
  by auto

lemma prefixes_covered:
  "set (map cs_prefix (Collation_consts_legacy @ Collation_consts_utf8mb3 @ Collation_consts_utf8mb4))
     \<subseteq> set (keys characterSetMaxLengths)"
  unfolding collation_consts_defs characterSetMaxLengths_def list.map fst_conv append.simps cs_prefix_def
  by (simp only: takeWhile.simps char.inject if_True if_False simp_thms)
     (rule covered_Nil | rule covered_same | rule covered_skip)+

lemma prefix_known: "c \<in> known_collations \<Longrightarrow> cs_prefix c \<in> set known_charsets"
  using prefixes_covered by (auto simp: known_collations_def charset_tables_keys)

lemma Default_known: "Collation_Default \<in> known_collations"
  by (simp add: known_collations_def Collation_Default_def collation_consts_defs)

lemma ParseCharacterSet_cases:
  "(\<exists>cs. ParseCharacterSet n = Inr cs \<and> cs \<in> set known_charsets) \<or>
   ParseCharacterSet n = Inl (ErrCharacterSetNotSupported n)"
  by (cases "map_of characterSets n") (auto simp: ParseCharacterSet_def dest: ran_characterSets)

text \<open>What \<^verbatim>\<open>ParseCollation\<close> can return: a known collation, of the character set if one was given, or an error
  that is not a panic.\<close>

definition parsed_ok :: "string option \<Rightarrow> sql_error + Collation \<Rightarrow> bool" where
  "parsed_ok csStr res = (case res of
     Inr c \<Rightarrow> c \<in> known_collations \<and> (\<not> absent csStr \<longrightarrow> ParseCharacterSet (the csStr) = Inr (cs_prefix c))
   | Inl (Panic w) \<Rightarrow> False
   | Inl e \<Rightarrow> True)"

lemma binary_parsed_ok:
  "absent csStr \<Longrightarrow> c \<in> known_collations \<Longrightarrow> parsed_ok csStr (bindE (CharacterSet_of c) BinaryCollation)"
  using BinaryCollation_known [OF prefix_known, of c] by (auto simp: CharacterSet_of_known parsed_ok_def)

lemma ParseCollation_parsed_ok: "parsed_ok csStr (ParseCollation csStr coStr bin)"
proof (cases "absent csStr")
  case True
  then show ?thesis
    using binary_parsed_ok [OF True] Default_known
    by (auto simp: ParseCollation_def parsed_ok_def [of _ "Inr _"] parsed_ok_def [of _ "Inl (ErrCollationNotSupported _)"]
        dest: ran_collations split: option.splits)
next
  case False
  then show ?thesis
    using ParseCharacterSet_cases [of "the csStr"]
  proof (elim disjE exE conjE)
    fix cs assume cs: "ParseCharacterSet (the csStr) = Inr cs" "cs \<in> set known_charsets"
    with False show ?thesis
      using DefaultCollation_known [OF cs(2)] BinaryCollation_known [OF cs(2)]
      by (auto simp: ParseCollation_def parsed_ok_def WorksWithCharacterSet_def CharacterSet_of_known
          dest: ran_collations split: option.splits)
  qed (simp add: ParseCollation_def parsed_ok_def)
qed

section \<open>Properties\<close>

text \<open>C22. \<^verbatim>\<open>ParseCollation\<close> never panics, and the collation it returns is usable: its character set is known,
  with a character length between one and four bytes, a description and a default collation, and it is
  the character set asked for if one was asked for.\<close>

theorem ParseCollation_usable:
  "ParseCollation csStr coStr bin \<noteq> Inl (Panic w) \<and>
   (ParseCollation csStr coStr bin = Inr c \<longrightarrow>
     (\<exists>cs n d e. CharacterSet_of c = Inr cs \<and> MaxLength cs = Inr n \<and> 1 \<le> n \<and> n \<le> 4 \<and>
        Description cs = Inr d \<and> DefaultCollation cs = Inr e \<and>
        (absent csStr \<or> ParseCharacterSet (the csStr) = Inr cs)))"
proof (cases "ParseCollation csStr coStr bin")
  case (Inl e)
  with ParseCollation_parsed_ok [of csStr coStr bin] show ?thesis by (auto simp: parsed_ok_def)
next
  case (Inr c')
  with ParseCollation_parsed_ok [of csStr coStr bin]
  have c': "c' \<in> known_collations" "\<not> absent csStr \<longrightarrow> ParseCharacterSet (the csStr) = Inr (cs_prefix c')"
    by (auto simp: parsed_ok_def)
  have cs: "cs_prefix c' \<in> set known_charsets" by (rule prefix_known [OF c'(1)])
  then have "\<exists>d. Description (cs_prefix c') = Inr d"
    unfolding Description_def charset_tables_keys(3) [symmetric] by (metis must_lookup_known)
  with Inr c' MaxLength_known [OF cs] DefaultCollation_known [OF cs] show ?thesis
    by (auto simp: CharacterSet_of_known)
qed

theorem ParseCollation_usable_witness:
  "\<exists>cs n. CharacterSet_of Collation_Default = Inr cs \<and> MaxLength cs = Inr n \<and> 1 \<le> n"
proof -
  have "ParseCollation None None False = Inr Collation_Default" by (simp add: ParseCollation_def absent_def)
  with ParseCollation_usable [of None None False _ Collation_Default] show ?thesis by auto
qed

text \<open>The constant \<^verbatim>\<open>CharacterSet_utf8\<close> is the only declared character set that no table knows: its methods
  panic, and it is the character set of the declared collation \<^verbatim>\<open>Collation_utf8_general_ci\<close>.\<close>

lemma utf8_constant_unusable:
  "(cs \<in> set CharacterSet_consts \<longrightarrow> ((\<exists>n. MaxLength cs = Inr n) \<longleftrightarrow> cs \<noteq> ''utf8'')) \<and>
   CharacterSet_of Collation_utf8_general_ci = Inr ''utf8'' \<and>
   (\<exists>w. MaxLength ''utf8'' = Inl (Panic w)) \<and> (\<exists>w. DefaultCollation ''utf8'' = Inl (Panic w))"
proof -
  have known: "set CharacterSet_consts = insert ''utf8'' (set known_charsets)" "''utf8'' \<notin> set known_charsets"
    by (simp_all add: known_charsets_def CharacterSet_consts_def insert_commute)
  have "map_of characterSetMaxLengths ''utf8'' = None" "map_of characterSetDefaults ''utf8'' = None"
    using known(2) unfolding map_of_eq_None_iff set_map [symmetric] by (simp_all only: charset_tables_keys not_False_eq_True)
  then have none: "\<exists>w. MaxLength ''utf8'' = Inl (Panic w)" "\<exists>w. DefaultCollation ''utf8'' = Inl (Panic w)"
    by (simp_all add: MaxLength_def DefaultCollation_def must_lookup_def)
  have "CharacterSet_of Collation_utf8_general_ci = Inr (cs_prefix Collation_utf8_general_ci)"
    unfolding CharacterSet_of_def must_lookup_def collationToCharacterSet_shape map_of_graph by simp
  moreover have "cs_prefix Collation_utf8_general_ci = ''utf8''"
    by (simp add: cs_prefix_def Collation_utf8_general_ci_def)
  ultimately show ?thesis using known none MaxLength_known [of cs] by auto
qed

end
