(* ===== verification/Go_Values.thy ===== *)
theory Go_Values
  imports Go_Prelude
begin

text \<open>
  The values SQL expressions are evaluated to. In the source they are Go \<^verbatim>\<open>interface{}\<close> values; a
  constructor of \<open>val\<close> stands for a dynamic type, its argument for the value. Integers are words of
  their width, floating-point numbers are the bit patterns of IEEE 754, a \<^verbatim>\<open>time.Time\<close> is the struct of
  its three fields \<^verbatim>\<open>wall\<close>, \<^verbatim>\<open>ext\<close> and \<^verbatim>\<open>loc\<close> (the pointer as a number), a \<^verbatim>\<open>decimal.Decimal\<close> is the pointer to its
  big coefficient, the coefficient and the exponent. \<open>VNullType\<close> is the type object
  \<^verbatim>\<open>sql.Null\<close>, which one function of the engine returns as a value.
\<close>

unbundle bit_operations_syntax

datatype (plugins only: "code" "size") val =
    VNil
  | VBool bool
  | VInt8 "8 word" | VInt16 "16 word" | VInt32 "32 word" | VInt64 "64 word" | VInt "64 word"
  | VUint8 "8 word" | VUint16 "16 word" | VUint32 "32 word" | VUint64 "64 word" | VUint "64 word"
  | VFloat32 "32 word" | VFloat64 "64 word"
  | VString string
  | VBytes string
  | VTime "64 word" "64 word" nat
  | VDuration "64 word"
  | VDecimal nat int int
  | VArray "val list"
  | VNullType

type_synonym row = "val list"

section \<open>Equality of interface values\<close>

text \<open>Floating-point equality on bit patterns: a NaN differs from everything, the two zeros are equal.\<close>

definition f64_nan :: "64 word \<Rightarrow> bool" where
  "f64_nan x \<longleftrightarrow> x AND 0x7FFFFFFFFFFFFFFF > 0x7FF0000000000000"

definition f64_eq :: "64 word \<Rightarrow> 64 word \<Rightarrow> bool" where
  "f64_eq x y \<longleftrightarrow> \<not> f64_nan x \<and> \<not> f64_nan y \<and>
     (x = y \<or> x AND 0x7FFFFFFFFFFFFFFF = 0 \<and> y AND 0x7FFFFFFFFFFFFFFF = 0)"

definition f32_nan :: "32 word \<Rightarrow> bool" where
  "f32_nan x \<longleftrightarrow> x AND 0x7FFFFFFF > 0x7F800000"

definition f32_eq :: "32 word \<Rightarrow> 32 word \<Rightarrow> bool" where
  "f32_eq x y \<longleftrightarrow> \<not> f32_nan x \<and> \<not> f32_nan y \<and>
     (x = y \<or> x AND 0x7FFFFFFF = 0 \<and> y AND 0x7FFFFFFF = 0)"

text \<open>
  Go's \<^verbatim>\<open>==\<close> on two interface values: values of different dynamic types are different, values of one
  dynamic type are compared as that type, and comparing two values of an uncomparable dynamic type (a
  slice) panics.
\<close>

definition uncomparable :: sql_error where
  "uncomparable = Panic ''runtime error: comparing uncomparable type''"

definition go_eq :: "val \<Rightarrow> val \<Rightarrow> sql_error + bool" where
  "go_eq v w = (case v of
     VFloat32 x \<Rightarrow> (case w of VFloat32 y \<Rightarrow> Inr (f32_eq x y) | _ \<Rightarrow> Inr False)
   | VFloat64 x \<Rightarrow> (case w of VFloat64 y \<Rightarrow> Inr (f64_eq x y) | _ \<Rightarrow> Inr False)
   | VBytes x \<Rightarrow> (case w of VBytes y \<Rightarrow> Inl uncomparable | _ \<Rightarrow> Inr False)
   | VArray x \<Rightarrow> (case w of VArray y \<Rightarrow> Inl uncomparable | _ \<Rightarrow> Inr False)
   | _ \<Rightarrow> Inr (v = w))"

text \<open>The values on which \<^verbatim>\<open>==\<close> is an equality test: no slices and no NaN.\<close>

definition comparable :: "val \<Rightarrow> bool" where
  "comparable v = (case v of VBytes _ \<Rightarrow> False | VArray _ \<Rightarrow> False
     | VFloat32 x \<Rightarrow> \<not> f32_nan x | VFloat64 x \<Rightarrow> \<not> f64_nan x | _ \<Rightarrow> True)"

lemma go_eq_refl [simp]: "comparable v \<Longrightarrow> go_eq v v = Inr True"
  by (auto simp: go_eq_def comparable_def f32_eq_def f64_eq_def split: val.splits)

lemma go_eq_defined: "comparable v \<Longrightarrow> \<exists>b. go_eq v w = Inr b"
  by (auto simp: go_eq_def comparable_def split: val.splits)

lemma go_eq_panics: "go_eq v w = Inl e \<Longrightarrow> \<not> comparable v \<and> \<not> comparable w"
  by (auto simp: go_eq_def comparable_def split: val.splits)

section \<open>NULL in comparisons\<close>

text \<open>\<^verbatim>\<open>compareNulls\<close> of \<^verbatim>\<open>sql/type.go\<close>: whether one of the values is NULL, and the order if so: NULL comes first.\<close>

definition compareNulls :: "val \<Rightarrow> val \<Rightarrow> bool \<times> int" where
  "compareNulls a b =
     (if a = VNil \<and> b = VNil then (True, 0)
      else if a = VNil \<and> b \<noteq> VNil then (True, -1)
      else if a \<noteq> VNil \<and> b = VNil then (True, 1)
      else (False, 0))"

text \<open>The comparison that the types of \<^verbatim>\<open>sql\<close> share: NULL first, then the keys both values convert to.\<close>

definition compare_by :: "('k :: linorder) \<Rightarrow> 'k \<Rightarrow> int" where
  "compare_by a b = (if a < b then -1 else if a > b then 1 else 0)"

end
