(* ===== verification/Go_Float.thy ===== *)
theory Go_Float
  imports Go_Values "HOL-Library.Log_Nat"
begin

text \<open>
  Go's \<^verbatim>\<open>float64\<close> on bit patterns. A finite number is an integer times a power of two, so arithmetic is
  exact rational arithmetic followed by one rounding to the nearest representable number (ties to
  even), as IEEE 754 prescribes. Conversion of a number that the integer type cannot hold is left open
  by the language; the model has the result of the amd64 instruction, the smallest integer.
\<close>

section \<open>Decoding\<close>

definition f64_neg :: "64 word \<Rightarrow> bool" where
  "f64_neg x = bit x 63"

definition f64_exp :: "64 word \<Rightarrow> int" where
  "f64_exp x = uint (drop_bit 52 x AND 0x7FF)"

definition f64_frac :: "64 word \<Rightarrow> int" where
  "f64_frac x = uint (x AND 0xFFFFFFFFFFFFF)"

definition f64_finite :: "64 word \<Rightarrow> bool" where
  "f64_finite x \<longleftrightarrow> f64_exp x \<noteq> 0x7FF"

text \<open>The magnitude is \<open>f64_man x * 2 ^ f64_pow x / 2 ^ 1074\<close>.\<close>

definition f64_man :: "64 word \<Rightarrow> int" where
  "f64_man x = (if f64_exp x = 0 then f64_frac x else 2 ^ 52 + f64_frac x)"

definition f64_pow :: "64 word \<Rightarrow> nat" where
  "f64_pow x = nat (f64_exp x - 1)"

text \<open>Truncation towards zero.\<close>

definition f64_trunc :: "64 word \<Rightarrow> int" where
  "f64_trunc x = (let n = f64_man x * 2 ^ f64_pow x div 2 ^ 1074 in if f64_neg x then - n else n)"

definition f64_to_i64 :: "64 word \<Rightarrow> 64 word" where
  "f64_to_i64 x =
     (if f64_finite x \<and> - (2 ^ 63) \<le> f64_trunc x \<and> f64_trunc x < 2 ^ 63 then word_of_int (f64_trunc x)
      else 0x8000000000000000)"

definition f64_to_u64 :: "64 word \<Rightarrow> 64 word" where
  "f64_to_u64 x =
     (if f64_finite x \<and> - (2 ^ 63) \<le> f64_trunc x \<and> f64_trunc x < 2 ^ 64 then word_of_int (f64_trunc x)
      else 0x8000000000000000)"

section \<open>Rounding\<close>

text \<open>
  The non-negative rational \<open>n / d\<close> rounded to a bit pattern. With \<open>k\<close> chosen such that the quotient by
  \<open>2 ^ k\<close> has 53 bits (or \<open>k\<close> the smallest exponent), the pattern is the biased exponent plus the
  quotient, and a quotient that rounds up to \<open>2 ^ 53\<close> carries into the exponent by itself.
\<close>

definition round_half_even :: "int \<Rightarrow> int \<Rightarrow> int" where
  "round_half_even n d =
     (let q = n div d; r = n mod d in
      if 2 * r < d \<or> 2 * r = d \<and> even q then q else q + 1)"

definition f64_round_nonneg :: "int \<Rightarrow> int \<Rightarrow> int" where
  "f64_round_nonneg n d =
     (let m = n * 2 ^ 1074 div d;
          k = nat (bitlen m - 53);
          q = round_half_even (n * 2 ^ 1074) (d * 2 ^ k);
          p = (if k = 0 then q else int k * 2 ^ 52 + q)
      in min p (0x7FF * 2 ^ 52))"

definition f64_of_rat :: "bool \<Rightarrow> int \<Rightarrow> int \<Rightarrow> 64 word" where
  "f64_of_rat neg n d = word_of_int (f64_round_nonneg n d + (if neg then 2 ^ 63 else 0))"

text \<open>Integers, and the widening of a \<^verbatim>\<open>float32\<close>.\<close>

definition f64_of_int :: "int \<Rightarrow> 64 word" where
  "f64_of_int i = f64_of_rat (i < 0) \<bar>i\<bar> 1"

definition f64_of_f32 :: "32 word \<Rightarrow> 64 word" where
  "f64_of_f32 x =
     (let e = uint (drop_bit 23 x AND 0xFF); f = uint (x AND 0x7FFFFF); neg = bit x 31 in
      if e = 0xFF then word_of_int (0x7FF * 2 ^ 52 + f * 2 ^ 29 + (if neg then 2 ^ 63 else 0))
      else if e = 0 then f64_of_rat neg f (2 ^ 149)
      else f64_of_rat neg ((2 ^ 23 + f) * 2 ^ nat (e - 1)) (2 ^ 149))"

text \<open>The order of the numbers is that of their bit patterns read as sign and magnitude; a NaN is not ordered.\<close>

definition f64_key :: "64 word \<Rightarrow> int" where
  "f64_key x = (let m = uint (x AND 0x7FFFFFFFFFFFFFFF) in if f64_neg x then - m else m)"

definition f64_less :: "64 word \<Rightarrow> 64 word \<Rightarrow> bool" where
  "f64_less x y \<longleftrightarrow> \<not> f64_nan x \<and> \<not> f64_nan y \<and> f64_key x < f64_key y"

lemma sign_magnitude_eq:
  "0 \<le> a \<Longrightarrow> 0 \<le> b \<Longrightarrow> (a = b \<and> p = q \<or> a = 0 \<and> b = 0) \<longleftrightarrow> (if p then - a else a) = (if q then - b else b)" for a b :: int
  by (cases p; cases q) auto

lemma f64_split: "x = y \<longleftrightarrow> uint (take_bit 63 x) = uint (take_bit 63 y) \<and> bit x 63 = bit y 63" for x y :: "64 word"
proof -
  have "x = y" if a: "take_bit 63 x = take_bit 63 y \<and> bit x 63 = bit y 63"
  proof (rule bit_word_eqI)
    fix n assume "n < LENGTH(64)"
    then have "n < 63 \<or> n = 63" by auto
    then show "bit x n = bit y n" using a by (metis bit_take_bit_iff)
  qed
  then show ?thesis unfolding word_uint_eq_iff [of "take_bit 63 x", symmetric] by auto
qed

lemma f64_eq_key: "f64_eq x y \<longleftrightarrow> \<not> f64_nan x \<and> \<not> f64_nan y \<and> f64_key x = f64_key y"
proof -
  have m: "(0x7FFFFFFFFFFFFFFF :: 64 word) = mask 63" by (simp add: mask_eq_exp_minus_1)
  have z: "take_bit 63 x = 0 \<longleftrightarrow> uint (take_bit 63 x) = 0" for x :: "64 word" by (simp add: word_uint_eq_iff)
  show ?thesis
    unfolding f64_eq_def f64_key_def Let_def f64_neg_def m take_bit_eq_mask [symmetric] z f64_split [of x y]
      sign_magnitude_eq [OF uint_ge_0 uint_ge_0, symmetric] by (rule refl)
qed

text \<open>
  The narrowing to a \<^verbatim>\<open>float32\<close>, as \<open>f64_round_nonneg\<close> with 24 bits and the smallest exponent of that type. A NaN
  keeps its upper bits and becomes quiet.
\<close>

definition f32_round_nonneg :: "int \<Rightarrow> int \<Rightarrow> int" where
  "f32_round_nonneg n d =
     (let m = n * 2 ^ 149 div d;
          k = nat (bitlen m - 24);
          q = round_half_even (n * 2 ^ 149) (d * 2 ^ k);
          p = (if k = 0 then q else int k * 2 ^ 23 + q)
      in min p (0xFF * 2 ^ 23))"

definition f32_of_f64 :: "64 word \<Rightarrow> 32 word" where
  "f32_of_f64 x =
     (let sign = (if f64_neg x then 2 ^ 31 else 0) in
      if f64_nan x then word_of_int (sign + 0x7FC00000 + (f64_frac x div 2 ^ 29) mod 2 ^ 22)
      else if \<not> f64_finite x then word_of_int (sign + 0x7F800000)
      else word_of_int (sign + f32_round_nonneg (f64_man x * 2 ^ f64_pow x) (2 ^ 1074)))"

section \<open>Arithmetic\<close>

text \<open>
  Addition and division: NaN operands are returned quiet, the result of an invalid operation is the NaN of the amd64
  instructions, and otherwise the exact result is rounded once. A sum that is exactly zero is the negative zero only
  for two negative zeros.
\<close>

definition f64_quiet :: "64 word \<Rightarrow> 64 word" where
  "f64_quiet x = x OR 0x8000000000000"

definition f64_indefinite :: "64 word" where
  "f64_indefinite = 0xFFF8000000000000"

text \<open>The number times \<open>2 ^ 1074\<close>.\<close>

definition f64_scaled :: "64 word \<Rightarrow> int" where
  "f64_scaled x = (let n = f64_man x * 2 ^ f64_pow x in if f64_neg x then - n else n)"

definition f64_add :: "64 word \<Rightarrow> 64 word \<Rightarrow> 64 word" where
  "f64_add x y =
     (if f64_nan x then f64_quiet x else if f64_nan y then f64_quiet y
      else if \<not> f64_finite x then
        if \<not> f64_finite y \<and> f64_neg x \<noteq> f64_neg y then f64_indefinite else x
      else if \<not> f64_finite y then y
      else
        let s = f64_scaled x + f64_scaled y in
        if s = 0 then if f64_neg x \<and> f64_neg y then 0x8000000000000000 else 0
        else f64_of_rat (s < 0) \<bar>s\<bar> (2 ^ 1074))"

definition f64_div :: "64 word \<Rightarrow> 64 word \<Rightarrow> 64 word" where
  "f64_div x y =
     (let neg = (f64_neg x \<noteq> f64_neg y); zero = (\<lambda>z. f64_scaled z = 0);
          signed = (\<lambda>b. b OR (if neg then 0x8000000000000000 else 0)) in
      if f64_nan x then f64_quiet x else if f64_nan y then f64_quiet y
      else if \<not> f64_finite x then if \<not> f64_finite y then f64_indefinite else signed 0x7FF0000000000000
      else if \<not> f64_finite y then signed 0
      else if zero y then if zero x then f64_indefinite else signed 0x7FF0000000000000
      else f64_of_rat neg \<bar>f64_scaled x\<bar> \<bar>f64_scaled y\<bar>)"

end
