(* ===== verification/Go_Strings.thy ===== *)
theory Go_Strings
  imports Go_Prelude
begin

text \<open>
  The functions of Go's \<^verbatim>\<open>strings\<close> and \<^verbatim>\<open>strconv\<close> packages that the components use.
\<close>

section \<open>Splitting, joining and trimming\<close>

text \<open>\<^verbatim>\<open>strings.Split(s, sep)\<close> for a separator of one byte: always at least one field.\<close>

fun Split :: "char \<Rightarrow> string \<Rightarrow> string list" where
  "Split c [] = [[]]"
| "Split c (x # xs) =
     (if x = c then [] # Split c xs
      else (case Split c xs of [] \<Rightarrow> [[x]] | f # fs \<Rightarrow> (x # f) # fs))"

definition TrimRight :: "string \<Rightarrow> string" where
  "TrimRight s = rev (dropWhile (\<lambda>x. x = CHR '' '') (rev s))"

lemma Split_ne_Nil [simp]: "Split c s \<noteq> []"
  by (cases s) (auto split: list.splits)

lemma Split_no_sep: "c \<notin> set s \<Longrightarrow> Split c s = [s]"
  by (induction s) auto

lemma Split_append: "c \<notin> set s \<Longrightarrow> Split c (s @ c # t) = s # Split c t"
  by (induction s) auto

lemma Split_Join:
  "fs \<noteq> [] \<Longrightarrow> list_all (\<lambda>f. c \<notin> set f) fs \<Longrightarrow> Split c (Join fs [c]) = fs"
proof (induction fs)
  case (Cons f fs)
  then show ?case by (cases fs) (auto simp: Split_no_sep Split_append)
qed simp

lemma TrimRight_idem [simp]: "TrimRight (TrimRight s) = TrimRight s"
  by (simp add: TrimRight_def)

lemma set_TrimRight: "set (TrimRight s) \<subseteq> set s"
  by (auto simp: TrimRight_def dest: set_dropWhileD)

section \<open>Numbers\<close>

definition is_digit :: "char \<Rightarrow> bool" where
  "is_digit c \<longleftrightarrow> 48 \<le> (of_char c :: nat) \<and> (of_char c :: nat) \<le> 57"

definition digit_val :: "char \<Rightarrow> int" where
  "digit_val c = int (of_char c) - 48"

fun digits_to_int :: "int \<Rightarrow> string \<Rightarrow> int" where
  "digits_to_int acc [] = acc"
| "digits_to_int acc (c # cs) = digits_to_int (acc * 10 + digit_val c) cs"

text \<open>
  \<^verbatim>\<open>strconv.ParseInt(s, 10, bitSize)\<close>: an optional sign and at least one digit, and a value that a signed
  integer of \<open>bitSize\<close> bits holds.
\<close>

definition ParseInt :: "string \<Rightarrow> nat \<Rightarrow> sql_error + int" where
  "ParseInt s bitSize =
     (let neg = (s \<noteq> [] \<and> hd s = CHR ''-'');
          t = (if s \<noteq> [] \<and> (hd s = CHR ''-'' \<or> hd s = CHR ''+'') then tl s else s) in
      if t = [] \<or> \<not> list_all is_digit t then Inl (ErrGeneric ''strconv.ParseInt: invalid syntax'')
      else
        let n = digits_to_int 0 t; v = (if neg then - n else n) in
        if v < - (2 ^ (bitSize - 1)) \<or> v \<ge> 2 ^ (bitSize - 1)
        then Inl (ErrGeneric ''strconv.ParseInt: value out of range'')
        else Inr v)"

lemma ParseInt_range: "ParseInt s b = Inr v \<Longrightarrow> - (2 ^ (b - 1)) \<le> v \<and> v < 2 ^ (b - 1)"
  by (auto simp: ParseInt_def Let_def split: if_splits)

text \<open>The decimal digits of a number, as \<^verbatim>\<open>strconv.Itoa\<close> and the format \<^verbatim>\<open>%v\<close> write them.\<close>

fun digits_of :: "nat \<Rightarrow> string" where
  "digits_of n = (if n < 10 then [char_of (48 + n)] else digits_of (n div 10) @ [char_of (48 + n mod 10)])"

declare digits_of.simps [simp del]

definition Itoa :: "int \<Rightarrow> string" where
  "Itoa i = (if i < 0 then CHR ''-'' # digits_of (nat (- i)) else digits_of (nat i))"

lemma digit_char:
  "d < 10 \<Longrightarrow> is_digit (char_of (48 + d))" "d < 10 \<Longrightarrow> digit_val (char_of (48 + d)) = int d"
  by (simp_all add: is_digit_def digit_val_def)

lemma digits_of_ne [simp]: "digits_of n \<noteq> []"
  by (subst digits_of.simps) simp

lemma digits_of_digits: "list_all is_digit (digits_of n)"
proof (induction n rule: digits_of.induct)
  case (1 n)
  then show ?case by (subst digits_of.simps) (auto simp: digit_char)
qed

lemma digits_to_int_snoc: "digits_to_int a (s @ [c]) = digits_to_int a s * 10 + digit_val c"
  by (induction s arbitrary: a) auto

lemma digits_to_int_digits_of: "digits_to_int 0 (digits_of n) = int n"
proof (induction n rule: digits_of.induct)
  case (1 n)
  show ?case
  proof (cases "n < 10")
    case True
    then show ?thesis by (subst digits_of.simps) (simp add: digit_char)
  next
    case False
    with 1 have "digits_to_int 0 (digits_of n) = int (n div 10) * 10 + int (n mod 10)"
      by (subst digits_of.simps) (simp add: digits_to_int_snoc digit_char)
    moreover have "int (n div 10) * 10 + int (n mod 10) = int n" by presburger
    ultimately show ?thesis by simp
  qed
qed

lemma digits_of_no_sign: "hd (digits_of n) \<noteq> CHR ''-''" "hd (digits_of n) \<noteq> CHR ''+''"
proof -
  have "is_digit (hd (digits_of n))"
    using digits_of_digits [of n] by (cases "digits_of n") auto
  then show "hd (digits_of n) \<noteq> CHR ''-''" "hd (digits_of n) \<noteq> CHR ''+''" by (auto simp: is_digit_def)
qed

lemma ParseInt_Itoa:
  assumes "- (2 ^ (b - 1)) \<le> i" and "i < 2 ^ (b - 1)"
  shows "ParseInt (Itoa i) b = Inr i"
proof -
  have "list_all is_digit (digits_of n)" for n by (rule digits_of_digits)
  then show ?thesis using assms
    by (simp add: ParseInt_def Itoa_def Let_def digits_of_no_sign digits_to_int_digits_of)
qed

end
