(* ===== verification/Set_Type.thy ===== *)
theory Set_Type
  imports Go_Float Go_Strings Charset
begin

text \<open>
  \<^verbatim>\<open>sql/settype.go\<close>: the SET type. A value of the type is a set of members, stored as a bit field and
  shown as the members joined by commas.
\<close>

abbreviation ErrConvertingToSet :: sql_error where
  "ErrConvertingToSet \<equiv> ErrNew ''ErrConvertingToSet'' []"

abbreviation ErrDuplicateEntrySet :: "string \<Rightarrow> sql_error" where
  "ErrDuplicateEntrySet \<equiv> ErrNew ''ErrDuplicateEntrySet''"

abbreviation ErrInvalidSetValue :: "string \<Rightarrow> sql_error" where
  "ErrInvalidSetValue \<equiv> ErrNew ''ErrInvalidSetValue''"

abbreviation ErrTooLargeForSet :: sql_error where
  "ErrTooLargeForSet \<equiv> ErrNew ''ErrTooLargeForSet'' []"

record setType =
  set_collation :: Collation
  compareToOriginal :: "(string, string) gomap"
  valToBit :: "(string, 64 word) gomap"
  bitToVal :: "(64 word, string) gomap"

text \<open>\<^verbatim>\<open>uint64(1 << uint64(i))\<close>.\<close>

definition shl1 :: "nat \<Rightarrow> 64 word" where
  "shl1 i = push_bit i 1"

section \<open>Construction\<close>

text \<open>The member as it is stored, and the form in which members are compared.\<close>

definition stored_form :: "Collation \<Rightarrow> string \<Rightarrow> string" where
  "stored_form c v = (if c = Collation_binary then v else TrimRight v)"

definition compare_form :: "Collation \<Rightarrow> string \<Rightarrow> string" where
  "compare_form c v = (if c = Collation_binary then v else ToLower (TrimRight v))"

fun CreateSetType_loop :: "Collation \<Rightarrow> nat \<Rightarrow> string list \<Rightarrow> setType \<Rightarrow> sql_error + setType" where
  "CreateSetType_loop c i [] t = Inr t"
| "CreateSetType_loop c i (v # vs) t =
     (if CHR '','' \<in> set v then Inl (ErrGeneric ''values cannot contain a comma'')
      else if map_of (compareToOriginal t) (compare_form c v) \<noteq> None
      then Inl (ErrDuplicateEntrySet (stored_form c v))
      else
        let bt = shl1 i in
        CreateSetType_loop c (i + 1) vs
          (t\<lparr>compareToOriginal := AList.update (compare_form c v) (stored_form c v) (compareToOriginal t),
             valToBit := AList.update (stored_form c v) bt (valToBit t),
             bitToVal := AList.update bt (stored_form c v) (bitToVal t)\<rparr>))"

definition CreateSetType :: "string list \<Rightarrow> Collation \<Rightarrow> sql_error + setType" where
  "CreateSetType vals c =
     (if vals = [] then Inl (ErrGeneric ''number of values may not be zero'')
      else if length vals > 64 then Inl (ErrGeneric ''number of values is too large'')
      else CreateSetType_loop c 0 vals
        \<lparr>set_collation = c, compareToOriginal = [], valToBit = [], bitToVal = []\<rparr>)"

section \<open>Bit fields and strings\<close>

definition LeadingZeros64 :: "64 word \<Rightarrow> nat" where
  "LeadingZeros64 x = 64 - nat (bitlen (uint x))"

definition allValuesBitField :: "setType \<Rightarrow> 64 word" where
  "allValuesBitField t =
     (let valCount = length (valToBit t) in
      if valCount = 64 then 0xFFFFFFFFFFFFFFFF else shl1 valCount - 1)"

fun bitField_loop :: "setType \<Rightarrow> 64 word \<Rightarrow> nat list \<Rightarrow> bool \<Rightarrow> string \<Rightarrow> sql_error + string" where
  "bitField_loop t bitField [] writeCommas acc = Inr acc"
| "bitField_loop t bitField (i # is) writeCommas acc =
     (let bt = shl1 i in
      if bt AND bitField \<noteq> 0 then
        case map_of (bitToVal t) bt of
          None \<Rightarrow> Inl (ErrInvalidSetValue (Itoa (unat bitField)))
        | Some val \<Rightarrow> bitField_loop t bitField is True (acc @ (if writeCommas then '','' else []) @ val)
      else bitField_loop t bitField is writeCommas acc)"

definition convertBitFieldToString :: "setType \<Rightarrow> 64 word \<Rightarrow> sql_error + string" where
  "convertBitFieldToString t bitField =
     (let bitEdge = 64 - LeadingZeros64 bitField in
      if bitEdge > length (bitToVal t) then Inl ErrTooLargeForSet
      else bitField_loop t bitField [0..<bitEdge] False [])"

fun string_loop :: "setType \<Rightarrow> string list \<Rightarrow> 64 word \<Rightarrow> sql_error + 64 word" where
  "string_loop t [] bitField = Inr bitField"
| "string_loop t (val # vals) bitField =
     (case map_of (compareToOriginal t) (compare_form (set_collation t) val) of
        Some originalVal \<Rightarrow>
          string_loop t vals (bitField OR (case map_of (valToBit t) originalVal of Some b \<Rightarrow> b | None \<Rightarrow> 0))
      | None \<Rightarrow> Inl (ErrInvalidSetValue val))"

definition convertStringToBitField :: "setType \<Rightarrow> string \<Rightarrow> sql_error + 64 word" where
  "convertStringToBitField t str = (if str = [] then Inr 0 else string_loop t (Split CHR '','' str) 0)"

definition SetUnmarshal :: "setType \<Rightarrow> 64 word \<Rightarrow> sql_error + string" where
  "SetUnmarshal t v = convertBitFieldToString t v"

definition SetNumberOfElements :: "setType \<Rightarrow> 16 word" where
  "SetNumberOfElements t = word_of_nat (length (valToBit t))"

definition SetValues :: "setType \<Rightarrow> string list" where
  "SetValues t =
     (let bitEdge = 64 - LeadingZeros64 (allValuesBitField t) in
      map (\<lambda>i. case map_of (bitToVal t) (shl1 i) of Some v \<Rightarrow> v | None \<Rightarrow> []) [0..<bitEdge])"

section \<open>Conversion of values\<close>

text \<open>The \<^verbatim>\<open>uint64(value)\<close> conversions of the numeric cases; signed integers are sign-extended.\<close>

definition as_uint64 :: "val \<Rightarrow> 64 word option" where
  "as_uint64 v = (case v of
     VInt x \<Rightarrow> Some x | VUint x \<Rightarrow> Some x
   | VInt8 x \<Rightarrow> Some (scast x) | VUint8 x \<Rightarrow> Some (ucast x)
   | VInt16 x \<Rightarrow> Some (scast x) | VUint16 x \<Rightarrow> Some (ucast x)
   | VInt32 x \<Rightarrow> Some (scast x) | VUint32 x \<Rightarrow> Some (ucast x)
   | VInt64 x \<Rightarrow> Some x | VUint64 x \<Rightarrow> Some x
   | VFloat32 x \<Rightarrow> Some (f64_to_u64 (f64_of_f32 x)) | VFloat64 x \<Rightarrow> Some (f64_to_u64 x)
   | _ \<Rightarrow> None)"

definition SetMarshal :: "setType \<Rightarrow> val \<Rightarrow> sql_error + 64 word" where
  "SetMarshal t v = (case v of
     VString s \<Rightarrow> convertStringToBitField t s
   | VBytes s \<Rightarrow> convertStringToBitField t s
   | _ \<Rightarrow> (case as_uint64 v of
       Some x \<Rightarrow> if x \<le> allValuesBitField t then Inr x else Inl ErrConvertingToSet
     | None \<Rightarrow> Inl ErrConvertingToSet))"

definition SetCompare :: "setType \<Rightarrow> val \<Rightarrow> val \<Rightarrow> sql_error + int" where
  "SetCompare t a b =
     (if fst (compareNulls a b) then Inr (snd (compareNulls a b))
      else bindE (SetMarshal t a) (\<lambda>ai. bindE (SetMarshal t b) (\<lambda>bi. Inr (compare_by ai bi))))"

text \<open>\<^verbatim>\<open>setStr, _ := t.convertBitFieldToString(bitField)\<close> ignores the error, and the string is empty then.\<close>

definition SetConvert_string :: "setType \<Rightarrow> string \<Rightarrow> sql_error + val" where
  "SetConvert_string t s =
     bindE (convertStringToBitField t s) (\<lambda>bitField.
       Inr (VString (case convertBitFieldToString t bitField of Inr str \<Rightarrow> str | Inl _ \<Rightarrow> [])))"

definition SetConvert :: "setType \<Rightarrow> val \<Rightarrow> sql_error + val" where
  "SetConvert t v = (case v of
     VNil \<Rightarrow> Inr VNil
   | VString s \<Rightarrow> SetConvert_string t s
   | VBytes s \<Rightarrow> SetConvert_string t s
   | _ \<Rightarrow> (case as_uint64 v of
       Some x \<Rightarrow>
         if x \<le> allValuesBitField t then map_sum id VString (convertBitFieldToString t x)
         else Inl ErrConvertingToSet
     | None \<Rightarrow> Inl ErrConvertingToSet))"

section \<open>The representation invariant\<close>

text \<open>A type built from members \<open>ms\<close>: the three tables list the members in order, with their bits.\<close>

definition set_repr :: "Collation \<Rightarrow> string list \<Rightarrow> setType \<Rightarrow> bool" where
  "set_repr c ms t \<longleftrightarrow> set_collation t = c \<and> length ms \<le> 64 \<and>
     compareToOriginal t = map (\<lambda>m. (compare_form c m, m)) ms \<and>
     valToBit t = map (\<lambda>i. (ms ! i, shl1 i)) [0..<length ms] \<and>
     bitToVal t = map (\<lambda>i. (shl1 i, ms ! i)) [0..<length ms] \<and>
     distinct (map (compare_form c) ms) \<and>
     list_all (\<lambda>m. CHR '','' \<notin> set m \<and> stored_form c m = m) ms"

lemma AList_update_fresh: "k \<notin> fst ` set m \<Longrightarrow> AList.update k v m = m @ [(k, v)]"
  by (induction m) auto

lemma compare_stored_form: "compare_form c (stored_form c v) = compare_form c v"
  by (simp add: compare_form_def stored_form_def)

lemma bit_shl1 [simp]: "i < 64 \<Longrightarrow> bit (shl1 i) k \<longleftrightarrow> k = i"
  by (auto simp: shl1_def bit_push_bit_iff bit_1_iff simp del: push_bit_of_1)

lemma shl1_inj [simp]: "i < 64 \<Longrightarrow> j < 64 \<Longrightarrow> shl1 i = shl1 j \<longleftrightarrow> i = j"
  using bit_shl1 by metis

lemma set_repr_append:
  assumes "set_repr c ms t" and "length ms < 64" and "CHR '','' \<notin> set v"
    and "map_of (compareToOriginal t) (compare_form c v) = None"
  shows "set_repr c (ms @ [stored_form c v])
    (t\<lparr>compareToOriginal := AList.update (compare_form c v) (stored_form c v) (compareToOriginal t),
       valToBit := AList.update (stored_form c v) (shl1 (length ms)) (valToBit t),
       bitToVal := AList.update (shl1 (length ms)) (stored_form c v) (bitToVal t)\<rparr>)"
proof -
  note t = assms(1) [unfolded set_repr_def]
  have new: "compare_form c v \<notin> set (map (compare_form c) ms)"
    using assms(4) t by (auto simp: map_of_eq_None_iff image_image)
  then have "stored_form c v \<notin> set ms" using compare_stored_form by (metis imageI set_map)
  then have 1: "stored_form c v \<notin> fst ` set (valToBit t)" using t by (auto simp: in_set_conv_nth)
  have 2: "shl1 (length ms) \<notin> fst ` set (bitToVal t)"
    using t assms(2) by auto
  have "stored_form c (stored_form c v) = stored_form c v" "CHR '','' \<notin> set (stored_form c v)"
    using assms(3) set_TrimRight [of v] by (auto simp: stored_form_def)
  with t new assms(2) AList_update_fresh [OF 1] AList_update_fresh [OF 2] show ?thesis
    by (auto simp: set_repr_def AList_update_fresh compare_stored_form nth_append image_iff)
qed

lemma CreateSetType_loop_repr:
  "CreateSetType_loop c (length ms) vs t = Inr t' \<Longrightarrow> set_repr c ms t \<Longrightarrow> length ms + length vs \<le> 64 \<Longrightarrow>
   set_repr c (ms @ map (stored_form c) vs) t'"
proof (induction vs arbitrary: ms t)
  case (Cons v vs)
  from Cons.prems(1) have v: "CHR '','' \<notin> set v" "map_of (compareToOriginal t) (compare_form c v) = None"
    and rest: "CreateSetType_loop c (length (ms @ [stored_form c v])) vs
      (t\<lparr>compareToOriginal := AList.update (compare_form c v) (stored_form c v) (compareToOriginal t),
         valToBit := AList.update (stored_form c v) (shl1 (length ms)) (valToBit t),
         bitToVal := AList.update (shl1 (length ms)) (stored_form c v) (bitToVal t)\<rparr>) = Inr t'"
    by (auto simp: Let_def split: if_splits)
  from Cons.prems(3) have "length ms < 64" by simp
  from Cons.IH [OF rest set_repr_append [OF Cons.prems(2) this v]] Cons.prems(3) show ?case by simp
qed simp

lemma CreateSetType_repr:
  assumes "CreateSetType vs c = Inr t"
  shows "set_repr c (map (stored_form c) vs) t"
proof -
  have "set_repr c [] \<lparr>set_collation = c, compareToOriginal = [], valToBit = [], bitToVal = []\<rparr>"
    by (simp add: set_repr_def)
  from CreateSetType_loop_repr [OF _ this, of vs t] assms show ?thesis
    by (auto simp: CreateSetType_def split: if_splits)
qed

section \<open>Reading and writing bit fields\<close>

text \<open>The members a bit field selects, in the order of their bits.\<close>

definition selected :: "nat \<Rightarrow> 64 word \<Rightarrow> nat list" where
  "selected n b = filter (bit b) [0..<n]"

lemma shl1_and: "i < 64 \<Longrightarrow> shl1 i AND b \<noteq> 0 \<longleftrightarrow> bit b i"
  by (auto simp: bit_eq_iff [where 'a = "64 word"] bit_and_iff)

lemma map_of_bits:
  "set_repr c ms t \<Longrightarrow> i < length ms \<Longrightarrow> map_of (bitToVal t) (shl1 i) = Some (ms ! i)"
proof -
  assume t: "set_repr c ms t" and i: "i < length ms"
  then have "map_ok (bitToVal t)"
    by (auto simp: set_repr_def map_ok_def distinct_map inj_on_def o_def)
  moreover have "(shl1 i, ms ! i) \<in> set (bitToVal t)" using t i by (auto simp: set_repr_def)
  ultimately show ?thesis by (simp add: map_of_eq_Some_iff_in)
qed

lemma bitField_loop_eq:
  "set_repr c ms t \<Longrightarrow> list_all (\<lambda>i. i < length ms) is \<Longrightarrow>
   bitField_loop t b is w acc =
     Inr (acc @ (if w \<and> filter (bit b) is \<noteq> [] then '','' else []) @
          Join (map ((!) ms) (filter (bit b) is)) '','')"
proof (induction "is" arbitrary: w acc)
  case (Cons i "is")
  then have i: "i < length ms" "i < 64" by (auto simp: set_repr_def)
  show ?case
  proof (cases "bit b i")
    case True
    with Cons i have "bitField_loop t b (i # is) w acc =
      bitField_loop t b is True (acc @ (if w then '','' else []) @ ms ! i)"
      by (simp add: Let_def shl1_and map_of_bits)
    with Cons True show ?thesis by (cases "filter (bit b) is") auto
  next
    case False
    with Cons i show ?thesis by (simp add: Let_def shl1_and)
  qed
qed simp

lemma bit_imp_le_uint: "bit b i \<Longrightarrow> 2 ^ i \<le> uint b" for b :: "64 word"
proof (rule ccontr)
  assume "bit b i" and "\<not> 2 ^ i \<le> uint b"
  then have "take_bit i (uint b) = uint b" by (intro take_bit_int_eq_self) auto
  with \<open>bit b i\<close> show False by (metis bit_take_bit_iff bit_uint_iff less_irrefl bit_imp_le_length)
qed

text \<open>\<^verbatim>\<open>bitEdge\<close> is the number of bits up to the highest one that is set.\<close>

lemma bitEdge_le_iff: "64 - LeadingZeros64 b \<le> n \<longleftrightarrow> uint b < 2 ^ n"
proof -
  have "uint b < 2 ^ 64" using uint_lt2p [of b] by simp
  then have "bitlen (uint b) \<le> 64" by (simp add: bitlen_le_iff_power)
  then have "64 - LeadingZeros64 b = nat (bitlen (uint b))"
    by (simp add: LeadingZeros64_def)
  moreover have "nat (bitlen (uint b)) \<le> n \<longleftrightarrow> bitlen (uint b) \<le> int n" by linarith
  ultimately show ?thesis by (simp add: bitlen_le_iff_power)
qed

lemma filter_bits_edge:
  assumes "64 - LeadingZeros64 b \<le> n"
  shows "filter (bit b) [0..<64 - LeadingZeros64 b] = selected n b"
proof -
  let ?e = "64 - LeadingZeros64 b"
  have "\<not> bit b i" if "?e \<le> i" for i
    using that bit_imp_le_uint [of b i] by (auto simp: bitEdge_le_iff)
  then have "filter (bit b) [?e..<n] = []" by (auto simp: filter_empty_conv)
  moreover have "[0..<n] = [0..<?e] @ [?e..<n]" 
    using assms upt_add_eq_append [of 0 ?e "n - ?e"] by simp
  ultimately show ?thesis by (simp add: selected_def)
qed

lemma convertBitFieldToString_eq:
  assumes "set_repr c ms t"
  shows "convertBitFieldToString t b =
    (if uint b < 2 ^ length ms then Inr (Join (map ((!) ms) (selected (length ms) b)) '','')
     else Inl ErrTooLargeForSet)"
proof -
  have len: "length (bitToVal t) = length ms" using assms by (simp add: set_repr_def)
  show ?thesis
  proof (cases "64 - LeadingZeros64 b \<le> length ms")
    case True
    then have "list_all (\<lambda>i. i < length ms) [0..<64 - LeadingZeros64 b]" by (auto simp: list_all_iff)
    from bitField_loop_eq [OF assms this] True bitEdge_le_iff [of b "length ms"] show ?thesis
      by (simp add: convertBitFieldToString_def Let_def len filter_bits_edge del: upt_conv_Cons)
  next
    case False
    with bitEdge_le_iff [of b "length ms"] show ?thesis
      by (simp add: convertBitFieldToString_def Let_def len)
  qed
qed

lemma word_le_pred_iff:
  fixes x y :: "64 word"
  assumes "0 < x"
  shows "y \<le> x - 1 \<longleftrightarrow> y < x"
proof -
  have "1 \<le> x" using assms by (simp add: word_less_nat_alt word_le_nat_alt)
  then have "unat (x - 1) = unat x - 1" by (simp add: unat_sub)
  with assms show ?thesis by (auto simp: word_less_nat_alt word_le_nat_alt)
qed

lemma allValues_iff: "set_repr c ms t \<Longrightarrow> b \<le> allValuesBitField t \<longleftrightarrow> uint b < 2 ^ length ms"
proof -
  assume t: "set_repr c ms t"
  then have len: "length (valToBit t) = length ms" "length ms \<le> 64" by (auto simp: set_repr_def)
  show ?thesis
  proof (cases "length ms = 64")
    case True
    have max: "(0xFFFFFFFFFFFFFFFF :: 64 word) = - 1" by simp
    have "b \<le> 0xFFFFFFFFFFFFFFFF" unfolding max by (rule word_order.extremum)
    moreover have "uint b < 2 ^ 64" using uint_lt2p [of b] by simp
    ultimately show ?thesis using len True by (simp add: allValuesBitField_def)
  next
    case False
    with len have "length ms < 64" by simp
    then have "bit (shl1 (length ms)) (length ms)" by simp
    then have "0 < shl1 (length ms)" unfolding word_gt_0 by auto
    moreover have "b < shl1 (length ms) \<longleftrightarrow> uint b < 2 ^ length ms"
      using \<open>length ms < 64\<close> by (simp add: shl1_def word_2p_lem wsst_TYs)
    ultimately show ?thesis using len False
      by (simp add: allValuesBitField_def Let_def word_le_pred_iff)
  qed
qed

text \<open>Parsing the members of a list of indices sets exactly their bits.\<close>

lemma map_of_members:
  assumes t: "set_repr c ms t" and i: "i < length ms"
  shows "map_of (compareToOriginal t) (compare_form c (ms ! i)) = Some (ms ! i)"
    and "map_of (valToBit t) (ms ! i) = Some (shl1 i)"
proof -
  have "map_ok (compareToOriginal t)" using t by (simp add: set_repr_def map_ok_def o_def)
  moreover have "(compare_form c (ms ! i), ms ! i) \<in> set (compareToOriginal t)"
    using t i by (auto simp: set_repr_def)
  ultimately show "map_of (compareToOriginal t) (compare_form c (ms ! i)) = Some (ms ! i)"
    by (simp add: map_of_eq_Some_iff_in)
  have "distinct ms" using t by (auto simp: set_repr_def distinct_map)
  then have "map_ok (valToBit t)"
    using t by (simp add: set_repr_def map_ok_def o_def map_nth)
  moreover have "(ms ! i, shl1 i) \<in> set (valToBit t)" using t i by (auto simp: set_repr_def)
  ultimately show "map_of (valToBit t) (ms ! i) = Some (shl1 i)" by (simp add: map_of_eq_Some_iff_in)
qed

lemma string_loop_members:
  "set_repr c ms t \<Longrightarrow> list_all (\<lambda>i. i < length ms) is \<Longrightarrow>
   string_loop t (map ((!) ms) is) a = Inr (fold (\<lambda>i a. a OR shl1 i) is a)"
proof (induction "is" arbitrary: a)
  case (Cons i "is")
  then have "set_collation t = c" by (simp add: set_repr_def)
  with Cons show ?case by (simp add: map_of_members)
qed simp

lemma bit_fold_shl1:
  "list_all (\<lambda>i. i < 64) is \<Longrightarrow> bit (fold (\<lambda>i a. a OR shl1 i) is a) k \<longleftrightarrow> bit a k \<or> k \<in> set is"
  by (induction "is" arbitrary: a) (auto simp: bit_or_iff)

lemma fold_selected:
  assumes "uint b < 2 ^ n" and "n \<le> 64"
  shows "fold (\<lambda>i a. a OR shl1 i) (selected n b) 0 = b"
proof (rule bit_word_eqI)
  fix k
  have "bit b k \<Longrightarrow> k < n"
    using bit_imp_le_uint [of b k] assms(1)
    by (metis linorder_not_le order_le_less_trans power_strict_increasing_iff one_less_numeral_iff
        semiring_norm(76))
  moreover have "list_all (\<lambda>i. i < 64) (selected n b)"
    using assms(2) by (auto simp: selected_def list_all_iff)
  ultimately show "bit (fold (\<lambda>i a. a OR shl1 i) (selected n b) 0) k = bit b k"
    by (auto simp: bit_fold_shl1 selected_def)
qed

lemma Join_eq_Nil: "Join fs sep = [] \<Longrightarrow> [] \<notin> set fs \<Longrightarrow> fs = []"
  by (induction fs sep rule: Join.induct) auto

lemma string_of_bits_back:
  assumes t: "set_repr c ms t" and "uint b < 2 ^ length ms" and "[] \<notin> set ms"
  shows "convertStringToBitField t (Join (map ((!) ms) (selected (length ms) b)) '','') = Inr b"
proof (cases "selected (length ms) b")
  case Nil
  then show ?thesis
    using fold_selected [OF assms(2)] t by (simp add: convertStringToBitField_def set_repr_def)
next
  case (Cons i "is")
  let ?fs = "map ((!) ms) (selected (length ms) b)"
  have sel: "list_all (\<lambda>i. i < length ms) (selected (length ms) b)"
    by (auto simp: selected_def list_all_iff)
  then have mem: "set ?fs \<subseteq> set ms" by (auto simp: list_all_iff)
  with assms(3) have "[] \<notin> set ?fs" by blast
  with Cons have ne: "Join ?fs '','' \<noteq> []" using Join_eq_Nil by fastforce
  have "list_all (\<lambda>f. CHR '','' \<notin> set f) ?fs" using mem t by (auto simp: list_all_iff set_repr_def)
  with Cons have "Split CHR '','' (Join ?fs '','') = ?fs" by (intro Split_Join) auto
  with ne string_loop_members [OF t sel] fold_selected [OF assms(2)] t show ?thesis
    by (simp add: convertStringToBitField_def set_repr_def)
qed

lemma uint_less_iff_bits: "uint b < 2 ^ n \<longleftrightarrow> (\<forall>k\<ge>n. \<not> bit b k)" for b :: "64 word"
proof
  assume b: "uint b < 2 ^ n"
  show "\<forall>k\<ge>n. \<not> bit b k"
  proof (intro allI impI notI)
    fix k assume "n \<le> k" "bit b k"
    then have "(2 :: int) ^ n \<le> 2 ^ k" "2 ^ k \<le> uint b" by (auto simp: bit_imp_le_uint)
    with b show False by linarith
  qed
next
  assume "\<forall>k\<ge>n. \<not> bit b k"
  then have "bit (b AND mask n) k = bit b k" for k
    by (metis bit_and_iff bit_mask_iff bit_imp_possible_bit not_less)
  then have "b AND mask n = b" by (simp add: bit_eq_iff)
  then show "uint b < 2 ^ n" by (simp add: mask_eq_iff)
qed

lemma string_loop_range:
  assumes t: "set_repr c ms t"
  shows "string_loop t vals a = Inr b \<Longrightarrow> uint a < 2 ^ length ms \<Longrightarrow> uint b < 2 ^ length ms"
proof (induction vals arbitrary: a)
  case (Cons v vals)
  from Cons.prems(1) obtain orig where orig: "map_of (compareToOriginal t) (compare_form (set_collation t) v) = Some orig"
    by (auto split: option.splits)
  from map_of_SomeD [OF this] t have "orig \<in> set ms" by (auto simp: set_repr_def)
  then obtain i where i: "i < length ms" "orig = ms ! i" by (auto simp: in_set_conv_nth)
  from i(1) t have "i < 64" by (simp add: set_repr_def)
  with i(1) Cons.prems(2) have "uint (a OR shl1 i) < 2 ^ length ms"
    by (auto simp: uint_less_iff_bits bit_or_iff)
  with Cons.IH Cons.prems(1) orig i map_of_members [OF t i(1)] show ?case by simp
qed simp

section \<open>Properties\<close>

text \<open>C23. For every SET type the constructor accepts without an empty member, bit fields and strings are in
  bijection: a bit field in range unmarshals to the comma-separated members of its bits, and marshalling
  that string gives the bit field back; a bit field out of range is rejected both ways.\<close>

theorem set_marshal_roundtrip:
  assumes "CreateSetType vs c = Inr t" and "[] \<notin> set (map (stored_form c) vs)"
  shows "(if b \<le> allValuesBitField t
     then \<exists>s. SetUnmarshal t b = Inr s \<and> SetMarshal t (VString s) = Inr b \<and> SetMarshal t (VUint64 b) = Inr b
     else (\<exists>e. SetUnmarshal t b = Inl e) \<and> (\<exists>e. SetMarshal t (VUint64 b) = Inl e))"
proof -
  note t = CreateSetType_repr [OF assms(1)]
  show ?thesis
    unfolding SetUnmarshal_def SetMarshal_def as_uint64_def convertBitFieldToString_eq [OF t]
      allValues_iff [OF t] val.case option.case
    using string_of_bits_back [OF t _ assms(2), of b] by simp
qed

theorem set_marshal_roundtrip_witness:
  "\<exists>t. CreateSetType [''a'', ''B ''] ''utf8mb4_0900_ai_ci'' = Inr t \<and>
     (\<exists>s. SetUnmarshal t 3 = Inr s \<and> SetMarshal t (VString s) = Inr 3)"
proof -
  define t where "t = \<lparr>set_collation = ''utf8mb4_0900_ai_ci'',
    compareToOriginal = [(''a'', ''a''), (''b'', ''B'')], valToBit = [(''a'', 1), (''B'', 2)],
    bitToVal = [(1, ''a''), (2, ''B'')]\<rparr>"
  have t: "CreateSetType [''a'', ''B ''] ''utf8mb4_0900_ai_ci'' = Inr t"
    unfolding t_def by code_simp
  moreover have "[] \<notin> set (map (stored_form ''utf8mb4_0900_ai_ci'') [''a'', ''B ''])" by code_simp
  moreover have "3 \<le> allValuesBitField t" unfolding t_def by (simp add: allValuesBitField_def shl1_def)
  ultimately show ?thesis 
    using set_marshal_roundtrip [of "[''a'', ''B '']" "''utf8mb4_0900_ai_ci''" t 3] by auto
qed

text \<open>C24. Converting a string to a SET type yields a canonical form: the conversion of the result is the result,
  and it denotes the same set of members. This is the law that stored rows compare equal to what was
  inserted.\<close>

theorem SetConvert_idempotent:
  assumes "CreateSetType vs c = Inr t" and "[] \<notin> set (map (stored_form c) vs)"
    and "SetConvert t (VString s) = Inr v"
  shows "SetConvert t v = Inr v \<and> SetMarshal t v = SetMarshal t (VString s)"
proof -
  let ?ms = "map (stored_form c) vs"
  note t = CreateSetType_repr [OF assms(1)]
  from assms(3) obtain b where b: "convertStringToBitField t s = Inr b"
    "v = VString (case convertBitFieldToString t b of Inr str \<Rightarrow> str | Inl _ \<Rightarrow> [])"
    by (auto simp: SetConvert_def SetConvert_string_def bindE_eq_Inr_iff)
  then have "uint b < 2 ^ length ?ms"
    using string_loop_range [OF t] by (auto simp: convertStringToBitField_def split: if_splits)
  with b(2) string_of_bits_back [OF t _ assms(2)] convertBitFieldToString_eq [OF t, of b]
  have "\<exists>str. v = VString str \<and> convertStringToBitField t str = Inr b \<and> convertBitFieldToString t b = Inr str"
    by auto
  with b(1) show ?thesis by (auto simp: SetConvert_def SetConvert_string_def SetMarshal_def)
qed

theorem SetConvert_idempotent_witness:
  "\<exists>t. CreateSetType [''a'', ''B''] ''binary'' = Inr t \<and>
     SetConvert t (VString ''B,a,B'') = Inr (VString ''a,B'') \<and>
     SetConvert t (VString ''a,B'') = Inr (VString ''a,B'')"
proof -
  define t where "t = \<lparr>set_collation = ''binary'', compareToOriginal = [(''a'', ''a''), (''B'', ''B'')],
    valToBit = [(''a'', 1), (''B'', 2)], bitToVal = [(1, ''a''), (2, ''B'')]\<rparr>"
  have t: "CreateSetType [''a'', ''B''] ''binary'' = Inr t" unfolding t_def by code_simp
  have "[] \<notin> set (map (stored_form ''binary'') [''a'', ''B''])" by code_simp
  moreover have "SetConvert t (VString ''B,a,B'') = Inr (VString ''a,B'')"
    unfolding t_def by code_simp
  ultimately show ?thesis
    using t SetConvert_idempotent [OF t, of "''B,a,B''" "VString ''a,B''"] by blast
qed

text \<open>The condition on empty members is needed: with an empty member the string of its bit field is the
  empty string, which marshals to the empty set.\<close>

lemma set_empty_member_lost:
  assumes "CreateSetType ([] # vs) c = Inr t"
  shows "SetUnmarshal t 1 = Inr [] \<and> SetMarshal t (VString []) = Inr 0"
proof -
  note t = CreateSetType_repr [OF assms]
  have "selected (length ([] # vs)) 1 = [0]"
    by (simp add: selected_def upt_conv_Cons filter_empty_conv bit_1_iff del: upt_Suc)
  moreover have "stored_form c [] = []" by (simp add: stored_form_def TrimRight_def)
  moreover have "(1 :: int) < 2 * 2 ^ length vs"
    using one_le_power [of "2 :: int" "length vs"] by linarith
  ultimately show ?thesis
    unfolding SetUnmarshal_def convertBitFieldToString_eq [OF t]
    by (simp add: SetMarshal_def convertStringToBitField_def)
qed

end
