(* ===== verification/Memory_Manager.thy ===== *)
theory Memory_Manager
  imports Go_Values
begin

text \<open>
  \<^verbatim>\<open>sql/memory.go\<close> and \<^verbatim>\<open>sql/cache.go\<close>: the caches that iterators keep rows and hashes in, and the manager
  that knows all caches in use and frees them when memory runs low.

  Caches are shared between the manager and the iterators, so they live in a heap and are named by
  their address. The LRU cache is a package outside the repository: its type is the type variable
  \<open>'l\<close>, and \<open>lru_new\<close>, \<open>lru_add\<close> and \<open>lru_get\<close> are its functions. The memory in use is read from the
  runtime; \<open>used k\<close> is the value of the \<open>k\<close>-th reading.
\<close>

section \<open>Caches\<close>

text \<open>The contents of a cache; \<^const>\<open>None\<close> is the nil of a cache that was disposed.\<close>

datatype ('l, 'v, 'r) Disposable =
    LRUCache "'l option"
  | HistoryCache "(u64, 'v) gomap option"
  | RowsCache "'r list option"

record ('l, 'v, 'r) MemoryManager =
  cache_heap :: "('l, 'v, 'r) Disposable list"
  caches :: "(u64, nat) gomap"
  token :: u64
  readings :: nat

record Reporter =
  MaxMemory :: u64
  UsedMemory :: "nat \<Rightarrow> u64"

definition NewMemoryManager :: "('l, 'v, 'r) MemoryManager" where
  "NewMemoryManager = \<lparr>cache_heap = [], caches = [], token = 0, readings = 0\<rparr>"

text \<open>\<^verbatim>\<open>HasAvailableMemory\<close> reads the memory in use only if there is a limit.\<close>

definition HasAvailableMemory ::
    "Reporter \<Rightarrow> ('l, 'v, 'r) MemoryManager \<Rightarrow> bool \<times> ('l, 'v, 'r) MemoryManager" where
  "HasAvailableMemory rep m =
     (if MaxMemory rep = 0 then (True, m)
      else (UsedMemory rep (readings m) < MaxMemory rep, m\<lparr>readings := readings m + 1\<rparr>))"

fun releaseMemoryIfNeeded ::
    "Reporter \<Rightarrow> (('l, 'v, 'r) MemoryManager \<Rightarrow> ('l, 'v, 'r) MemoryManager) list
      \<Rightarrow> ('l, 'v, 'r) MemoryManager \<Rightarrow> bool \<times> ('l, 'v, 'r) MemoryManager" where
  "releaseMemoryIfNeeded rep [] m = HasAvailableMemory rep m"
| "releaseMemoryIfNeeded rep (s # ss) m =
     (let (b, m') = HasAvailableMemory rep m in
      if b then (True, m') else releaseMemoryIfNeeded rep ss (s m'))"

section \<open>The manager\<close>

definition addCache :: "nat \<Rightarrow> ('l, 'v, 'r) MemoryManager \<Rightarrow> u64 \<times> ('l, 'v, 'r) MemoryManager" where
  "addCache a m =
     (let t = token m + 1 in (t, m\<lparr>token := t, caches := AList.update t a (caches m)\<rparr>))"

definition removeCache :: "u64 \<Rightarrow> ('l, 'v, 'r) MemoryManager \<Rightarrow> ('l, 'v, 'r) MemoryManager" where
  "removeCache pos m =
     (let cs = AList.delete pos (caches m) in
      m\<lparr>caches := cs, token := (if cs = [] then 0 else token m)\<rparr>)"

text \<open>Only the LRU cache has a \<^verbatim>\<open>Free\<close> method; a cache that was disposed has lost its table, and \<^verbatim>\<open>Free\<close> makes a
  new one.\<close>

definition Free_one :: "'l \<Rightarrow> ('l, 'v, 'r) Disposable \<Rightarrow> ('l, 'v, 'r) Disposable" where
  "Free_one lru_new c = (case c of LRUCache _ \<Rightarrow> LRUCache (Some lru_new) | _ \<Rightarrow> c)"

definition Free :: "'l \<Rightarrow> ('l, 'v, 'r) MemoryManager \<Rightarrow> ('l, 'v, 'r) MemoryManager" where
  "Free lru_new m =
     m\<lparr>cache_heap := fold (\<lambda>(pos, a) h. h[a := Free_one lru_new (h ! a)]) (caches m) (cache_heap m)\<rparr>"

definition Dispose_one :: "('l, 'v, 'r) Disposable \<Rightarrow> ('l, 'v, 'r) Disposable" where
  "Dispose_one c = (case c of LRUCache _ \<Rightarrow> LRUCache None | HistoryCache _ \<Rightarrow> HistoryCache None
     | RowsCache _ \<Rightarrow> RowsCache None)"

text \<open>A new cache: its address, and the position that its dispose function captures.\<close>

definition new_cache ::
    "('l, 'v, 'r) Disposable \<Rightarrow> ('l, 'v, 'r) MemoryManager \<Rightarrow> (nat \<times> u64) \<times> ('l, 'v, 'r) MemoryManager" where
  "new_cache c m =
     (let a = length (cache_heap m);
          (pos, m') = addCache a (m\<lparr>cache_heap := cache_heap m @ [c]\<rparr>) in ((a, pos), m'))"

definition NewLRUCache :: "'l \<Rightarrow> ('l, 'v, 'r) MemoryManager \<Rightarrow> (nat \<times> u64) \<times> ('l, 'v, 'r) MemoryManager" where
  "NewLRUCache lru_new m = new_cache (LRUCache (Some lru_new)) m"

definition NewHistoryCache :: "('l, 'v, 'r) MemoryManager \<Rightarrow> (nat \<times> u64) \<times> ('l, 'v, 'r) MemoryManager" where
  "NewHistoryCache m = new_cache (HistoryCache (Some [])) m"

definition NewRowsCache :: "('l, 'v, 'r) MemoryManager \<Rightarrow> (nat \<times> u64) \<times> ('l, 'v, 'r) MemoryManager" where
  "NewRowsCache m = new_cache (RowsCache (Some [])) m"

definition DisposeFunc :: "nat \<times> u64 \<Rightarrow> ('l, 'v, 'r) MemoryManager \<Rightarrow> ('l, 'v, 'r) MemoryManager" where
  "DisposeFunc c m =
     removeCache (snd c) (m\<lparr>cache_heap := (cache_heap m)[fst c := Dispose_one (cache_heap m ! fst c)]\<rparr>)"

section \<open>Using a cache\<close>

text \<open>The error of using a cache of nil fields.\<close>

definition nil_deref :: sql_error where
  "nil_deref = Panic ''invalid memory address or nil pointer dereference''"

definition history_Get :: "nat \<Rightarrow> u64 \<Rightarrow> ('l, 'v, 'r) MemoryManager \<Rightarrow> sql_error + 'v" where
  "history_Get a k m = (case cache_heap m ! a of
     HistoryCache (Some c) \<Rightarrow> (case map_of c k of Some v \<Rightarrow> Inr v | None \<Rightarrow> Inl (ErrKeyNotFound k))
   | HistoryCache None \<Rightarrow> Inl (ErrKeyNotFound k)
   | _ \<Rightarrow> Inl nil_deref)"

definition history_Put :: "'l \<Rightarrow> Reporter \<Rightarrow> nat \<Rightarrow> u64 \<Rightarrow> 'v \<Rightarrow> ('l, 'v, 'r) MemoryManager
    \<Rightarrow> (sql_error + unit) \<times> ('l, 'v, 'r) MemoryManager" where
  "history_Put lru_new rep a k v m = (case cache_heap m ! a of
     HistoryCache (Some c) \<Rightarrow>
       (let (b, m') = releaseMemoryIfNeeded rep [Free lru_new] m in
        if \<not> b then (Inl ErrNoMemoryAvailable, m')
        else (Inr (), m'\<lparr>cache_heap := (cache_heap m')[a := HistoryCache (Some (AList.update k v c))]\<rparr>))
   | _ \<Rightarrow> (Inl nil_deref, m))"

definition rows_Add :: "'l \<Rightarrow> Reporter \<Rightarrow> nat \<Rightarrow> 'r \<Rightarrow> ('l, 'v, 'r) MemoryManager
    \<Rightarrow> (sql_error + unit) \<times> ('l, 'v, 'r) MemoryManager" where
  "rows_Add lru_new rep a r m = (case cache_heap m ! a of
     RowsCache (Some rs) \<Rightarrow>
       (let (b, m') = releaseMemoryIfNeeded rep [Free lru_new] m in
        if \<not> b then (Inl ErrNoMemoryAvailable, m')
        else (Inr (), m'\<lparr>cache_heap := (cache_heap m')[a := RowsCache (Some (rs @ [r]))]\<rparr>))
   | _ \<Rightarrow> (Inl nil_deref, m))"

definition rows_Get :: "nat \<Rightarrow> ('l, 'v, 'r) MemoryManager \<Rightarrow> 'r list" where
  "rows_Get a m = (case cache_heap m ! a of RowsCache (Some rs) \<Rightarrow> rs | _ \<Rightarrow> [])"

text \<open>An LRU cache frees itself first and then all others, and drops the entry if that did not help.\<close>

definition lru_Free :: "'l \<Rightarrow> nat \<Rightarrow> ('l, 'v, 'r) MemoryManager \<Rightarrow> ('l, 'v, 'r) MemoryManager" where
  "lru_Free lru_new a m = m\<lparr>cache_heap := (cache_heap m)[a := LRUCache (Some lru_new)]\<rparr>"

definition lru_Put :: "'l \<Rightarrow> ('l \<Rightarrow> u64 \<Rightarrow> 'v \<Rightarrow> 'l) \<Rightarrow> Reporter \<Rightarrow> nat \<Rightarrow> u64 \<Rightarrow> 'v \<Rightarrow> ('l, 'v, 'r) MemoryManager
    \<Rightarrow> (sql_error + unit) \<times> ('l, 'v, 'r) MemoryManager" where
  "lru_Put lru_new lru_add rep a k v m = (case cache_heap m ! a of
     LRUCache (Some _) \<Rightarrow>
       (let (b, m') = releaseMemoryIfNeeded rep [lru_Free lru_new a, Free lru_new] m in
        (Inr (), if b then
           (case cache_heap m' ! a of
              LRUCache (Some l) \<Rightarrow> m'\<lparr>cache_heap := (cache_heap m')[a := LRUCache (Some (lru_add l k v))]\<rparr>
            | _ \<Rightarrow> m')
         else m'))
   | _ \<Rightarrow> (Inl nil_deref, m))"

definition lru_Get :: "('l \<Rightarrow> u64 \<Rightarrow> 'v option) \<Rightarrow> nat \<Rightarrow> u64 \<Rightarrow> ('l, 'v, 'r) MemoryManager \<Rightarrow> sql_error + 'v" where
  "lru_Get lru_get a k m = (case cache_heap m ! a of
     LRUCache (Some l) \<Rightarrow> (case lru_get l k of Some v \<Rightarrow> Inr v | None \<Rightarrow> Inl (ErrKeyNotFound k))
   | _ \<Rightarrow> Inl nil_deref)"

section \<open>Invariant\<close>

text \<open>Every registered cache exists and has a position between one and the last position given out, and
  counting starts again when no cache is left.\<close>

definition mem_ok :: "('l, 'v, 'r) MemoryManager \<Rightarrow> bool" where
  "mem_ok m \<longleftrightarrow> map_ok (caches m) \<and> (caches m = [] \<longrightarrow> token m = 0) \<and>
     (\<forall>c \<in> set (caches m). 0 < fst c \<and> fst c \<le> token m \<and> snd c < length (cache_heap m))"

lemma set_update_subset: "set (AList.update k v m) \<subseteq> insert (k, v) (set m)"
  by (induction m) auto

lemma set_delete_subset: "set (AList.delete k m) \<subseteq> set m"
  by (auto simp: AList.delete_eq)

lemma AList_update_ne_Nil [simp]: "AList.update k v m \<noteq> []"
  by (cases m) auto

lemma mem_ok_New [simp, inv_intros]: "mem_ok NewMemoryManager"
  by (simp add: mem_ok_def NewMemoryManager_def)

lemma token_succ: "t \<noteq> - 1 \<Longrightarrow> t < t + 1" for t :: u64
  by (meson inc_less_eq_triv_imp verit_comp_simplify1(3))

lemma addCache_fresh:
  assumes "mem_ok m" and "token m \<noteq> - 1" and "a < length (cache_heap m)" and "addCache a m = (pos, m')"
  shows "pos \<notin> set (keys (caches m)) \<and> map_of (caches m') pos = Some a \<and> mem_ok m'"
proof -
  have m': "pos = token m + 1" "m' = m\<lparr>token := pos, caches := AList.update pos a (caches m)\<rparr>"
    using assms(4) by (auto simp: addCache_def Let_def)
  have lt: "token m < pos" using token_succ [OF assms(2)] m' by simp
  then have "pos \<notin> set (keys (caches m))" using assms(1) by (auto simp: mem_ok_def)
  moreover have "mem_ok m'"
    using assms(1,3) lt set_update_subset [of pos a "caches m"]
    by (fastforce simp: mem_ok_def m'(2) word_gt_0)
  ultimately show ?thesis by (simp add: m'(2) map_of_update)
qed

lemma mem_ok_new_cache [inv_intros]:
  "mem_ok m \<Longrightarrow> token m \<noteq> - 1 \<Longrightarrow> mem_ok (snd (new_cache c m))"
  using addCache_fresh [of "m\<lparr>cache_heap := cache_heap m @ [c]\<rparr>" "length (cache_heap m)"]
  by (fastforce simp: new_cache_def Let_def mem_ok_def [of m] mem_ok_def [of "m\<lparr>cache_heap := _\<rparr>"]
      split: prod.splits)

lemma mem_ok_removeCache [inv_intros]: "mem_ok m \<Longrightarrow> mem_ok (removeCache pos m)"
  using set_delete_subset [of pos "caches m"]
  by (fastforce simp: mem_ok_def removeCache_def Let_def)

lemma mem_ok_heap: "mem_ok m \<Longrightarrow> length h = length (cache_heap m) \<Longrightarrow> mem_ok (m\<lparr>cache_heap := h\<rparr>)"
  by (simp add: mem_ok_def)

lemma mem_ok_DisposeFunc [inv_intros]: "mem_ok m \<Longrightarrow> mem_ok (DisposeFunc c m)"
  unfolding DisposeFunc_def by (intro mem_ok_removeCache mem_ok_heap) simp_all

lemma length_Free_fold [simp]: "length (fold (\<lambda>(pos, b) h. h[b := f (h ! b)]) cs h) = length h"
  by (induction cs arbitrary: h) auto

lemma length_Free [simp]: "length (cache_heap (Free l m)) = length (cache_heap m)"
  by (simp add: Free_def)

lemma mem_ok_Free [inv_intros]: "mem_ok m \<Longrightarrow> mem_ok (Free l m)"
  unfolding Free_def by (rule mem_ok_heap) simp_all

text \<open>A cache that \<^verbatim>\<open>Free_one\<close> leaves alone is left alone by \<^verbatim>\<open>Free\<close>, and so is one that is not registered.\<close>

lemma Free_fold_nth:
  "f (h ! a) = h ! a \<or> a \<notin> snd ` set cs \<Longrightarrow> fold (\<lambda>(pos, b) h. h[b := f (h ! b)]) cs h ! a = h ! a"
proof (induction cs arbitrary: h)
  case (Cons c cs)
  obtain pos b where c: "c = (pos, b)" by (cases c)
  have "h[b := f (h ! b)] ! a = h ! a"
    using Cons.prems c by (cases "a = b"; cases "a < length h") auto
  with Cons c show ?case by auto
qed simp

lemma Free_nth:
  "Free_one l (cache_heap m ! a) = cache_heap m ! a \<or> a \<notin> snd ` set (caches m) \<Longrightarrow>
   cache_heap (Free l m) ! a = cache_heap m ! a"
  by (simp add: Free_def Free_fold_nth)

lemma releaseMemory_heap:
  assumes "releaseMemoryIfNeeded rep [Free l] m = (b, m')"
  shows "length (cache_heap m') = length (cache_heap m) \<and> caches m' = caches m \<and> token m' = token m \<and>
    (Free_one l (cache_heap m ! a) = cache_heap m ! a \<longrightarrow> cache_heap m' ! a = cache_heap m ! a)"
  using assms Free_nth [of l m a] Free_nth [of l "m\<lparr>readings := readings m + 1\<rparr>" a]
  by (auto simp: HasAvailableMemory_def Let_def Free_def split: if_splits)

section \<open>The contract of a cache of keys\<close>

text \<open>What an iterator relies on that remembers keys: a key is found exactly if it was put, and a put that
  fails changes nothing that is stored.\<close>

locale kv_cache =
  fixes get :: "'c \<Rightarrow> u64 \<Rightarrow> sql_error + 'v"
    and put :: "'c \<Rightarrow> u64 \<Rightarrow> (sql_error + unit) \<times> 'c"
    and stored :: "'c \<Rightarrow> u64 set"
    and usable :: "'c \<Rightarrow> bool"
  assumes get_stored: "usable c \<Longrightarrow> (\<exists>v. get c k = Inr v) \<longleftrightarrow> k \<in> stored c"
    and put_stored: "usable c \<Longrightarrow> put c k = (res, c') \<Longrightarrow>
      usable c' \<and> stored c' = (case res of Inr _ \<Rightarrow> insert k (stored c) | Inl _ \<Rightarrow> stored c)"

definition is_history :: "nat \<Rightarrow> ('l, 'v, 'r) MemoryManager \<Rightarrow> bool" where
  "is_history a m \<longleftrightarrow> a < length (cache_heap m) \<and> (\<exists>c. cache_heap m ! a = HistoryCache (Some c))"

definition history_keys :: "nat \<Rightarrow> ('l, 'v, 'r) MemoryManager \<Rightarrow> u64 set" where
  "history_keys a m = {k. \<exists>v. history_Get a k m = Inr v}"

interpretation history: kv_cache "\<lambda>m k. history_Get a k m" "\<lambda>m k. history_Put l rep a k v m"
    "history_keys a" "is_history a" for a l rep v
proof
  fix c :: "('a, 'b, 'c) MemoryManager" and k
  show "(\<exists>w. history_Get a k c = Inr w) \<longleftrightarrow> k \<in> history_keys a c" by (simp add: history_keys_def)
next
  fix m :: "('a, 'b, 'c) MemoryManager" and k res m'
  assume m: "is_history a m" and put: "history_Put l rep a k v m = (res, m')"
  then obtain c where c: "cache_heap m ! a = HistoryCache (Some c)" "a < length (cache_heap m)"
    by (auto simp: is_history_def)
  obtain b m1 where m1: "releaseMemoryIfNeeded rep [Free l] m = (b, m1)" by fastforce
  from releaseMemory_heap [OF m1, of a] c
  have m1': "cache_heap m1 ! a = HistoryCache (Some c)" "a < length (cache_heap m1)"
    by (auto simp: Free_one_def)
  show "is_history a m' \<and> history_keys a m' =
      (case res of Inl _ \<Rightarrow> history_keys a m | Inr _ \<Rightarrow> insert k (history_keys a m))"
    using put c m1 m1'
    by (auto simp: history_Put_def is_history_def history_keys_def history_Get_def map_of_update
        split: if_splits option.splits)
qed

section \<open>Properties\<close>

text \<open>C25. The positions of the memory manager identify caches: as long as the 64-bit counter has not run out, a
  new cache gets a position that no registered cache has, and registering, disposing and freeing keep the
  manager consistent.\<close>

theorem cache_positions_unique:
  assumes "mem_ok m" and "token m \<noteq> - 1" and "new_cache c m = ((a, pos), m')"
  shows "pos \<notin> set (keys (caches m)) \<and> map_of (caches m') pos = Some a \<and> cache_heap m' ! a = c \<and>
    mem_ok m' \<and> mem_ok (Free l m') \<and> mem_ok (DisposeFunc d m')"
proof -
  let ?m = "m\<lparr>cache_heap := cache_heap m @ [c]\<rparr>"
  have m: "mem_ok ?m" "token ?m \<noteq> - 1" using assms(1,2) by (auto simp: mem_ok_def)
  from assms(3) have a: "a = length (cache_heap m)" and add: "addCache a ?m = (pos, m')"
    by (auto simp: new_cache_def Let_def split: prod.splits)
  have "cache_heap m' ! a = c" using add a by (auto simp: addCache_def Let_def)
  with addCache_fresh [OF m _ add] a show ?thesis by (auto intro: inv_intros)
qed

theorem cache_positions_unique_witness:
  "let ((a, pos), m) = NewHistoryCache (NewMemoryManager :: (nat, nat, nat) MemoryManager)
   in pos = 1 \<and> map_of (caches m) pos = Some a \<and> mem_ok m"
proof -
  let ?m = "\<lparr>cache_heap = [HistoryCache (Some [])], caches = [(1, 0)], token = 1, readings = 0\<rparr>"
  have new: "new_cache (HistoryCache (Some [])) (NewMemoryManager :: (nat, nat, nat) MemoryManager) = ((0, 1), ?m)"
    by (simp add: new_cache_def NewMemoryManager_def addCache_def Let_def)
  moreover have "token (NewMemoryManager :: (nat, nat, nat) MemoryManager) \<noteq> - 1"
    by (simp add: NewMemoryManager_def)
  ultimately show ?thesis
    using cache_positions_unique [OF mem_ok_New _ new] by (simp add: NewHistoryCache_def)
qed

text \<open>Freeing memory never loses rows or remembered keys: adding a row either appends it to its cache or
  fails without changing the cache, and in both cases all other caches but LRU caches stay as they are.
  Without a memory limit it never fails.\<close>

lemma rows_Add_appends:
  assumes "cache_heap m ! a = RowsCache (Some rs)" and "a < length (cache_heap m)"
    and "rows_Add l rep a r m = (res, m')"
  shows "rows_Get a m' = (case res of Inr _ \<Rightarrow> rs @ [r] | Inl _ \<Rightarrow> rs) \<and>
    (res = Inr () \<or> res = Inl ErrNoMemoryAvailable) \<and> (MaxMemory rep = 0 \<longrightarrow> res = Inr ()) \<and>
    (b \<noteq> a \<longrightarrow> (\<forall>x. cache_heap m ! b \<noteq> LRUCache x) \<longrightarrow> cache_heap m' ! b = cache_heap m ! b)"
proof -
  obtain av m1 where m1: "releaseMemoryIfNeeded rep [Free l] m = (av, m1)" by fastforce
  from releaseMemory_heap [OF m1, of a] assms(1,2)
  have a: "cache_heap m1 ! a = RowsCache (Some rs)" "a < length (cache_heap m1)"
    by (auto simp: Free_one_def)
  have b: "(\<forall>x. cache_heap m ! b \<noteq> LRUCache x) \<longrightarrow> cache_heap m1 ! b = cache_heap m ! b"
    using releaseMemory_heap [OF m1, of b] by (auto simp: Free_one_def split: Disposable.splits)
  have "MaxMemory rep = 0 \<longrightarrow> av" using m1 by (auto simp: HasAvailableMemory_def)
  with assms a b m1 show ?thesis
    by (auto simp: rows_Add_def rows_Get_def nth_list_update split: if_splits)
qed

text \<open>A cache of rows that is in use, and memory that is never short: there is no limit, or it is not reached.\<close>

definition is_rows :: "nat \<Rightarrow> ('l, 'v, 'r) MemoryManager \<Rightarrow> bool" where
  "is_rows a m \<longleftrightarrow> a < length (cache_heap m) \<and> (\<exists>rs. cache_heap m ! a = RowsCache (Some rs))"

definition ample :: "Reporter \<Rightarrow> bool" where
  "ample rep \<longleftrightarrow> MaxMemory rep = 0 \<or> (\<forall>k. UsedMemory rep k < MaxMemory rep)"

lemma rows_Add_ample:
  assumes "ample rep" and "is_rows a m"
  shows "\<exists>m'. rows_Add l rep a r m = (Inr (), m') \<and> is_rows a m' \<and> rows_Get a m' = rows_Get a m @ [r]"
proof -
  from assms(2) obtain rs where rs: "cache_heap m ! a = RowsCache (Some rs)" "a < length (cache_heap m)"
    by (auto simp: is_rows_def)
  obtain m1 where m1: "HasAvailableMemory rep m = (True, m1)" "cache_heap m1 = cache_heap m"
    using assms(1) by (cases "MaxMemory rep = 0") (auto simp: ample_def HasAvailableMemory_def)
  with rs show ?thesis by (auto simp: rows_Add_def rows_Get_def is_rows_def)
qed

text \<open>A dispose function that is called a second time, as an iterator does that disposes its cache both at
  the end of the rows and when it is closed, can unregister the cache of another query: when the first
  call emptied the manager, positions start again at one. The manager no longer frees that cache.\<close>

lemma double_dispose_unregisters_other:
  assumes "mem_ok m" and "caches m = []"
    and "NewHistoryCache m = (c1, m1)" and "m2 = DisposeFunc c1 m1" and "NewLRUCache l m2 = (c2, m3)"
  shows "map_of (caches m3) (snd c2) = Some (fst c2) \<and> snd c1 = snd c2 \<and> fst c1 \<noteq> fst c2 \<and>
    caches (DisposeFunc c1 m3) = [] \<and>
    cache_heap (Free l' (DisposeFunc c1 m3)) ! fst c2 = LRUCache (Some l)"
proof -
  have t: "token m = 0" using assms(1,2) by (simp add: mem_ok_def)
  let ?h = "cache_heap m @ [HistoryCache None]"
  have c1: "c1 = (length (cache_heap m), 1)" and m2: "m2 = m\<lparr>cache_heap := ?h\<rparr>"
    using assms(2-4) t
    by (auto simp: NewHistoryCache_def new_cache_def addCache_def DisposeFunc_def removeCache_def
        Dispose_one_def Let_def)
  then have c2: "c2 = (Suc (length (cache_heap m)), 1)"
    and m3: "m3 = m\<lparr>cache_heap := ?h @ [LRUCache (Some l)], caches := [(1, Suc (length (cache_heap m)))], token := 1\<rparr>"
    using assms(2,5) t by (auto simp: NewLRUCache_def new_cache_def addCache_def Let_def)
  have "cache_heap (DisposeFunc c1 m3) ! fst c2 = LRUCache (Some l)" "caches (DisposeFunc c1 m3) = []"
    by (simp_all add: c1 c2 m3 DisposeFunc_def removeCache_def Dispose_one_def Let_def nth_append)
  with Free_nth [of l' "DisposeFunc c1 m3" "fst c2"] show ?thesis by (simp add: c1 c2 m3)
qed

end
