(* ===== verification/Row_Iter.thy ===== *)
theory Row_Iter
  imports Go_Values
begin

text \<open>
  The interface \<^verbatim>\<open>sql.RowIter\<close> (\<^verbatim>\<open>sql/row.go\<close>): what a call of \<^verbatim>\<open>Next\<close> returns, the contract that an iterator
  keeps, and the functions of \<^verbatim>\<open>sql/row.go\<close> that use it.

  An iterator is a state with a function \<open>nxt\<close> that returns the new state and a result, or \<^const>\<open>None\<close> when the
  call never returns. The contract \<open>row_iter\<close> says that the iterator will deliver the rows of
  \<open>contents s\<close> and then the end of the rows, or an error.
\<close>

datatype 'r nextres = NRow 'r | NEOF | NErr sql_error

type_synonym ('s, 'r) nextfun = "'s \<Rightarrow> ('s \<times> 'r nextres) option"

text \<open>What is still to come: rows, and the error after them if they do not end regularly.\<close>

type_synonym 'r todo = "'r list \<times> sql_error option"

text \<open>
  Every state satisfying \<open>good\<close> keeps the contract. The end of the rows is reported again and again;
  nothing is promised after an error.
\<close>

locale row_iter =
  fixes nxt :: "('s, 'r) nextfun"
    and contents :: "'s \<Rightarrow> 'r todo"
    and good :: "'s \<Rightarrow> bool"
  assumes nxt_row: "good s \<Longrightarrow> contents s = (r # rs, e) \<Longrightarrow>
      \<exists>s'. nxt s = Some (s', NRow r) \<and> good s' \<and> contents s' = (rs, e)"
    and nxt_eof: "good s \<Longrightarrow> contents s = ([], None) \<Longrightarrow>
      \<exists>s'. nxt s = Some (s', NEOF) \<and> good s' \<and> contents s' = ([], None)"
    and nxt_err: "good s \<Longrightarrow> contents s = ([], Some err) \<Longrightarrow> \<exists>s'. nxt s = Some (s', NErr err)"

text \<open>One more row in front.\<close>

definition cons_row :: "'r \<Rightarrow> 'r todo \<Rightarrow> 'r todo" where
  "cons_row r t = (r # fst t, snd t)"

lemma cons_row_simps [simp]: "cons_row r (rs, e) = (r # rs, e)" "fst (cons_row r t) = r # fst t"
  "snd (cons_row r t) = snd t"
  by (simp_all add: cons_row_def)

text \<open>The same contract read from the result of one call, the form in which it is proved.\<close>

definition keeps :: "('s, 'r) nextfun \<Rightarrow> ('s \<Rightarrow> 'r todo) \<Rightarrow> ('s \<Rightarrow> bool) \<Rightarrow> 's \<Rightarrow> bool" where
  "keeps nxt contents good s = (case nxt s of
     None \<Rightarrow> False
   | Some (s', NRow r) \<Rightarrow> good s' \<and> contents s = cons_row r (contents s')
   | Some (s', NEOF) \<Rightarrow> good s' \<and> contents s = ([], None) \<and> contents s' = ([], None)
   | Some (s', NErr e) \<Rightarrow> contents s = ([], Some e))"

lemma row_iterI:
  assumes "\<And>s. good s \<Longrightarrow> keeps nxt contents good s"
  shows "row_iter nxt contents good"
proof
  fix s r rs e
  assume "good s" and "contents s = (r # rs, e)"
  with assms [of s] show "\<exists>s'. nxt s = Some (s', NRow r) \<and> good s' \<and> contents s' = (rs, e)"
    by (auto simp: keeps_def cons_row_def split: option.splits nextres.splits)
next
  fix s assume "good s" and "contents s = ([], None)"
  with assms [of s] show "\<exists>s'. nxt s = Some (s', NEOF) \<and> good s' \<and> contents s' = ([], None)"
    by (auto simp: keeps_def cons_row_def split: option.splits nextres.splits)
next
  fix s err assume "good s" and "contents s = ([], Some err)"
  with assms [of s] show "\<exists>s'. nxt s = Some (s', NErr err)"
    by (auto simp: keeps_def cons_row_def split: option.splits nextres.splits)
qed

lemma keeps_eq: "nxt s = nxt s' \<Longrightarrow> contents s = contents s' \<Longrightarrow> keeps nxt contents good s' \<Longrightarrow> keeps nxt contents good s"
  by (auto simp: keeps_def split: option.splits nextres.splits)

section \<open>Reading an iterator to its end\<close>

text \<open>\<^verbatim>\<open>RowIterToRows\<close>; \<open>cls\<close> is the iterator's \<^verbatim>\<open>Close\<close>, with its error if it fails.\<close>

definition close_result :: "sql_error option \<Rightarrow> 'r list \<Rightarrow> sql_error + 'r list" where
  "close_result c rows = (case c of None \<Rightarrow> Inr rows | Some e \<Rightarrow> Inl e)"

partial_function (option) RowIterToRows_loop ::
    "('s, 'r) nextfun \<Rightarrow> ('s \<Rightarrow> sql_error option) \<Rightarrow> 's \<Rightarrow> 'r list \<Rightarrow> (sql_error + 'r list) option" where
  "RowIterToRows_loop nxt cls s rows =
     (case nxt s of
        None \<Rightarrow> None
      | Some (s', NEOF) \<Rightarrow> Some (close_result (cls s') rows)
      | Some (s', NErr e) \<Rightarrow> Some (Inl e)
      | Some (s', NRow r) \<Rightarrow> RowIterToRows_loop nxt cls s' (rows @ [r]))"

declare RowIterToRows_loop.simps [code]

definition RowIterToRows ::
    "('s, 'r) nextfun \<Rightarrow> ('s \<Rightarrow> sql_error option) \<Rightarrow> 's \<Rightarrow> (sql_error + 'r list) option" where
  "RowIterToRows nxt cls s = RowIterToRows_loop nxt cls s []"

text \<open>What reading to the end returns, if closing does not fail.\<close>

definition todo_result :: "'r todo \<Rightarrow> sql_error + 'r list" where
  "todo_result t = (case snd t of Some e \<Rightarrow> Inl e | None \<Rightarrow> Inr (fst t))"

lemma todo_result_simps [simp]: "todo_result (rs, None) = Inr rs" "todo_result (rs, Some e) = Inl e"
  by (simp_all add: todo_result_def)

text \<open>Reading at most \<open>n\<close> rows, for callers that stop early and for iterators that never end.\<close>

fun read_n :: "('s, 'r) nextfun \<Rightarrow> nat \<Rightarrow> 's \<Rightarrow> 'r list" where
  "read_n nxt 0 s = []"
| "read_n nxt (Suc n) s = (case nxt s of Some (s', NRow r) \<Rightarrow> r # read_n nxt n s' | _ \<Rightarrow> [])"

context row_iter
begin

lemma RowIterToRows_loop_contents:
  "good s \<Longrightarrow> contents s = (rs, e) \<Longrightarrow>
   (case e of
      Some err \<Rightarrow> RowIterToRows_loop nxt cls s acc = Some (Inl err)
    | None \<Rightarrow> \<exists>s'. RowIterToRows_loop nxt cls s acc = Some (close_result (cls s') (acc @ rs)))"
proof (induction rs arbitrary: s acc)
  case Nil
  show ?case
  proof (cases e)
    case None
    with Nil nxt_eof [of s] obtain s' where "nxt s = Some (s', NEOF)" by auto
    then have "RowIterToRows_loop nxt cls s acc = Some (close_result (cls s') acc)"
      by (subst RowIterToRows_loop.simps) simp
    with None show ?thesis by auto
  next
    case (Some err)
    with Nil nxt_err [of s] obtain s' where "nxt s = Some (s', NErr err)" by auto
    with Some show ?thesis by (subst RowIterToRows_loop.simps) simp
  qed
next
  case (Cons r rs)
  from nxt_row [OF Cons.prems] obtain s' where
    s': "nxt s = Some (s', NRow r)" "good s'" "contents s' = (rs, e)" by blast
  then have "RowIterToRows_loop nxt cls s acc = RowIterToRows_loop nxt cls s' (acc @ [r])"
    by (subst RowIterToRows_loop.simps) simp
  with Cons.IH [OF s'(2,3), of "acc @ [r]"] show ?case by (cases e) simp_all
qed

lemma RowIterToRows_contents:
  assumes "good s" and "\<And>s. cls s = None"
  shows "RowIterToRows nxt cls s = Some (todo_result (contents s))"
  using RowIterToRows_loop_contents [OF assms(1) surjective_pairing, of cls "[]"] assms(2)
  by (auto simp: RowIterToRows_def close_result_def todo_result_def split: option.splits)

lemma nxt_returns: "good s \<Longrightarrow> nxt s \<noteq> None"
proof (cases "contents s")
  case (Pair rs e)
  assume "good s"
  with Pair nxt_row [of s "hd rs" "tl rs" e] nxt_eof [of s] nxt_err [of s "the e"] show ?thesis
    by (cases rs; cases e) auto
qed

lemma read_n_contents: "good s \<Longrightarrow> read_n nxt n s = take n (fst (contents s))"
proof (induction n arbitrary: s)
  case (Suc n)
  obtain rs e where c: "contents s = (rs, e)" by fastforce
  show ?case
  proof (cases rs)
    case Nil
    with c nxt_eof [OF Suc.prems] nxt_err [OF Suc.prems, of "the e"] show ?thesis by (cases e) auto
  next
    case (Cons r rs')
    with c nxt_row [OF Suc.prems] Suc.IH show ?thesis by fastforce
  qed
qed simp

text \<open>What a call does, by cases of the contents: the form in which the iterators built on top use it.\<close>

lemma nxt_cases:
  assumes "good s"
  obtains (Row) r rs e s' where "contents s = (r # rs, e)" "nxt s = Some (s', NRow r)" "good s'"
      "contents s' = (rs, e)"
    | (EOF) s' where "contents s = ([], None)" "nxt s = Some (s', NEOF)" "good s'" "contents s' = ([], None)"
    | (Err) e s' where "contents s = ([], Some e)" "nxt s = Some (s', NErr e)"
proof (cases "contents s")
  case (Pair rs e)
  show ?thesis
  proof (cases rs)
    case Nil
    show ?thesis
    proof (cases e)
      case None
      with nxt_eof [OF assms] Pair Nil EOF show ?thesis by auto
    next
      case (Some err)
      with nxt_err [OF assms] Pair Nil Err show ?thesis by auto
    qed
  next
    case (Cons r rs')
    with nxt_row [OF assms] Pair Row show ?thesis by blast
  qed
qed

end

section \<open>An iterator over a slice of rows\<close>

record 'r sliceRowIter =
  rows :: "'r list"
  idx :: nat

definition RowsToRowIter :: "'r list \<Rightarrow> 'r sliceRowIter" where
  "RowsToRowIter rs = \<lparr>rows = rs, idx = 0\<rparr>"

definition sliceRowIter_Next :: "('r sliceRowIter, 'r) nextfun" where
  "sliceRowIter_Next i =
     Some (if idx i \<ge> length (rows i) then (i, NEOF)
           else (i\<lparr>idx := idx i + 1\<rparr>, NRow (rows i ! idx i)))"

definition sliceRowIter_Close :: "'r sliceRowIter \<Rightarrow> 'r sliceRowIter" where
  "sliceRowIter_Close i = i\<lparr>rows := []\<rparr>"

definition slice_contents :: "'r sliceRowIter \<Rightarrow> 'r todo" where
  "slice_contents i = (drop (idx i) (rows i), None)"

interpretation slice: row_iter sliceRowIter_Next slice_contents "\<lambda>_. True"
  by (rule row_iterI)
    (simp add: keeps_def cons_row_def sliceRowIter_Next_def slice_contents_def Cons_nth_drop_Suc)

section \<open>Rows\<close>

definition NewRow :: "'v list \<Rightarrow> 'v list" where
  "NewRow vs = vs"

definition Row_Copy :: "'v list \<Rightarrow> 'v list" where
  "Row_Copy r = NewRow r"

text \<open>\<^verbatim>\<open>Append\<close> fills a slice of the total length index by index.\<close>

definition Row_Append :: "'v list \<Rightarrow> 'v list \<Rightarrow> 'v list" where
  "Row_Append r r2 = map (\<lambda>i. if i < length r then r ! i else r2 ! (i - length r)) [0..<length r + length r2]"

lemma Row_Append_eq [simp]: "Row_Append r r2 = r @ r2"
  by (rule nth_equalityI) (auto simp: Row_Append_def nth_append)

text \<open>
  \<^verbatim>\<open>Equals\<close>: \<open>cmp\<close> is the \<^verbatim>\<open>Compare\<close> method of the schema's types, an interface; \<open>ts\<close> are the types of the
  schema's columns.
\<close>

fun equals_loop :: "('t \<Rightarrow> 'v \<Rightarrow> 'v \<Rightarrow> sql_error + int) \<Rightarrow> 't list \<Rightarrow> 'v list \<Rightarrow> 'v list \<Rightarrow> sql_error + bool" where
  "equals_loop cmp (t # ts) (x # xs) (y # ys) =
     bindE (cmp t x y) (\<lambda>c. if c \<noteq> 0 then Inr False else equals_loop cmp ts xs ys)"
| "equals_loop cmp _ _ _ = Inr True"

definition Row_Equals ::
    "('t \<Rightarrow> 'v \<Rightarrow> 'v \<Rightarrow> sql_error + int) \<Rightarrow> 't list \<Rightarrow> 'v list \<Rightarrow> 'v list \<Rightarrow> sql_error + bool" where
  "Row_Equals cmp ts r r2 =
     (if length r2 \<noteq> length r \<or> length r2 \<noteq> length ts then Inr False else equals_loop cmp ts r r2)"

end
