(* ===== verification/Plan_Iters.thy ===== *)
theory Plan_Iters
  imports Row_Iter Memory_Manager
begin

text \<open>
  The row iterators of \<^verbatim>\<open>sql/plan\<close> that transform the rows of one or two children: limit, offset, filter
  (also behind HAVING), project, distinct, ordered distinct, union and cross join. The children are
  iterators of any kind, so their \<^verbatim>\<open>Next\<close> is an argument; so are the expressions, which the iterators only
  evaluate. Tracing spans are not modelled.

  For each iterator a \<open>sublocale\<close> shows that it keeps the contract \<open>row_iter\<close> if its children do, with
  contents computed from theirs; the contracts then compose along any plan.
\<close>

section \<open>Limit\<close>

record 's limitIter =
  l_Limit :: i64
  currentPos :: i64
  limit_child :: 's

definition limitIter_Next :: "('s, 'r) nextfun \<Rightarrow> ('s limitIter, 'r) nextfun" where
  "limitIter_Next nxt li =
     (if sint (currentPos li) \<ge> sint (l_Limit li) then Some (li, NEOF)
      else case nxt (limit_child li) of
        None \<Rightarrow> None
      | Some (c, res) \<Rightarrow> Some (li\<lparr>limit_child := c, currentPos := currentPos li + 1\<rparr>, res))"

definition limit_room :: "'s limitIter \<Rightarrow> nat" where
  "limit_room li = nat (sint (l_Limit li) - sint (currentPos li))"

definition limit_contents :: "('s \<Rightarrow> 'r todo) \<Rightarrow> 's limitIter \<Rightarrow> 'r todo" where
  "limit_contents contents li =
     (let (rs, e) = contents (limit_child li) in
      (take (limit_room li) rs, if length rs < limit_room li then e else None))"

locale limit_over = row_iter

sublocale limit_over \<subseteq> limit: row_iter "limitIter_Next nxt" "limit_contents contents"
    "\<lambda>li. good (limit_child li)"
proof (rule row_iterI)
  fix s :: "'a limitIter" assume g: "good (limit_child s)"
  show "keeps (limitIter_Next nxt) (limit_contents contents) (\<lambda>li. good (limit_child li)) s"
  proof (cases "sint (l_Limit s) \<le> sint (currentPos s)")
    case True
    with g show ?thesis
      by (simp add: keeps_def limitIter_Next_def limit_contents_def limit_room_def Let_def split: prod.splits)
  next
    case False
    then have "sint (currentPos s + 1) = sint (currentPos s) + 1" by (intro sint_succ_less [of _ "l_Limit s"]) simp
    with False obtain n where n: "limit_room s = Suc n"
      "\<And>s'. limit_room (s\<lparr>limit_child := s', currentPos := currentPos s + 1\<rparr>) = n"
      by (cases "limit_room s") (auto simp: limit_room_def)
    from g show ?thesis
      by (cases rule: nxt_cases)
        (use False n in \<open>simp_all add: keeps_def limitIter_Next_def limit_contents_def\<close>)
  qed
qed

section \<open>Offset\<close>

record 's offsetIter =
  skip_n :: i64
  offset_child :: 's

text \<open>The loop that skips rows; its error ends the call.\<close>

partial_function (option) offset_skip :: "('s, 'r) nextfun \<Rightarrow> 's offsetIter \<Rightarrow> ('s offsetIter \<times> 'r nextres option) option" where
  "offset_skip nxt i =
     (if sint (skip_n i) > 0 then
        case nxt (offset_child i) of
          None \<Rightarrow> None
        | Some (c, NRow _) \<Rightarrow> offset_skip nxt (i\<lparr>offset_child := c, skip_n := skip_n i - 1\<rparr>)
        | Some (c, res) \<Rightarrow> Some (i\<lparr>offset_child := c\<rparr>, Some res)
      else Some (i, None))"

declare offset_skip.simps [code]

definition offsetIter_Next :: "('s, 'r) nextfun \<Rightarrow> ('s offsetIter, 'r) nextfun" where
  "offsetIter_Next nxt i =
     (case offset_skip nxt i of
        None \<Rightarrow> None
      | Some (i', Some res) \<Rightarrow> Some (i', res)
      | Some (i', None) \<Rightarrow> (case nxt (offset_child i') of
          None \<Rightarrow> None
        | Some (c, res) \<Rightarrow> Some (i'\<lparr>offset_child := c\<rparr>, res)))"

definition offset_contents :: "('s \<Rightarrow> 'r todo) \<Rightarrow> 's offsetIter \<Rightarrow> 'r todo" where
  "offset_contents contents i =
     (let (rs, e) = contents (offset_child i) in (drop (nat (sint (skip_n i))) rs, e))"

locale offset_over = row_iter
begin

text \<open>Skipping either runs into the end of the child, or leaves an iterator with the same contents and
  nothing more to skip.\<close>

lemma offset_skip_contents:
  assumes "good (offset_child i)" and "nat (sint (skip_n i)) = n"
  shows "(\<exists>i'. offset_skip nxt i = Some (i', None) \<and> good (offset_child i') \<and> sint (skip_n i') \<le> 0 \<and>
      offset_contents contents i' = offset_contents contents i) \<or>
    (\<exists>i'. offset_skip nxt i = Some (i', Some NEOF) \<and> good (offset_child i') \<and>
      offset_contents contents i = ([], None) \<and> offset_contents contents i' = ([], None)) \<or>
    (\<exists>i' e. offset_skip nxt i = Some (i', Some (NErr e)) \<and> offset_contents contents i = ([], Some e))"
  using assms
proof (induction n arbitrary: i)
  case 0
  then show ?case by (subst (1 2 3) offset_skip.simps) auto
next
  case (Suc n)
  then have pos: "0 < sint (skip_n i)" by simp
  then have n: "nat (sint (skip_n i - 1)) = n" using Suc.prems(2) by (simp add: sint_pred_pos)
  from Suc.prems(1) show ?case
  proof (cases rule: nxt_cases)
    case (Row r rs e s')
    let ?i = "i\<lparr>offset_child := s', skip_n := skip_n i - 1\<rparr>"
    have "offset_skip nxt i = offset_skip nxt ?i"
      using Row pos by (subst offset_skip.simps) simp
    moreover have "offset_contents contents i = offset_contents contents ?i"
      using Row n Suc.prems(2) by (simp add: offset_contents_def)
    ultimately show ?thesis using Suc.IH [of ?i] Row n by simp
  next
    case (EOF s')
    with pos show ?thesis
      by (subst (1 2 3) offset_skip.simps) (simp add: offset_contents_def)
  next
    case (Err e s')
    with pos show ?thesis
      by (subst (1 2 3) offset_skip.simps) (simp add: offset_contents_def)
  qed
qed

end

sublocale offset_over \<subseteq> offset: row_iter "offsetIter_Next nxt" "offset_contents contents"
    "\<lambda>i. good (offset_child i)"
proof (rule row_iterI)
  fix i :: "'a offsetIter" assume g: "good (offset_child i)"
  from offset_skip_contents [OF this refl]
  show "keeps (offsetIter_Next nxt) (offset_contents contents) (\<lambda>i. good (offset_child i)) i"
  proof (elim disjE exE conjE)
    fix i' assume i': "offset_skip nxt i = Some (i', None)" "good (offset_child i')" "sint (skip_n i') \<le> 0"
      and c: "offset_contents contents i' = offset_contents contents i"
    from i'(2) show ?thesis
      by (cases rule: nxt_cases)
        (use i' c [symmetric] in \<open>simp_all add: keeps_def offsetIter_Next_def offset_contents_def\<close>)
  qed (simp_all add: keeps_def offsetIter_Next_def)
qed

section \<open>Filter and having\<close>

text \<open>The condition is \<^verbatim>\<open>sql.EvaluateCondition\<close> applied to the filter's expression.\<close>

partial_function (option) FilterIter_Next :: "('s, 'r) nextfun \<Rightarrow> ('r \<Rightarrow> sql_error + bool) \<Rightarrow> ('s, 'r) nextfun" where
  "FilterIter_Next nxt cond s =
     (case nxt s of
        None \<Rightarrow> None
      | Some (s', NRow r) \<Rightarrow>
          (case cond r of
             Inl e \<Rightarrow> Some (s', NErr e)
           | Inr ok \<Rightarrow> if ok then Some (s', NRow r) else FilterIter_Next nxt cond s')
      | Some (s', res) \<Rightarrow> Some (s', res))"

declare FilterIter_Next.simps [code]

fun filter_rows :: "('r \<Rightarrow> sql_error + bool) \<Rightarrow> 'r list \<Rightarrow> sql_error option \<Rightarrow> 'r todo" where
  "filter_rows cond [] e = ([], e)"
| "filter_rows cond (r # rs) e =
     (case cond r of
        Inl err \<Rightarrow> ([], Some err)
      | Inr ok \<Rightarrow> if ok then cons_row r (filter_rows cond rs e) else filter_rows cond rs e)"

definition filter_contents :: "('r \<Rightarrow> sql_error + bool) \<Rightarrow> ('s \<Rightarrow> 'r todo) \<Rightarrow> 's \<Rightarrow> 'r todo" where
  "filter_contents cond contents s = case_prod (filter_rows cond) (contents s)"

lemma filter_rows_total:
  "(\<And>r. r \<in> set rs \<Longrightarrow> cond r = Inr (P r)) \<Longrightarrow> filter_rows cond rs e = (filter P rs, e)"
  by (induction rs) auto

locale filter_over = row_iter nxt contents good
  for nxt :: "('s, 'r) nextfun" and contents and good +
  fixes cond :: "'r \<Rightarrow> sql_error + bool"

sublocale filter_over \<subseteq> flt: row_iter "FilterIter_Next nxt cond" "filter_contents cond contents" good
proof (rule row_iterI)
  fix s assume "good s"
  then show "keeps (FilterIter_Next nxt cond) (filter_contents cond contents) good s"
  proof (induction "length (fst (contents s))" arbitrary: s rule: less_induct)
    case less
    from less.prems show ?case
    proof (cases rule: nxt_cases)
      case (Row r rs e s')
      show ?thesis
      proof (cases "cond r = Inr False")
        case True
        with Row have "FilterIter_Next nxt cond s = FilterIter_Next nxt cond s'"
          by (subst FilterIter_Next.simps) simp
        moreover from Row True have "filter_contents cond contents s = filter_contents cond contents s'"
          by (simp add: filter_contents_def)
        moreover have "keeps (FilterIter_Next nxt cond) (filter_contents cond contents) good s'"
          using less.hyps [of s'] Row by simp
        ultimately show ?thesis by (rule keeps_eq)
      next
        case False
        with Row show ?thesis unfolding keeps_def
          by (subst FilterIter_Next.simps) (auto simp: filter_contents_def cons_row_def split: sum.splits if_splits)
      qed
    next
      case (EOF s')
      then show ?thesis unfolding keeps_def
        by (subst FilterIter_Next.simps) (simp add: filter_contents_def)
    next
      case (Err e s')
      then show ?thesis unfolding keeps_def
        by (subst FilterIter_Next.simps) (simp add: filter_contents_def)
    qed
  qed
qed

section \<open>Project\<close>

text \<open>
  A projection with its \<^verbatim>\<open>Eval\<close>. A column default that is not a literal is deferred: the first pass leaves a
  NULL for it, and the second pass evaluates it on the fields of the first.
\<close>

record projection =
  deferred :: bool
  Eval :: "row \<Rightarrow> sql_error + val"

fun project_first :: "projection list \<Rightarrow> row \<Rightarrow> nat \<Rightarrow> row \<Rightarrow> nat list \<Rightarrow> sql_error + (row \<times> nat list)" where
  "project_first [] r i fs second = Inr (fs, second)"
| "project_first (p # ps) r i fs second =
     (if deferred p then project_first ps r (i + 1) (fs @ [VNil]) (second @ [i])
      else bindE (Eval p r) (\<lambda>f. project_first ps r (i + 1) (fs @ [f]) second))"

fun project_second :: "projection list \<Rightarrow> nat list \<Rightarrow> row \<Rightarrow> sql_error + row" where
  "project_second ps [] fs = Inr fs"
| "project_second ps (i # is) fs =
     bindE (Eval (ps ! i) fs) (\<lambda>f. project_second ps is (fs[i := f]))"

definition ProjectRow :: "projection list \<Rightarrow> row \<Rightarrow> sql_error + row" where
  "ProjectRow ps r =
     bindE (project_first ps r 0 [] []) (\<lambda>(fs, second).
       bindE (project_second ps second fs) (\<lambda>fs. Inr (NewRow fs)))"

definition projectIter_Next :: "('s, 'r) nextfun \<Rightarrow> ('r \<Rightarrow> sql_error + 'q) \<Rightarrow> ('s, 'q) nextfun" where
  "projectIter_Next nxt f s =
     (case nxt s of
        None \<Rightarrow> None
      | Some (s', NRow r) \<Rightarrow> Some (s', case f r of Inl e \<Rightarrow> NErr e | Inr q \<Rightarrow> NRow q)
      | Some (s', NEOF) \<Rightarrow> Some (s', NEOF)
      | Some (s', NErr e) \<Rightarrow> Some (s', NErr e))"

fun map_rows :: "('r \<Rightarrow> sql_error + 'q) \<Rightarrow> 'r list \<Rightarrow> sql_error option \<Rightarrow> 'q todo" where
  "map_rows f [] e = ([], e)"
| "map_rows f (r # rs) e =
     (case f r of Inl err \<Rightarrow> ([], Some err) | Inr q \<Rightarrow> cons_row q (map_rows f rs e))"

definition project_contents :: "('r \<Rightarrow> sql_error + 'q) \<Rightarrow> ('s \<Rightarrow> 'r todo) \<Rightarrow> 's \<Rightarrow> 'q todo" where
  "project_contents f contents s = case_prod (map_rows f) (contents s)"

lemma map_rows_total: "(\<And>r. r \<in> set rs \<Longrightarrow> f r = Inr (g r)) \<Longrightarrow> map_rows f rs e = (map g rs, e)"
  by (induction rs) auto

locale project_over = row_iter nxt contents good
  for nxt :: "('s, 'r) nextfun" and contents and good +
  fixes f :: "'r \<Rightarrow> sql_error + 'q"

sublocale project_over \<subseteq> proj: row_iter "projectIter_Next nxt f" "project_contents f contents" good
proof (rule row_iterI)
  fix s assume "good s"
  then show "keeps (projectIter_Next nxt f) (project_contents f contents) good s"
    by (cases rule: nxt_cases)
      (auto simp: keeps_def projectIter_Next_def project_contents_def cons_row_def split: sum.splits)
qed

section \<open>Distinct\<close>

text \<open>
  \<^verbatim>\<open>distinctIter\<close> remembers the hashes of the rows it has returned in a history cache. The cache is used
  through \<^verbatim>\<open>Get\<close> and \<^verbatim>\<open>Put\<close>; \<open>hash\<close> is \<^verbatim>\<open>sql.CacheKey\<close>, \<open>disp\<close> disposes the cache, which happens at the end of
  the rows.
\<close>

record ('s, 'c) distinctIter =
  distinct_child :: 's
  seen :: 'c

partial_function (option) distinctIter_Next ::
    "('c \<Rightarrow> u64 \<Rightarrow> sql_error + 'v) \<Rightarrow> ('c \<Rightarrow> u64 \<Rightarrow> (sql_error + unit) \<times> 'c) \<Rightarrow> ('c \<Rightarrow> 'c) \<Rightarrow> ('r \<Rightarrow> u64)
      \<Rightarrow> ('s, 'r) nextfun \<Rightarrow> (('s, 'c) distinctIter, 'r) nextfun" where
  "distinctIter_Next get put disp hash nxt di =
     (case nxt (distinct_child di) of
        None \<Rightarrow> None
      | Some (c, NEOF) \<Rightarrow> Some (di\<lparr>distinct_child := c, seen := disp (seen di)\<rparr>, NEOF)
      | Some (c, NErr e) \<Rightarrow> Some (di\<lparr>distinct_child := c\<rparr>, NErr e)
      | Some (c, NRow r) \<Rightarrow>
          (case get (seen di) (hash r) of
             Inr _ \<Rightarrow> distinctIter_Next get put disp hash nxt (di\<lparr>distinct_child := c\<rparr>)
           | Inl _ \<Rightarrow>
               (case put (seen di) (hash r) of
                  (Inl e, h) \<Rightarrow> Some (di\<lparr>distinct_child := c, seen := h\<rparr>, NErr e)
                | (Inr _, h) \<Rightarrow> Some (di\<lparr>distinct_child := c, seen := h\<rparr>, NRow r))))"

declare distinctIter_Next.simps [code]

fun distinct_rows :: "('c \<Rightarrow> u64 \<Rightarrow> sql_error + 'v) \<Rightarrow> ('c \<Rightarrow> u64 \<Rightarrow> (sql_error + unit) \<times> 'c) \<Rightarrow> ('r \<Rightarrow> u64)
      \<Rightarrow> 'c \<Rightarrow> 'r list \<Rightarrow> sql_error option \<Rightarrow> 'r todo" where
  "distinct_rows get put hash h [] e = ([], e)"
| "distinct_rows get put hash h (r # rs) e =
     (case get h (hash r) of
        Inr _ \<Rightarrow> distinct_rows get put hash h rs e
      | Inl _ \<Rightarrow>
          (case put h (hash r) of
             (Inl err, _) \<Rightarrow> ([], Some err)
           | (Inr _, h') \<Rightarrow> cons_row r (distinct_rows get put hash h' rs e)))"

definition distinct_contents where
  "distinct_contents get put hash contents di =
     case_prod (distinct_rows get put hash (seen di)) (contents (distinct_child di))"

locale distinct_over = row_iter nxt contents good
  for nxt :: "('s, 'r) nextfun" and contents and good +
  fixes get :: "'c \<Rightarrow> u64 \<Rightarrow> sql_error + 'v" and put :: "'c \<Rightarrow> u64 \<Rightarrow> (sql_error + unit) \<times> 'c"
    and disp :: "'c \<Rightarrow> 'c" and hash :: "'r \<Rightarrow> u64"

sublocale distinct_over \<subseteq> dst: row_iter "distinctIter_Next get put disp hash nxt"
    "distinct_contents get put hash contents" "\<lambda>di. good (distinct_child di)"
proof (rule row_iterI)
  fix di :: "('s, 'c) distinctIter"
  let ?nxt = "distinctIter_Next get put disp hash nxt" and ?con = "distinct_contents get put hash contents"
  assume "good (distinct_child di)"
  then show "keeps ?nxt ?con (\<lambda>di. good (distinct_child di)) di"
  proof (induction "length (fst (contents (distinct_child di)))" arbitrary: di rule: less_induct)
    case less
    from less.prems show ?case
    proof (cases rule: nxt_cases)
      case (Row r rs e s')
      show ?thesis
      proof (cases "get (seen di) (hash r)")
        case (Inr v)
        let ?d = "di\<lparr>distinct_child := s'\<rparr>"
        have "?nxt di = ?nxt ?d" using Row Inr by (subst distinctIter_Next.simps) simp
        moreover have "?con di = ?con ?d" using Row Inr by (simp add: distinct_contents_def)
        moreover have "keeps ?nxt ?con (\<lambda>di. good (distinct_child di)) ?d" using less.hyps [of ?d] Row by simp
        ultimately show ?thesis by (rule keeps_eq)
      next
        case (Inl err)
        obtain res h where "put (seen di) (hash r) = (res, h)" by fastforce
        with Row Inl show ?thesis unfolding keeps_def
          by (subst distinctIter_Next.simps) (auto simp: distinct_contents_def cons_row_def split: sum.splits)
      qed
    next
      case (EOF s')
      then show ?thesis unfolding keeps_def
        by (subst distinctIter_Next.simps) (simp add: distinct_contents_def)
    next
      case (Err e s')
      then show ?thesis unfolding keeps_def
        by (subst distinctIter_Next.simps) (simp add: distinct_contents_def)
    qed
  qed
qed

text \<open>The specification: of the rows with one hash, the first.\<close>

fun first_by :: "('r \<Rightarrow> 'k) \<Rightarrow> 'k set \<Rightarrow> 'r list \<Rightarrow> 'r list" where
  "first_by hash K [] = []"
| "first_by hash K (r # rs) =
     (if hash r \<in> K then first_by hash K rs else r # first_by hash (insert (hash r) K) rs)"

lemma first_by_set: "hash ` set (first_by hash K rs) = hash ` set rs - K"
  by (induction rs arbitrary: K) auto

lemma first_by_distinct: "distinct (map hash (first_by hash K rs))"
  by (induction rs arbitrary: K) (auto simp: first_by_set)

lemma first_by_subset: "set (first_by hash K rs) \<subseteq> set rs"
  by (induction rs arbitrary: K) auto

lemma first_by_subseq: "subseq (first_by hash K rs) rs"
  by (induction rs arbitrary: K) auto

context kv_cache
begin

lemma distinct_rows_first_by:
  assumes "usable h" and "\<And>h k. usable h \<Longrightarrow> \<exists>h'. put h k = (Inr (), h')"
  shows "distinct_rows get put hash h rs e = (first_by hash (stored h) rs, e)"
  using assms(1)
proof (induction rs arbitrary: h)
  case (Cons r rs)
  obtain h' where put: "put h (hash r) = (Inr (), h')" using assms(2) [OF Cons.prems] by blast
  from put_stored [OF Cons.prems put] get_stored [OF Cons.prems, of "hash r"] Cons put
  show ?case by (cases "get h (hash r)") auto
qed simp

end

end
