(* ===== verification/Plan_Iters2.thy ===== *)
theory Plan_Iters2
  imports Plan_Iters
begin

text \<open>
  More row iterators of \<^verbatim>\<open>sql/plan\<close>: ordered distinct, and the iterators with two children, union and cross
  join.
\<close>

section \<open>Ordered distinct\<close>

text \<open>\<open>eq\<close> is \<^verbatim>\<open>Row.Equals\<close> with the schema of the child.\<close>

record ('s, 'r) orderedDistinctIter =
  od_child :: 's
  prevRow :: "'r option"

partial_function (option) orderedDistinctIter_Next ::
    "('r \<Rightarrow> 'r \<Rightarrow> sql_error + bool) \<Rightarrow> ('s, 'r) nextfun \<Rightarrow> (('s, 'r) orderedDistinctIter, 'r) nextfun" where
  "orderedDistinctIter_Next eq nxt di =
     (case nxt (od_child di) of
        None \<Rightarrow> None
      | Some (c, NEOF) \<Rightarrow> Some (di\<lparr>od_child := c\<rparr>, NEOF)
      | Some (c, NErr e) \<Rightarrow> Some (di\<lparr>od_child := c\<rparr>, NErr e)
      | Some (c, NRow r) \<Rightarrow>
          (case (case prevRow di of None \<Rightarrow> Inr False | Some p \<Rightarrow> eq p r) of
             Inl e \<Rightarrow> Some (di\<lparr>od_child := c\<rparr>, NErr e)
           | Inr ok \<Rightarrow>
               if ok then orderedDistinctIter_Next eq nxt (di\<lparr>od_child := c\<rparr>)
               else Some (di\<lparr>od_child := c, prevRow := Some r\<rparr>, NRow r)))"

declare orderedDistinctIter_Next.simps [code]

fun od_rows :: "('r \<Rightarrow> 'r \<Rightarrow> sql_error + bool) \<Rightarrow> 'r option \<Rightarrow> 'r list \<Rightarrow> sql_error option \<Rightarrow> 'r todo" where
  "od_rows eq p [] e = ([], e)"
| "od_rows eq p (r # rs) e =
     (case (case p of None \<Rightarrow> Inr False | Some q \<Rightarrow> eq q r) of
        Inl err \<Rightarrow> ([], Some err)
      | Inr ok \<Rightarrow> if ok then od_rows eq p rs e else cons_row r (od_rows eq (Some r) rs e))"

definition od_contents where
  "od_contents eq contents di = case_prod (od_rows eq (prevRow di)) (contents (od_child di))"

locale ordered_distinct_over = row_iter nxt contents good
  for nxt :: "('s, 'r) nextfun" and contents and good +
  fixes eq :: "'r \<Rightarrow> 'r \<Rightarrow> sql_error + bool"

sublocale ordered_distinct_over \<subseteq> odst: row_iter "orderedDistinctIter_Next eq nxt" "od_contents eq contents"
    "\<lambda>di. good (od_child di)"
proof (rule row_iterI)
  fix di :: "('s, 'r) orderedDistinctIter"
  let ?nxt = "orderedDistinctIter_Next eq nxt" and ?con = "od_contents eq contents"
  assume "good (od_child di)"
  then show "keeps ?nxt ?con (\<lambda>di. good (od_child di)) di"
  proof (induction "length (fst (contents (od_child di)))" arbitrary: di rule: less_induct)
    case less
    from less.prems show ?case
    proof (cases rule: nxt_cases)
      case (Row r rs e s')
      show ?thesis
      proof (cases "(case prevRow di of None \<Rightarrow> Inr False | Some p \<Rightarrow> eq p r) = Inr True")
        case True
        let ?d = "di\<lparr>od_child := s'\<rparr>"
        have "?nxt di = ?nxt ?d" using Row True by (subst orderedDistinctIter_Next.simps) simp
        moreover have "?con di = ?con ?d" using Row True by (simp add: od_contents_def)
        moreover have "keeps ?nxt ?con (\<lambda>di. good (od_child di)) ?d" using less.hyps [of ?d] Row by simp
        ultimately show ?thesis by (rule keeps_eq)
      next
        case False
        then show ?thesis unfolding keeps_def
          by (subst orderedDistinctIter_Next.simps)
             (use Row in \<open>auto simp: od_contents_def cons_row_def split: sum.splits if_splits\<close>)
      qed
    next
      case (EOF s')
      then show ?thesis unfolding keeps_def
        by (subst orderedDistinctIter_Next.simps) (simp add: od_contents_def)
    next
      case (Err e s')
      then show ?thesis unfolding keeps_def
        by (subst orderedDistinctIter_Next.simps) (simp add: od_contents_def)
    qed
  qed
qed

lemma od_rows_remdups_adj:
  "od_rows (\<lambda>p r. Inr (p = r)) None rs e = (remdups_adj rs, e)"
  "od_rows (\<lambda>p r. Inr (p = r)) (Some q) rs e = (tl (remdups_adj (q # rs)), e)"
proof (induction rs arbitrary: q)
  case (Cons r rs)
  {
    case 1
    have "remdups_adj (r # rs) = r # tl (remdups_adj (r # rs))" by (auto simp: remdups_adj_Cons split: list.splits)
    with Cons(2) [of r] show ?case by simp
  next
    case 2
    from Cons(2) [of r] Cons(2) [of q] show ?case by (auto simp: remdups_adj_Cons split: list.splits)
  }
qed auto

section \<open>Union\<close>

text \<open>
  The current iterator is the left or the right child's (or nil after the right one could not be opened).
  \<open>nextIter\<close> holds what opening the right child will give, until it has been opened; \<open>clA\<close> and \<open>clB\<close> are
  the \<^verbatim>\<open>Close\<close> methods.
\<close>

record ('a, 'b) unionIter =
  cur :: "('a + 'b) option"
  nextIter :: "(sql_error + 'b) option"

definition side_next :: "('a, 'r) nextfun \<Rightarrow> ('b, 'r) nextfun \<Rightarrow> ('a + 'b, 'r) nextfun" where
  "side_next nA nB c = (case c of
     Inl a \<Rightarrow> map_option (map_prod Inl id) (nA a)
   | Inr b \<Rightarrow> map_option (map_prod Inr id) (nB b))"

definition unionIter_Next :: "('a, 'r) nextfun \<Rightarrow> ('b, 'r) nextfun \<Rightarrow> ('a + 'b \<Rightarrow> sql_error option)
      \<Rightarrow> (('a, 'b) unionIter, 'r) nextfun" where
  "unionIter_Next nA nB cl ui = (case cur ui of
     None \<Rightarrow> Some (ui, NErr nil_deref)
   | Some c \<Rightarrow> (case side_next nA nB c of
       None \<Rightarrow> None
     | Some (c', NEOF) \<Rightarrow>
         (case nextIter ui of
            None \<Rightarrow> Some (ui\<lparr>cur := Some c'\<rparr>, NEOF)
          | Some opened \<Rightarrow>
              (case cl c' of
                 Some e \<Rightarrow> Some (ui\<lparr>cur := Some c'\<rparr>, NErr e)
               | None \<Rightarrow>
                   (case opened of
                      Inl e \<Rightarrow> Some (ui\<lparr>cur := None, nextIter := None\<rparr>, NErr e)
                    | Inr b \<Rightarrow>
                        (case nB b of
                           None \<Rightarrow> None
                         | Some (b', res) \<Rightarrow> Some (ui\<lparr>cur := Some (Inr b'), nextIter := None\<rparr>, res)))))
     | Some (c', res) \<Rightarrow> Some (ui\<lparr>cur := Some c'\<rparr>, res)))"

definition unionIter_Close :: "('a + 'b \<Rightarrow> sql_error option) \<Rightarrow> ('a, 'b) unionIter \<Rightarrow> sql_error option" where
  "unionIter_Close cl ui = (case cur ui of Some c \<Rightarrow> cl c | None \<Rightarrow> None)"

text \<open>One iterator's contents and then another's; an error ends both.\<close>

definition append_todo :: "'r todo \<Rightarrow> 'r todo \<Rightarrow> 'r todo" where
  "append_todo t u = (case snd t of None \<Rightarrow> (fst t @ fst u, snd u) | Some e \<Rightarrow> t)"

definition union_contents :: "('a \<Rightarrow> 'r todo) \<Rightarrow> ('b \<Rightarrow> 'r todo) \<Rightarrow> ('a, 'b) unionIter \<Rightarrow> 'r todo" where
  "union_contents cA cB ui = (case cur ui of
     Some (Inr b) \<Rightarrow> cB b
   | Some (Inl a) \<Rightarrow>
       append_todo (cA a) (case nextIter ui of Some (Inr b) \<Rightarrow> cB b | Some (Inl e) \<Rightarrow> ([], Some e) | None \<Rightarrow> ([], None))
   | None \<Rightarrow> ([], None))"

text \<open>The states a union iterator is in: on the left with the right one not yet opened, or on the right.\<close>

definition union_good :: "('a \<Rightarrow> bool) \<Rightarrow> ('b \<Rightarrow> bool) \<Rightarrow> ('a, 'b) unionIter \<Rightarrow> bool" where
  "union_good gA gB ui = (case cur ui of
     Some (Inl a) \<Rightarrow> gA a \<and> (case nextIter ui of Some (Inr b) \<Rightarrow> gB b | Some (Inl e) \<Rightarrow> True | None \<Rightarrow> False)
   | Some (Inr b) \<Rightarrow> gB b \<and> nextIter ui = None
   | None \<Rightarrow> False)"

locale union_over = L: row_iter nA cA gA + R: row_iter nB cB gB
  for nA :: "('a, 'r) nextfun" and cA and gA and nB :: "('b, 'r) nextfun" and cB and gB +
  fixes cl :: "'a + 'b \<Rightarrow> sql_error option"
  assumes close_ok: "cl c = None"

sublocale union_over \<subseteq> uni: row_iter "unionIter_Next nA nB cl" "union_contents cA cB" "union_good gA gB"
proof (rule row_iterI)
  fix ui assume g: "union_good gA gB ui"
  then consider (left) a opened where "cur ui = Some (Inl a)" "gA a" "nextIter ui = Some opened"
      "case opened of Inr b \<Rightarrow> gB b | Inl e \<Rightarrow> True"
    | (right) b where "cur ui = Some (Inr b)" "gB b" "nextIter ui = None"
    by (auto simp: union_good_def split: option.splits sum.splits)
  then show "keeps (unionIter_Next nA nB cl) (union_contents cA cB) (union_good gA gB) ui"
  proof cases
    case right
    from right(2) show ?thesis
      by (cases rule: R.nxt_cases)
        (use right in \<open>simp_all add: keeps_def unionIter_Next_def side_next_def union_contents_def union_good_def\<close>)
  next
    case left
    note defs = keeps_def unionIter_Next_def side_next_def union_contents_def union_good_def append_todo_def close_ok
    from left(2) show ?thesis
    proof (cases rule: L.nxt_cases)
      case (EOF a')
      show ?thesis
      proof (cases opened)
        case (Inl e)
        with EOF left show ?thesis by (simp add: defs)
      next
        case (Inr b)
        with left have "gB b" by simp
        then show ?thesis
          by (cases rule: R.nxt_cases) (use EOF left Inr in \<open>simp_all add: defs\<close>)
      qed
    qed (use left in \<open>auto simp: defs split: option.splits sum.splits\<close>)
  qed
qed

section \<open>Cross join\<close>

text \<open>\<open>rp\<close> is what opening an iterator over the right child gives.\<close>

record ('a, 'b, 'v) crossJoinIterator =
  cj_l :: 'a
  cj_r :: "'b option"
  leftRow :: "'v list option"

text \<open>The part of the loop body before the right row is read: a left row and an iterator over the right
  child, or the result that ends the call.\<close>

definition crossJoin_prepare :: "('a, 'v list) nextfun \<Rightarrow> sql_error + 'b \<Rightarrow> ('a, 'b, 'v) crossJoinIterator
      \<Rightarrow> (('a, 'b, 'v) crossJoinIterator \<times> ('v list nextres + ('v list \<times> 'b))) option" where
  "crossJoin_prepare nA rp i =
     (case (case leftRow i of
              Some row \<Rightarrow> Some (i, NRow row)
            | None \<Rightarrow> map_option (\<lambda>(l, res). (i\<lparr>cj_l := l, leftRow := (case res of NRow r \<Rightarrow> Some r | _ \<Rightarrow> None)\<rparr>, res)) (nA (cj_l i))) of
        None \<Rightarrow> None
      | Some (i', NRow row) \<Rightarrow>
          Some (case cj_r i' of
              Some b \<Rightarrow> (i', Inr (row, b))
            | None \<Rightarrow> (case rp of Inl e \<Rightarrow> (i', Inl (NErr e)) | Inr b \<Rightarrow> (i'\<lparr>cj_r := Some b\<rparr>, Inr (row, b))))
      | Some (i', res) \<Rightarrow> Some (i', Inl res))"

partial_function (option) crossJoinIterator_Next :: "('a, 'v list) nextfun \<Rightarrow> ('b, 'v list) nextfun
      \<Rightarrow> sql_error + 'b \<Rightarrow> (('a, 'b, 'v) crossJoinIterator, 'v list) nextfun" where
  "crossJoinIterator_Next nA nB rp i =
     (case crossJoin_prepare nA rp i of
        None \<Rightarrow> None
      | Some (i', Inl res) \<Rightarrow> Some (i', res)
      | Some (i', Inr (row, b)) \<Rightarrow>
          (case nB b of
             None \<Rightarrow> None
           | Some (b', NEOF) \<Rightarrow> crossJoinIterator_Next nA nB rp (i'\<lparr>cj_r := None, leftRow := None\<rparr>)
           | Some (b', NErr e) \<Rightarrow> Some (i'\<lparr>cj_r := Some b'\<rparr>, NErr e)
           | Some (b', NRow r) \<Rightarrow> Some (i'\<lparr>cj_r := Some b'\<rparr>, NRow (row @ r))))"

declare crossJoinIterator_Next.simps [code]

definition crossJoinIterator_Close :: "('a \<Rightarrow> sql_error option) \<Rightarrow> ('b \<Rightarrow> sql_error option)
      \<Rightarrow> ('a, 'b, 'v) crossJoinIterator \<Rightarrow> sql_error option" where
  "crossJoinIterator_Close clA clB i =
     (let err = clA (cj_l i) in
      case cj_r i of
        None \<Rightarrow> err
      | Some r \<Rightarrow> (if err = None then clB r else err))"

text \<open>The rows of one left row, and then those of the others.\<close>

definition pair_with :: "'v list \<Rightarrow> 'v list todo \<Rightarrow> 'v list todo" where
  "pair_with l t = (map ((@) l) (fst t), snd t)"

fun cross_rows :: "sql_error + 'v list todo \<Rightarrow> 'v list list \<Rightarrow> sql_error option \<Rightarrow> 'v list todo" where
  "cross_rows right [] e = ([], e)"
| "cross_rows right (l # ls) e = (case right of
     Inl err \<Rightarrow> ([], Some err)
   | Inr t \<Rightarrow> append_todo (pair_with l t) (cross_rows right ls e))"

definition cross_rest :: "('a \<Rightarrow> 'v list todo) \<Rightarrow> ('b \<Rightarrow> 'v list todo) \<Rightarrow> sql_error + 'b \<Rightarrow> 'a \<Rightarrow> 'v list todo" where
  "cross_rest cA cB rp a = case_prod (cross_rows (map_sum id cB rp)) (cA a)"

definition cross_contents ::
    "('a \<Rightarrow> 'v list todo) \<Rightarrow> ('b \<Rightarrow> 'v list todo) \<Rightarrow> sql_error + 'b \<Rightarrow> ('a, 'b, 'v) crossJoinIterator \<Rightarrow> 'v list todo" where
  "cross_contents cA cB rp i = (case leftRow i of
     None \<Rightarrow> cross_rest cA cB rp (cj_l i)
   | Some l \<Rightarrow> (case cj_r i of
       None \<Rightarrow> ([], None)
     | Some b \<Rightarrow> append_todo (pair_with l (cB b)) (cross_rest cA cB rp (cj_l i))))"

lemma append_todo_simps [simp]:
  "append_todo ([], None) t = t" "append_todo ([], Some e) t = ([], Some e)"
  "append_todo (cons_row r t) u = cons_row r (append_todo t u)"
  by (auto simp: append_todo_def cons_row_def split: option.splits)

lemma pair_with_simps [simp]:
  "pair_with l ([], e) = ([], e)" "pair_with l (r # rs, e) = cons_row (l @ r) (pair_with l (rs, e))"
  by (simp_all add: pair_with_def)

text \<open>Between two calls there are both a left row and a right iterator, or neither.\<close>

definition cross_good :: "('a \<Rightarrow> bool) \<Rightarrow> ('b \<Rightarrow> bool) \<Rightarrow> ('a, 'b, 'v) crossJoinIterator \<Rightarrow> bool" where
  "cross_good gA gB i \<longleftrightarrow> gA (cj_l i) \<and>
     (leftRow i = None \<and> cj_r i = None \<or> leftRow i \<noteq> None \<and> (\<exists>b. cj_r i = Some b \<and> gB b))"

locale cross_over = L: row_iter nA cA gA + R: row_iter nB cB gB
  for nA :: "('a, 'v list) nextfun" and cA and gA and nB :: "('b, 'v list) nextfun" and cB and gB +
  fixes rp :: "sql_error + 'b"
  assumes rp_good: "rp = Inr b \<Longrightarrow> gB b"
begin

text \<open>One round with both children at hand: the right child decides, and at its end the loop goes on with
  the next left row.\<close>

lemma cross_keeps_inner:
  assumes b: "gB b" and i: "cross_good gA gB i" "leftRow i = Some l" "cj_r i = Some b"
    and end_: "keeps (crossJoinIterator_Next nA nB rp) (cross_contents cA cB rp) (cross_good gA gB)
      (i\<lparr>cj_r := None, leftRow := None\<rparr>)"
    and eq: "crossJoin_prepare nA rp j = Some (i, Inr (l, b))"
      "cross_contents cA cB rp j = cross_contents cA cB rp i"
  shows "keeps (crossJoinIterator_Next nA nB rp) (cross_contents cA cB rp) (cross_good gA gB) j"
  using b
proof (cases rule: R.nxt_cases)
  case (EOF b')
  have "crossJoinIterator_Next nA nB rp j = crossJoinIterator_Next nA nB rp (i\<lparr>cj_r := None, leftRow := None\<rparr>)"
    using EOF eq by (subst crossJoinIterator_Next.simps) simp
  moreover have "cross_contents cA cB rp j = cross_contents cA cB rp (i\<lparr>cj_r := None, leftRow := None\<rparr>)"
    using EOF eq i by (simp add: cross_contents_def)
  ultimately show ?thesis using end_ by (rule keeps_eq)
next
  case (Row r rs e b')
  with eq i show ?thesis unfolding keeps_def
    by (subst crossJoinIterator_Next.simps)
       (simp add: cross_contents_def cross_good_def)
next
  case (Err e b')
  with eq i show ?thesis unfolding keeps_def
    by (subst crossJoinIterator_Next.simps)
       (simp add: cross_contents_def)
qed

end

sublocale cross_over \<subseteq> crs: row_iter "crossJoinIterator_Next nA nB rp" "cross_contents cA cB rp" "cross_good gA gB"
proof (rule row_iterI)
  fix i :: "('a, 'b, 'v) crossJoinIterator"
  let ?nxt = "crossJoinIterator_Next nA nB rp" and ?con = "cross_contents cA cB rp"
  let ?keeps = "keeps ?nxt ?con (cross_good gA gB)"
  assume "cross_good gA gB i"
  then show "?keeps i"
  proof (induction "length (fst (cA (cj_l i))) + (if leftRow i = None then 0 else 1)" arbitrary: i rule: less_induct)
    case less
    show ?case
    proof (cases "leftRow i")
      case (Some l)
      with less.prems obtain b where b: "cj_r i = Some b" "gB b" "gA (cj_l i)" by (auto simp: cross_good_def)
      have "?keeps (i\<lparr>cj_r := None, leftRow := None\<rparr>)"
        using less.hyps [of "i\<lparr>cj_r := None, leftRow := None\<rparr>"] Some b by (simp add: cross_good_def)
      then show ?thesis
      proof (rule cross_keeps_inner [OF b(2) less.prems Some b(1)])
        show "crossJoin_prepare nA rp i = Some (i, Inr (l, b))"
          using Some b by (simp add: crossJoin_prepare_def)
      qed (rule refl)
    next
      case None
      with less.prems have r: "cj_r i = None" and "gA (cj_l i)" by (auto simp: cross_good_def)
      from this(2) show ?thesis
      proof (cases rule: L.nxt_cases)
        case (Row l ls e a')
        show ?thesis
        proof (cases rp)
          case (Inl err)
          with Row None r show ?thesis unfolding keeps_def
            by (subst crossJoinIterator_Next.simps) (simp add: crossJoin_prepare_def cross_contents_def cross_rest_def)
        next
          case (Inr b)
          let ?i = "i\<lparr>cj_l := a', leftRow := Some l, cj_r := Some b\<rparr>"
          have end_: "?keeps (?i\<lparr>cj_r := None, leftRow := None\<rparr>)"
            using less.hyps [of "?i\<lparr>cj_r := None, leftRow := None\<rparr>"] Row None by (simp add: cross_good_def)
          have "gB b" using rp_good Inr by simp
          moreover have "cross_good gA gB ?i" using Row \<open>gB b\<close> by (simp add: cross_good_def)
          moreover have "crossJoin_prepare nA rp i = Some (?i, Inr (l, b))"
            using Row None r Inr by (simp add: crossJoin_prepare_def)
          moreover have "?con i = ?con ?i"
            using Row None Inr by (simp add: cross_contents_def cross_rest_def)
          ultimately show ?thesis using end_ cross_keeps_inner [of b ?i l i] by simp
        qed
      next
        case (EOF a')
        with None r show ?thesis unfolding keeps_def
          by (subst crossJoinIterator_Next.simps)
             (simp add: crossJoin_prepare_def cross_contents_def cross_rest_def cross_good_def)
      next
        case (Err e a')
        with None r show ?thesis unfolding keeps_def
          by (subst crossJoinIterator_Next.simps) (simp add: crossJoin_prepare_def cross_contents_def cross_rest_def)
      qed
    qed
  qed
qed

lemma cross_rows_product:
  "cross_rows (Inr (rs, None)) ls None = (concat (map (\<lambda>l. map ((@) l) rs) ls), None)"
  by (induction ls) (simp_all add: append_todo_def pair_with_def)

end
