(* ===== verification/Query_Plans.thy ===== *)
theory Query_Plans
  imports Plan_Iters2
begin

text \<open>
  Plans built from the iterators: the contracts of \<^theory_text>\<open>Plan_Iters\<close> and \<^theory_text>\<open>Plan_Iters2\<close>, interpreted on iterators over a
  slice of rows, compose to what the plan returns when it is read to its end.
\<close>

abbreviation no_close :: "'s \<Rightarrow> sql_error option" where
  "no_close \<equiv> \<lambda>_. None"

section \<open>The contracts on slices\<close>

interpretation sel_f: filter_over sliceRowIter_Next slice_contents "\<lambda>_. True" cond for cond
  by unfold_locales

interpretation sel_p: project_over "FilterIter_Next sliceRowIter_Next cond" "filter_contents cond slice_contents"
    "\<lambda>_. True" f for cond f
  by unfold_locales

interpretation sel_o: offset_over "projectIter_Next (FilterIter_Next sliceRowIter_Next cond) f"
    "project_contents f (filter_contents cond slice_contents)" "\<lambda>_. True" for cond f
  by unfold_locales

interpretation sel_l: limit_over "offsetIter_Next (projectIter_Next (FilterIter_Next sliceRowIter_Next cond) f)"
    "offset_contents (project_contents f (filter_contents cond slice_contents))" "\<lambda>_. True" for cond f
  by unfold_locales

interpretation dst_s: distinct_over sliceRowIter_Next slice_contents "\<lambda>_. True"
    "\<lambda>m k. history_Get a k m" "\<lambda>m k. history_Put l rep a k v m" disp hash for a l rep v disp hash
  by unfold_locales

interpretation ods_s: ordered_distinct_over sliceRowIter_Next slice_contents "\<lambda>_. True" eq for eq
  by unfold_locales

interpretation uni_s: union_over sliceRowIter_Next slice_contents "\<lambda>_. True"
    sliceRowIter_Next slice_contents "\<lambda>_. True" no_close
  by unfold_locales simp

interpretation crs_s: cross_over sliceRowIter_Next slice_contents "\<lambda>_. True"
    sliceRowIter_Next slice_contents "\<lambda>_. True" rp for rp
  by unfold_locales simp

lemma slice_contents_new [simp]: "slice_contents (RowsToRowIter rs) = (rs, None)"
  by (simp add: slice_contents_def RowsToRowIter_def)

section \<open>Properties\<close>

definition select_plan_Next where
  "select_plan_Next cond f = limitIter_Next (offsetIter_Next (projectIter_Next (FilterIter_Next sliceRowIter_Next cond) f))"

definition select_plan :: "i64 \<Rightarrow> i64 \<Rightarrow> 'r list \<Rightarrow> 'r sliceRowIter offsetIter limitIter" where
  "select_plan lim off rs =
     \<lparr>l_Limit = lim, currentPos = 0, limit_child = \<lparr>skip_n = off, offset_child = RowsToRowIter rs\<rparr>\<rparr>"

text \<open>C17. A plan \<^verbatim>\<open>Limit(Offset(Project(Filter(rows))))\<close> read to its end returns the projections of the rows that
  satisfy the condition, without the first \<open>off\<close>, and at most \<open>lim\<close> of them. Evaluation is lazy: an error in
  the condition or in a projection is reported exactly if the limit has not been reached before.\<close>

theorem select_plan_rows:
  "RowIterToRows (select_plan_Next cond f) no_close (select_plan lim off rs) =
     (let (out, e) = case_prod (map_rows f) (filter_rows cond rs None);
          out' = drop (nat (sint off)) out
      in Some (todo_result (take (nat (sint lim)) out', if length out' < nat (sint lim) then e else None)))"
proof -
  obtain out e where out: "case_prod (map_rows f) (filter_rows cond rs None) = (out, e)" by fastforce
  have "RowIterToRows (select_plan_Next cond f) no_close (select_plan lim off rs) =
    Some (todo_result (limit_contents (offset_contents (project_contents f (filter_contents cond slice_contents)))
      (select_plan lim off rs)))"
    unfolding select_plan_Next_def by (rule sel_l.limit.RowIterToRows_contents) simp_all
  with out show ?thesis
    by (simp add: limit_contents_def limit_room_def offset_contents_def project_contents_def
       filter_contents_def select_plan_def)
qed

text \<open>C18. \<^verbatim>\<open>DISTINCT\<close> returns, in the order of the child, the first row of every hash, if there is memory for the
  hashes. When the hash tells the rows apart, that is every row exactly once.\<close>

theorem distinct_plan_rows:
  assumes "is_history a m" and "history_keys a m = {}" and "MaxMemory rep = 0" and "inj_on hash (set rs)"
  shows "\<exists>out. RowIterToRows (distinctIter_Next (\<lambda>m k. history_Get a k m) (\<lambda>m k. history_Put l rep a k v m)
        disp hash sliceRowIter_Next) no_close \<lparr>distinct_child = RowsToRowIter rs, seen = m\<rparr> = Some (Inr out) \<and>
      distinct out \<and> set out = set rs \<and> subseq out rs"
proof -
  let ?out = "first_by hash {} rs" and ?s = "\<lparr>distinct_child = RowsToRowIter rs, seen = m\<rparr>"
  let ?nxt = "distinctIter_Next (\<lambda>m k. history_Get a k m) (\<lambda>m k. history_Put l rep a k v m) disp hash
    sliceRowIter_Next"
  have put: "\<exists>m'. history_Put l rep a k v m = (Inr (), m')" if m: "is_history a m" for m k
  proof -
    from m obtain c where "cache_heap m ! a = HistoryCache (Some c)" by (auto simp: is_history_def)
    moreover have "releaseMemoryIfNeeded rep [Free l] m = (True, m)"
      using assms(3) by (simp add: HasAvailableMemory_def)
    ultimately show ?thesis by (simp add: history_Put_def)
  qed
  have rows: "distinct_rows (\<lambda>m k. history_Get a k m) (\<lambda>m k. history_Put l rep a k v m) hash m rs None = (?out, None)"
    using history.distinct_rows_first_by [OF assms(1) put] assms(2) by simp
  have "RowIterToRows ?nxt no_close ?s = Some (todo_result
      (distinct_contents (\<lambda>m k. history_Get a k m) (\<lambda>m k. history_Put l rep a k v m) hash slice_contents ?s))"
    by (rule dst_s.dst.RowIterToRows_contents) simp_all
  with rows have "RowIterToRows ?nxt no_close ?s = Some (Inr ?out)" by (simp add: distinct_contents_def)
  moreover have "distinct ?out" using first_by_distinct [of hash "{}" rs] by (simp add: distinct_map)
  moreover have "set ?out = set rs"
    using first_by_set [of hash "{}" rs] 
      inj_on_image_eq_iff [OF assms(4) first_by_subset [of hash "{}" rs] subset_refl] by simp
  ultimately show ?thesis using first_by_subseq [of hash "{}" rs] by blast
qed

theorem distinct_plan_rows_witness:
  "\<exists>out. RowIterToRows (distinctIter_Next (\<lambda>m k. history_Get 0 k m)
        (\<lambda>m k. history_Put (0 :: nat) \<lparr>MaxMemory = 0, UsedMemory = \<lambda>_. 0\<rparr> 0 k () m) id (word_of_nat :: nat \<Rightarrow> u64)
        sliceRowIter_Next) no_close
      \<lparr>distinct_child = RowsToRowIter [3, 5, 3 :: nat], seen = snd (NewHistoryCache NewMemoryManager :: _ \<times> (nat, unit, nat) MemoryManager)\<rparr>
      = Some (Inr out) \<and> distinct out \<and> set out = {3, 5}"
proof -
  have "is_history 0 (snd (NewHistoryCache NewMemoryManager :: _ \<times> (nat, unit, nat) MemoryManager))"
    "history_keys 0 (snd (NewHistoryCache NewMemoryManager :: _ \<times> (nat, unit, nat) MemoryManager)) = {}"
    by (simp_all add: is_history_def history_keys_def history_Get_def NewHistoryCache_def new_cache_def
        addCache_def NewMemoryManager_def Let_def)
  moreover have "inj_on (word_of_nat :: nat \<Rightarrow> u64) (set [3, 5, 3])" by (simp add: inj_on_def)
  ultimately show ?thesis
    using distinct_plan_rows [of 0 "snd (NewHistoryCache NewMemoryManager :: _ \<times> (nat, unit, nat) MemoryManager)"
      "\<lparr>MaxMemory = 0, UsedMemory = \<lambda>_. 0\<rparr>" word_of_nat "[3, 5, 3]" 0 "()" id] by auto
qed

lemma distinct_remdups_adj_sorted: "sorted rs \<Longrightarrow> distinct (remdups_adj rs)"
  by (induction rs rule: remdups_adj.induct) auto

text \<open>\<^verbatim>\<open>OrderedDistinct\<close> on sorted rows agrees with \<^verbatim>\<open>Distinct\<close>: it returns every row exactly once, in order.\<close>

lemma ordered_distinct_plan_rows:
  fixes rs :: "'r :: linorder list"
  assumes "sorted rs"
  shows "\<exists>out. RowIterToRows (orderedDistinctIter_Next (\<lambda>p r. Inr (p = r)) sliceRowIter_Next) no_close
      \<lparr>od_child = RowsToRowIter rs, prevRow = None\<rparr> = Some (Inr out) \<and>
    sorted out \<and> distinct out \<and> set out = set rs"
proof -
  let ?s = "\<lparr>od_child = RowsToRowIter rs, prevRow = None\<rparr>"
  have "RowIterToRows (orderedDistinctIter_Next (\<lambda>p r. Inr (p = r)) sliceRowIter_Next) no_close ?s =
      Some (todo_result (od_contents (\<lambda>p r. Inr (p = r)) slice_contents ?s))"
    by (rule ods_s.odst.RowIterToRows_contents) simp_all
  then have "RowIterToRows (orderedDistinctIter_Next (\<lambda>p r. Inr (p = r)) sliceRowIter_Next) no_close ?s =
      Some (Inr (remdups_adj rs))"
    by (simp add: od_contents_def od_rows_remdups_adj)
  with assms show ?thesis by (auto simp: sorted_remdups_adj distinct_remdups_adj_sorted)
qed

text \<open>\<^verbatim>\<open>UNION\<close> returns the rows of the left child and then those of the right child; it opens the right child
  only after the left one has ended, so an error of opening comes after all left rows.\<close>

lemma union_plan_rows:
  "RowIterToRows (unionIter_Next sliceRowIter_Next sliceRowIter_Next no_close) no_close
     \<lparr>cur = Some (Inl (RowsToRowIter ls)), nextIter = Some opened\<rparr> =
   Some (case opened of Inl e \<Rightarrow> Inl e | Inr i \<Rightarrow> Inr (ls @ drop (idx i) (rows i))) \<and>
   read_n (unionIter_Next sliceRowIter_Next sliceRowIter_Next no_close) (length ls)
     \<lparr>cur = Some (Inl (RowsToRowIter ls)), nextIter = Some opened\<rparr> = ls"
proof -
  let ?s = "\<lparr>cur = Some (Inl (RowsToRowIter ls)), nextIter = Some opened\<rparr>"
  let ?nxt = "unionIter_Next sliceRowIter_Next sliceRowIter_Next no_close"
  have good: "union_good (\<lambda>_. True) (\<lambda>_. True) ?s" by (auto simp: union_good_def split: sum.splits)
  have "union_contents slice_contents slice_contents ?s =
    (case opened of Inl e \<Rightarrow> (ls, Some e) | Inr i \<Rightarrow> (ls @ drop (idx i) (rows i), None))"
    by (auto simp: union_contents_def append_todo_def slice_contents_def RowsToRowIter_def split: sum.splits)
  moreover have "RowIterToRows ?nxt no_close ?s = Some (todo_result (union_contents slice_contents slice_contents ?s))"
    by (rule uni_s.uni.RowIterToRows_contents [OF good]) simp
  moreover have "read_n ?nxt (length ls) ?s = take (length ls) (fst (union_contents slice_contents slice_contents ?s))"
    by (rule uni_s.uni.read_n_contents [OF good])
  ultimately show ?thesis by (simp split: sum.splits)
qed

text \<open>C26. A cross join of two sets of rows returns every left row combined with every right row, in the order
  of a nested loop.\<close>

theorem cross_join_plan_rows:
  "RowIterToRows (crossJoinIterator_Next sliceRowIter_Next sliceRowIter_Next (Inr (RowsToRowIter rs))) no_close
     \<lparr>cj_l = RowsToRowIter ls, cj_r = None, leftRow = None\<rparr> =
   Some (Inr (concat (map (\<lambda>l. map (\<lambda>r. l @ r) rs) ls)))"
proof -
  let ?s = "\<lparr>cj_l = RowsToRowIter ls, cj_r = None, leftRow = None\<rparr>
    :: ('a list sliceRowIter, 'a list sliceRowIter, 'a) crossJoinIterator"
  have "RowIterToRows (crossJoinIterator_Next sliceRowIter_Next sliceRowIter_Next (Inr (RowsToRowIter rs))) no_close ?s =
    Some (todo_result (cross_contents slice_contents slice_contents (Inr (RowsToRowIter rs)) ?s))"
    by (rule crs_s.crs.RowIterToRows_contents) (simp_all add: cross_good_def)
  then show ?thesis by (simp add: cross_contents_def cross_rest_def cross_rows_product)
qed

section \<open>Projection of a row\<close>

lemma project_first_spec:
  "project_first ps r (length fs) fs sec = Inr (out, sec') \<Longrightarrow>
   \<exists>ys. out = fs @ ys \<and> list_all2 (\<lambda>p y. if deferred p then y = VNil else Eval p r = Inr y) ps ys \<and>
     sec' = sec @ filter (\<lambda>i. deferred (ps ! (i - length fs))) [length fs..<length fs + length ps]"
proof (induction ps arbitrary: fs sec)
  case (Cons p ps)
  obtain f sec1 where first: "project_first ps r (length (fs @ [f])) (fs @ [f]) sec1 = Inr (out, sec')"
    and f: "if deferred p then f = VNil \<and> sec1 = sec @ [length fs] else Eval p r = Inr f \<and> sec1 = sec"
    using Cons.prems by (auto simp: bindE_eq_Inr_iff split: if_splits)
  from Cons.IH [OF first] obtain ys where ys: "out = fs @ f # ys"
    "list_all2 (\<lambda>p y. if deferred p then y = VNil else Eval p r = Inr y) ps ys"
    "sec' = sec1 @ filter (\<lambda>i. deferred (ps ! (i - Suc (length fs)))) [Suc (length fs)..<Suc (length fs) + length ps]"
    by auto
  have "filter (\<lambda>i. deferred (ps ! (i - Suc (length fs)))) [Suc (length fs)..<Suc (length fs) + length ps] =
    filter (\<lambda>i. deferred ((p # ps) ! (i - length fs))) [Suc (length fs)..<Suc (length fs) + length ps]"
    by (rule filter_cong) (auto simp: nth_Cons')
  moreover have "[length fs..<length fs + length (p # ps)] =
    length fs # [Suc (length fs)..<Suc (length fs) + length ps]"
    using upt_conv_Cons [of "length fs" "length fs + length (p # ps)"] by (simp del: upt_Suc)
  ultimately show ?case using ys f by (intro exI [of _ "f # ys"]) auto
qed simp

lemma project_second_spec:
  "project_second ps is fs = Inr out \<Longrightarrow> distinct is \<Longrightarrow> list_all (\<lambda>i. i < length fs) is \<Longrightarrow>
   length out = length fs \<and> (\<forall>j. j \<notin> set is \<longrightarrow> out ! j = fs ! j) \<and>
   (\<forall>k<length is. \<exists>g. Eval (ps ! (is ! k)) g = Inr (out ! (is ! k)) \<and> length g = length fs \<and>
      (\<forall>j<length fs. g ! j = (if j \<in> set (drop k is) then fs ! j else out ! j)))"
proof (induction "is" arbitrary: fs)
  case (Cons i "is")
  from Cons.prems(1) obtain f where f: "Eval (ps ! i) fs = Inr f"
    and rest: "project_second ps is (fs[i := f]) = Inr out" by (auto simp: bindE_eq_Inr_iff)
  from Cons.prems(2,3) have i: "i \<notin> set is" "i < length fs" "distinct is"
    "list_all (\<lambda>x. x < length (fs[i := f])) is" by auto
  note IH = Cons.IH [OF rest i(3,4)]
  then have out_i: "out ! i = f" using i by simp
  have "\<exists>g. Eval (ps ! ((i # is) ! k)) g = Inr (out ! ((i # is) ! k)) \<and> length g = length fs \<and>
      (\<forall>j<length fs. g ! j = (if j \<in> set (drop k (i # is)) then fs ! j else out ! j))"
    if "k < length (i # is)" for k
  proof (cases k)
    case 0
    with IH f out_i i show ?thesis by (intro exI [of _ fs]) (auto simp: nth_list_update)
  next
    case (Suc k')
    with that IH obtain g where g: "Eval (ps ! (is ! k')) g = Inr (out ! (is ! k'))" "length g = length fs"
      "\<forall>j<length fs. g ! j = (if j \<in> set (drop k' is) then fs[i := f] ! j else out ! j)" by auto
    moreover have "i \<notin> set (drop k' is)" using i(1) in_set_dropD by fast
    then have "fs[i := f] ! j = fs ! j" if "j \<in> set (drop k' is)" for j using that by (metis nth_list_update_neq)
    ultimately show ?thesis using Suc by (intro exI [of _ g]) simp
  qed
  with IH i show ?case by (auto simp: nth_list_update)
qed simp

lemma set_drop_sorted:
  fixes xs :: "nat list"
  assumes "sorted_wrt (<) xs" and "k < length xs"
  shows "set (drop k xs) = {x \<in> set xs. xs ! k \<le> x}"
proof -
  have mono: "i < length xs \<Longrightarrow> j < length xs \<Longrightarrow> xs ! i \<le> xs ! j \<longleftrightarrow> i \<le> j" for i j
    using assms(1) by (metis linorder_not_le order_less_imp_le order_refl sorted_wrt_nth_less nat_less_le)
  show ?thesis
  proof (intro equalityI subsetI)
    fix x assume "x \<in> set (drop k xs)"
    then obtain i where "i < length xs - k" "x = xs ! (k + i)" by (auto simp: in_set_conv_nth)
    with mono [of k "k + i"] assms(2) show "x \<in> {x \<in> set xs. xs ! k \<le> x}" by auto
  next
    fix x assume "x \<in> {x \<in> set xs. xs ! k \<le> x}"
    then obtain j where j: "j < length xs" "x = xs ! j" "xs ! k \<le> xs ! j" by (auto simp: in_set_conv_nth)
    with mono [of k j] assms(2) have "k \<le> j" by simp
    with j show "x \<in> set (drop k xs)" by (auto simp: set_conv_nth intro!: exI [of _ "j - k"])
  qed
qed

text \<open>\<^verbatim>\<open>ProjectRow\<close> evaluates the projections on the child's row, except column defaults that are expressions:
  those are evaluated afterwards, in order, on a row in which all other projections and the earlier
  defaults are already in place and the later ones still NULL.\<close>

lemma ProjectRow_fields:
  assumes "ProjectRow ps r = Inr out"
  shows "length out = length ps \<and>
    (\<forall>i<length ps. if deferred (ps ! i)
       then \<exists>g. length g = length ps \<and> Eval (ps ! i) g = Inr (out ! i) \<and>
         (\<forall>j<length ps. g ! j = (if deferred (ps ! j) \<and> i \<le> j then VNil else out ! j))
       else Eval (ps ! i) r = Inr (out ! i))"
proof -
  let ?is = "filter (\<lambda>i. deferred (ps ! i)) [0..<length ps]"
  from assms obtain fs sec where first: "project_first ps r 0 [] [] = Inr (fs, sec)"
    and second: "project_second ps sec fs = Inr out" by (auto simp: ProjectRow_def NewRow_def bindE_eq_Inr_iff)
  from project_first_spec [of ps r "[]"] first have sec: "sec = ?is"
    and fs: "list_all2 (\<lambda>p y. if deferred p then y = VNil else Eval p r = Inr y) ps fs" by auto
  then have len: "length fs = length ps" by (simp add: list_all2_lengthD)
  have fields: "if deferred (ps ! i) then fs ! i = VNil else Eval (ps ! i) r = Inr (fs ! i)" if "i < length ps" for i
    using fs that by (simp add: list_all2_conv_all_nth)
  have "distinct sec" "list_all (\<lambda>i. i < length fs) sec" by (auto simp: sec len list_all_iff)
  note second' = project_second_spec [OF second this]
  have "\<exists>g. length g = length ps \<and> Eval (ps ! i) g = Inr (out ! i) \<and>
         (\<forall>j<length ps. g ! j = (if deferred (ps ! j) \<and> i \<le> j then VNil else out ! j))"
    if i: "i < length ps" "deferred (ps ! i)" for i
  proof -
    from i have "i \<in> set sec" by (simp add: sec)
    then obtain k where k: "k < length sec" "sec ! k = i" by (auto simp: in_set_conv_nth)
    have "sorted_wrt (<) sec" unfolding sec by (rule sorted_wrt_filter) simp
    from set_drop_sorted [OF this k(1)] k(2) sec
    have drop: "j \<in> set (drop k sec) \<longleftrightarrow> deferred (ps ! j) \<and> i \<le> j" if "j < length ps" for j
      using that by auto
    from second' k len obtain g where "Eval (ps ! i) g = Inr (out ! i)" "length g = length ps"
      "\<forall>j<length ps. g ! j = (if j \<in> set (drop k sec) then fs ! j else out ! j)" by auto
    with drop fields show ?thesis by (intro exI [of _ g]) fastforce
  qed
  moreover have "Eval (ps ! i) r = Inr (out ! i)" if "i < length ps" "\<not> deferred (ps ! i)" for i
    using second' fields [OF that(1)] that by (simp add: sec)
  ultimately show ?thesis using second' len by auto
qed

end
