(* ===== verification/Join_Iter.thy ===== *)
theory Join_Iter
  imports Plan_Iters2
begin

text \<open>
  \<^verbatim>\<open>sql/plan/join.go\<close>: the iterator behind inner, left and right joins. It reads the secondary side once for
  every row of the primary side, and tries to keep the secondary rows in a cache so that it need not be
  read again (memory mode); when memory runs out during the first pass it gives up caching (multipass
  mode).

  The children, the condition and the cache are interfaces; \<open>joinEnv\<close> has their methods.
\<close>

datatype JoinType = JoinTypeInner | JoinTypeLeft | JoinTypeRight

datatype joinMode = unknownMode | memoryMode | multipassMode

text \<open>An error result that can also be \<^verbatim>\<open>io.EOF\<close>.\<close>

datatype ioerr = EOF | Err sql_error

record ('s, 'b, 'c, 'v) joinEnv =
  primary_Next :: "('s, 'v list) nextfun"
  secondary_Next :: "('b, 'v list) nextfun"
  secondaryProvider :: "sql_error + 'b"
  cond_Eval :: "'v list \<Rightarrow> sql_error + val"
  cache_Add :: "'c \<Rightarrow> 'v list \<Rightarrow> (sql_error + unit) \<times> 'c"
  cache_Get :: "'c \<Rightarrow> 'v list list"
  cache_Dispose :: "'c \<Rightarrow> 'c"
  HasAvailable :: "'c \<Rightarrow> bool \<times> 'c"
  nil_value :: 'v

text \<open>Only the Boolean \<^verbatim>\<open>true\<close> is a match: NULL and numbers are not.\<close>

definition conditionIsTrue :: "('r \<Rightarrow> sql_error + val) \<Rightarrow> 'r \<Rightarrow> sql_error + bool" where
  "conditionIsTrue eval row = bindE (eval row) (\<lambda>v. Inr (v = VBool True))"

record ('s, 'b, 'c, 'v) joinIter =
  j_typ :: JoinType
  primary :: 's
  secondary :: "'b option"
  primaryRow :: "'v list option"
  foundMatch :: bool
  rowSize :: nat
  mode :: joinMode
  secondaryRows :: 'c
  pos :: nat
  has_dispose :: bool

definition Dispose :: "('s, 'b, 'c, 'v) joinEnv \<Rightarrow> ('s, 'b, 'c, 'v) joinIter \<Rightarrow> ('s, 'b, 'c, 'v) joinIter" where
  "Dispose env i =
     (if has_dispose i then i\<lparr>secondaryRows := cache_Dispose env (secondaryRows i), has_dispose := False\<rparr> else i)"

definition loadPrimary :: "('s, 'b, 'c, 'v) joinEnv \<Rightarrow> ('s, 'b, 'c, 'v) joinIter
      \<Rightarrow> (('s, 'b, 'c, 'v) joinIter \<times> ioerr option) option" where
  "loadPrimary env i = (case primaryRow i of
     Some _ \<Rightarrow> Some (i, None)
   | None \<Rightarrow> (case primary_Next env (primary i) of
       None \<Rightarrow> None
     | Some (s, NEOF) \<Rightarrow> Some (Dispose env (i\<lparr>primary := s\<rparr>), Some EOF)
     | Some (s, NErr e) \<Rightarrow> Some (i\<lparr>primary := s\<rparr>, Some (Err e))
     | Some (s, NRow r) \<Rightarrow> Some (i\<lparr>primary := s, primaryRow := Some r, foundMatch := False\<rparr>, None)))"

partial_function (option) load_loop :: "('s, 'b, 'c, 'v) joinEnv \<Rightarrow> 'b \<Rightarrow> 'c \<Rightarrow> (ioerr option \<times> 'c) option" where
  "load_loop env it c = (case secondary_Next env it of
     None \<Rightarrow> None
   | Some (it', NEOF) \<Rightarrow> Some (None, c)
   | Some (it', NErr e) \<Rightarrow> Some (Some (Err e), c)
   | Some (it', NRow r) \<Rightarrow> (case cache_Add env c r of
       (Inl e, c') \<Rightarrow> Some (Some (Err e), c')
     | (Inr _, c') \<Rightarrow> load_loop env it' c'))"

declare load_loop.simps [code]

definition loadSecondaryInMemory :: "('s, 'b, 'c, 'v) joinEnv \<Rightarrow> ('s, 'b, 'c, 'v) joinIter
      \<Rightarrow> (('s, 'b, 'c, 'v) joinIter \<times> ioerr option) option" where
  "loadSecondaryInMemory env i = (case secondaryProvider env of
     Inl e \<Rightarrow> Some (i, Some (Err e))
   | Inr it \<Rightarrow> (case load_loop env it (secondaryRows i) of
       None \<Rightarrow> None
     | Some (Some e, c) \<Rightarrow> Some (i\<lparr>secondaryRows := c\<rparr>, Some e)
     | Some (None, c) \<Rightarrow> Some (i\<lparr>secondaryRows := c\<rparr>, if cache_Get env c = [] then Some EOF else None)))"

definition loadSecondary_memory :: "('s, 'b, 'c, 'v) joinEnv \<Rightarrow> ('s, 'b, 'c, 'v) joinIter
      \<Rightarrow> (('s, 'b, 'c, 'v) joinIter \<times> (ioerr + 'v list)) option" where
  "loadSecondary_memory env i =
     (case (if cache_Get env (secondaryRows i) = [] then loadSecondaryInMemory env i else Some (i, None)) of
        None \<Rightarrow> None
      | Some (i', Some e) \<Rightarrow> Some (i', Inl e)
      | Some (i', None) \<Rightarrow>
          if pos i' \<ge> length (cache_Get env (secondaryRows i'))
          then Some (i'\<lparr>primaryRow := None, pos := 0\<rparr>, Inl EOF)
          else Some (i'\<lparr>pos := pos i' + 1\<rparr>, Inr (cache_Get env (secondaryRows i') ! pos i')))"

text \<open>In the first pass every row that was read is added to the cache, or caching is given up. The error of
  adding that reports missing memory is ignored.\<close>

definition remember :: "('s, 'b, 'c, 'v) joinEnv \<Rightarrow> 'v list \<Rightarrow> ('s, 'b, 'c, 'v) joinIter
      \<Rightarrow> ('s, 'b, 'c, 'v) joinIter \<times> (ioerr + 'v list)" where
  "remember env r i =
     (if mode i = unknownMode then
        let (avail, c) = HasAvailable env (secondaryRows i) in
        if \<not> avail then ((Dispose env (i\<lparr>secondaryRows := c\<rparr>))\<lparr>mode := multipassMode\<rparr>, Inr r)
        else case cache_Add env c r of
          (Inr _, c') \<Rightarrow> (i\<lparr>secondaryRows := c'\<rparr>, Inr r)
        | (Inl e, c') \<Rightarrow> (i\<lparr>secondaryRows := c'\<rparr>, if e = ErrNoMemoryAvailable then Inr r else Inl (Err e))
      else (i, Inr r))"

definition loadSecondary :: "('s, 'b, 'c, 'v) joinEnv \<Rightarrow> ('s, 'b, 'c, 'v) joinIter
      \<Rightarrow> (('s, 'b, 'c, 'v) joinIter \<times> (ioerr + 'v list)) option" where
  "loadSecondary env i =
     (if mode i = memoryMode then loadSecondary_memory env i
      else case (case secondary i of Some b \<Rightarrow> Inr b | None \<Rightarrow> secondaryProvider env) of
        Inl e \<Rightarrow> Some (i, Inl (Err e))
      | Inr b \<Rightarrow> (case secondary_Next env b of
          None \<Rightarrow> None
        | Some (b', NEOF) \<Rightarrow>
            Some (i\<lparr>secondary := None, primaryRow := None,
                    mode := (if mode i = unknownMode then memoryMode else mode i)\<rparr>, Inl EOF)
        | Some (b', NErr e) \<Rightarrow> Some (i\<lparr>secondary := Some b'\<rparr>, Inl (Err e))
        | Some (b', NRow r) \<Rightarrow> Some (remember env r (i\<lparr>secondary := Some b'\<rparr>))))"

text \<open>\<^verbatim>\<open>copy(row[k:], xs)\<close>: the slice must exist, and what does not fit is dropped.\<close>

definition copy_at :: "nat \<Rightarrow> 'v list \<Rightarrow> 'v list \<Rightarrow> 'v list" where
  "copy_at k xs row = take k row @ take (length row - k) xs @ drop (k + length xs) row"

definition buildRow :: "'v \<Rightarrow> ('s, 'b, 'c, 'v) joinIter \<Rightarrow> 'v list \<Rightarrow> 'v list option \<Rightarrow> sql_error + 'v list" where
  "buildRow nilv i prim sec =
     (let row = replicate (rowSize i) nilv; secRow = (case sec of Some s \<Rightarrow> s | None \<Rightarrow> []) in
      if length prim > rowSize i then Inl (Panic ''slice bounds out of range'')
      else case j_typ i of
        JoinTypeRight \<Rightarrow> Inr (copy_at (rowSize i - length prim) prim (copy_at 0 secRow row))
      | _ \<Rightarrow> Inr (copy_at (length prim) secRow (copy_at 0 prim row)))"

partial_function (option) joinIter_Next :: "('s, 'b, 'c, 'v) joinEnv \<Rightarrow> (('s, 'b, 'c, 'v) joinIter, 'v list) nextfun" where
  "joinIter_Next env i = (case loadPrimary env i of
     None \<Rightarrow> None
   | Some (i, Some EOF) \<Rightarrow> Some (i, NEOF)
   | Some (i, Some (Err e)) \<Rightarrow> Some (i, NErr e)
   | Some (i, None) \<Rightarrow>
       (case primaryRow i of
          None \<Rightarrow> Some (i, NErr nil_deref)
        | Some prim \<Rightarrow>
       (case loadSecondary env i of
          None \<Rightarrow> None
        | Some (i, Inl (Err e)) \<Rightarrow> Some (i, NErr e)
        | Some (i, Inl EOF) \<Rightarrow>
            if \<not> foundMatch i \<and> (j_typ i = JoinTypeLeft \<or> j_typ i = JoinTypeRight)
            then Some (i, case buildRow (nil_value env) i prim None of Inl e \<Rightarrow> NErr e | Inr row \<Rightarrow> NRow row)
            else joinIter_Next env i
        | Some (i, Inr sec) \<Rightarrow>
            (case bindE (buildRow (nil_value env) i prim (Some sec)) (\<lambda>row.
                    bindE (conditionIsTrue (cond_Eval env) row) (\<lambda>matches. Inr (row, matches))) of
               Inl e \<Rightarrow> Some (i, NErr e)
             | Inr (row, matches) \<Rightarrow>
                 if \<not> matches then joinIter_Next env i
                 else Some (i\<lparr>foundMatch := True\<rparr>, NRow row)))))"

declare joinIter_Next.simps [code]

section \<open>The specification: nested loops\<close>

text \<open>
  The rows of one primary row: those of its combinations with the secondary rows that match, and in an
  outer join the row without a partner if there is none. \<open>found\<close> tells whether there was a match already,
  \<open>rest\<close> is what follows.
\<close>

fun match_rows :: "('v list \<Rightarrow> 'v list option \<Rightarrow> sql_error + 'v list) \<Rightarrow> ('v list \<Rightarrow> sql_error + bool) \<Rightarrow> bool
      \<Rightarrow> 'v list \<Rightarrow> bool \<Rightarrow> 'v list list \<Rightarrow> 'v list todo \<Rightarrow> 'v list todo" where
  "match_rows bld cond outer p found [] rest =
     (if outer \<and> \<not> found then (case bld p None of Inl e \<Rightarrow> ([], Some e) | Inr row \<Rightarrow> cons_row row rest) else rest)"
| "match_rows bld cond outer p found (s # ss) rest =
     (case bindE (bld p (Some s)) (\<lambda>row. bindE (cond row) (\<lambda>m. Inr (row, m))) of
        Inl e \<Rightarrow> ([], Some e)
      | Inr (row, m) \<Rightarrow>
          if m then cons_row row (match_rows bld cond outer p True ss rest)
          else match_rows bld cond outer p found ss rest)"

fun join_rows :: "('v list \<Rightarrow> 'v list option \<Rightarrow> sql_error + 'v list) \<Rightarrow> ('v list \<Rightarrow> sql_error + bool) \<Rightarrow> bool
      \<Rightarrow> 'v list list \<Rightarrow> 'v list list \<Rightarrow> sql_error option \<Rightarrow> 'v list todo" where
  "join_rows bld cond outer secs [] e = ([], e)"
| "join_rows bld cond outer secs (p # ps) e =
     match_rows bld cond outer p False secs (join_rows bld cond outer secs ps e)"

section \<open>The contract\<close>

definition is_outer :: "('s, 'b, 'c, 'v) joinIter \<Rightarrow> bool" where
  "is_outer i \<longleftrightarrow> j_typ i = JoinTypeLeft \<or> j_typ i = JoinTypeRight"

text \<open>The secondary rows still to be combined with the current primary row.\<close>

definition remaining :: "('s, 'b, 'c, 'v) joinEnv \<Rightarrow> ('b \<Rightarrow> 'v list todo) \<Rightarrow> 'v list list
      \<Rightarrow> ('s, 'b, 'c, 'v) joinIter \<Rightarrow> 'v list list" where
  "remaining env cS secs i =
     (if mode i = memoryMode then drop (pos i) secs
      else case secondary i of Some b \<Rightarrow> fst (cS b) | None \<Rightarrow> secs)"

definition join_rest where
  "join_rest env cP secs i =
     case_prod (join_rows (buildRow (nil_value env) i) (conditionIsTrue (cond_Eval env)) (is_outer i) secs) (cP (primary i))"

definition join_contents where
  "join_contents env cP cS secs i = (case primaryRow i of
     None \<Rightarrow> join_rest env cP secs i
   | Some p \<Rightarrow> match_rows (buildRow (nil_value env) i) (conditionIsTrue (cond_Eval env)) (is_outer i) p (foundMatch i)
       (remaining env cS secs i) (join_rest env cP secs i))"

text \<open>In memory mode the cache has all secondary rows; in the first pass it has those read so far.\<close>

definition join_active where
  "join_active env gP cS gS usable secs i \<longleftrightarrow> gP (primary i) \<and>
     (if mode i = memoryMode
      then cache_Get env (secondaryRows i) = secs \<and> pos i \<le> length secs \<and> (primaryRow i = None \<longrightarrow> pos i = 0)
      else pos i = 0 \<and>
        (case secondary i of
           None \<Rightarrow> mode i = unknownMode \<longrightarrow> usable (secondaryRows i) \<and> cache_Get env (secondaryRows i) = []
         | Some b \<Rightarrow> primaryRow i \<noteq> None \<and> gS b \<and> snd (cS b) = None \<and>
             (mode i = unknownMode \<longrightarrow> usable (secondaryRows i) \<and> cache_Get env (secondaryRows i) @ fst (cS b) = secs)))"

definition join_ended where
  "join_ended gP cP i \<longleftrightarrow> primaryRow i = None \<and> gP (primary i) \<and> cP (primary i) = ([], None)"

text \<open>What reading a secondary row does not change.\<close>

definition same_join :: "('s, 'b, 'c, 'v) joinIter \<Rightarrow> ('s, 'b, 'c, 'v) joinIter \<Rightarrow> bool" where
  "same_join i j \<longleftrightarrow>
     j_typ i = j_typ j \<and> rowSize i = rowSize j \<and> primary i = primary j \<and> foundMatch i = foundMatch j"

text \<open>
  What the iterator needs of its surroundings: children that keep their contract, a secondary side that
  is not empty and the same whenever it is read, and a cache that takes a row if memory was available
  just before.
\<close>

locale join_over = P: row_iter "primary_Next env" cP gP + S: row_iter "secondary_Next env" cS gS
  for env :: "('s, 'b, 'c, 'v) joinEnv" and cP gP cS gS +
  fixes usable :: "'c \<Rightarrow> bool" and secs :: "'v list list" and b0 :: 'b
  assumes provider: "secondaryProvider env = Inr b0" "gS b0" "cS b0 = (secs, None)"
    and secs_ne: "secs \<noteq> []"
    and cache_add: "usable c \<Longrightarrow> HasAvailable env c = (True, c1) \<Longrightarrow>
      \<exists>c2. cache_Add env c1 r = (Inr (), c2) \<and> usable c2 \<and> cache_Get env c2 = cache_Get env c @ [r]"
begin

abbreviation "active \<equiv> join_active env gP cS gS usable secs"
abbreviation "rem \<equiv> remaining env cS secs"

lemma loadSecondary_end:
  assumes i: "active i" "primaryRow i = Some p" "rem i = []"
  shows "\<exists>i'. loadSecondary env i = Some (i', Inl EOF) \<and> active i' \<and> primaryRow i' = None \<and> same_join i' i"
proof (cases "mode i = memoryMode")
  case True
  with i secs_ne show ?thesis
    by (auto simp: loadSecondary_def loadSecondary_memory_def join_active_def remaining_def same_join_def)
next
  case False
  with i secs_ne obtain b where b: "secondary i = Some b" "gS b" "cS b = ([], None)"
    by (cases "secondary i") (auto simp: join_active_def remaining_def prod_eq_iff)
  from b(2) show ?thesis
  proof (cases rule: S.nxt_cases)
    case (EOF b')
    with b i False show ?thesis by (auto simp: loadSecondary_def join_active_def same_join_def)
  qed (use b in auto)
qed

lemma loadSecondary_row:
  assumes i: "active i" "primaryRow i = Some p" "rem i = s # ss"
  shows "\<exists>i'. loadSecondary env i = Some (i', Inr s) \<and> active i' \<and> primaryRow i' = Some p \<and> rem i' = ss \<and>
    same_join i' i"
proof (cases "mode i = memoryMode")
  case True
  with i(1,3) have drop: "drop (pos i) secs = s # ss" and get: "cache_Get env (secondaryRows i) = secs"
    by (auto simp: join_active_def remaining_def)
  then have lt: "pos i < length secs" by (metis drop_all linorder_not_le list.distinct(1))
  with drop have "secs ! pos i = s" "drop (Suc (pos i)) secs = ss" by (metis Cons_nth_drop_Suc list.inject)+
  with True i get lt secs_ne show ?thesis
    by (auto simp: loadSecondary_def loadSecondary_memory_def join_active_def remaining_def same_join_def)
next
  case False
  with i have "gS (case secondary i of Some b \<Rightarrow> b | None \<Rightarrow> b0)"
    "cS (case secondary i of Some b \<Rightarrow> b | None \<Rightarrow> b0) = (s # ss, None)"
    using provider by (auto simp: join_active_def remaining_def prod_eq_iff split: option.splits)
  moreover define b where "b = (case secondary i of Some b \<Rightarrow> b | None \<Rightarrow> b0)"
  ultimately have b: "gS b" "cS b = (s # ss, None)" by simp_all
  have open_b: "(case secondary i of Some b \<Rightarrow> Inr b | None \<Rightarrow> secondaryProvider env) = Inr b"
    by (auto simp: b_def provider split: option.splits)
  from S.nxt_row [OF b] obtain b' where b': "secondary_Next env b = Some (b', NRow s)" "gS b'" "cS b' = (ss, None)"
    by blast
  let ?i = "i\<lparr>secondary := Some b'\<rparr>"
  have load: "loadSecondary env i = Some (remember env s ?i)"
    using False open_b b' by (simp add: loadSecondary_def)
  show ?thesis
  proof (cases "mode i = unknownMode")
    case multi: False
    with load b' i False show ?thesis
      by (auto simp: remember_def join_active_def remaining_def same_join_def)
  next
    case True
    with i False b(2) have c: "usable (secondaryRows i)" "cache_Get env (secondaryRows i) @ s # ss = secs" "pos i = 0"
      using provider by (auto simp: join_active_def b_def split: option.splits)
    obtain av c1 where av: "HasAvailable env (secondaryRows i) = (av, c1)" by fastforce
    show ?thesis
    proof (cases av)
      case True
      with cache_add [OF c(1), of c1 s] av obtain c2 where "cache_Add env c1 s = (Inr (), c2)" "usable c2"
        "cache_Get env c2 = cache_Get env (secondaryRows i) @ [s]" by auto
      with True av load b' i c \<open>mode i = unknownMode\<close> show ?thesis
        by (auto simp: remember_def join_active_def remaining_def same_join_def)
    next
      case False
      with av load b' i c \<open>mode i = unknownMode\<close> show ?thesis
        by (auto simp: remember_def join_active_def remaining_def same_join_def Dispose_def)
    qed
  qed
qed

lemma loadPrimary_active:
  assumes "active i" and "primaryRow i = None" and "primary_Next env (primary i) = Some (s', NRow r)" and "gP s'"
  shows "loadPrimary env i = Some (i\<lparr>primary := s', primaryRow := Some r, foundMatch := False\<rparr>, None)"
    and "active (i\<lparr>primary := s', primaryRow := Some r, foundMatch := False\<rparr>)"
    and "rem (i\<lparr>primary := s', primaryRow := Some r, foundMatch := False\<rparr>) = secs"
  using assms by (auto simp: loadPrimary_def join_active_def remaining_def split: option.splits)

end

lemma buildRow_cong: "j_typ i = j_typ j \<Longrightarrow> rowSize i = rowSize j \<Longrightarrow> buildRow v i = buildRow v j"
  by (auto simp: buildRow_def fun_eq_iff Let_def split: JoinType.splits)

lemma join_rest_cong:
  "same_join i j \<Longrightarrow> join_rest env cP secs i = join_rest env cP secs j"
  using buildRow_cong [of i j "nil_value env"] by (simp add: same_join_def join_rest_def is_outer_def)

lemma joinIter_Next_primary:
  assumes "loadPrimary env i = Some (i', None)" and "primaryRow i' = Some p"
  shows "joinIter_Next env i = joinIter_Next env i'"
proof -
  have "loadPrimary env i' = Some (i', None)" using assms(2) by (simp add: loadPrimary_def)
  then show ?thesis using assms(1) by (subst (1 2) joinIter_Next.simps) simp
qed

lemma joinIter_Next_end:
  assumes "primaryRow i = Some p" and "loadSecondary env i = Some (i', Inl EOF)" and "same_join i' i"
  shows "joinIter_Next env i =
    (if is_outer i \<and> \<not> foundMatch i
     then Some (i', case buildRow (nil_value env) i p None of Inl e \<Rightarrow> NErr e | Inr row \<Rightarrow> NRow row)
     else joinIter_Next env i')"
  using assms buildRow_cong [of i' i "nil_value env"]
  by (subst joinIter_Next.simps) (auto simp: loadPrimary_def same_join_def is_outer_def)

lemma joinIter_Next_row:
  assumes "primaryRow i = Some p" and "loadSecondary env i = Some (i', Inr s)" and "same_join i' i"
  shows "joinIter_Next env i =
    (case bindE (buildRow (nil_value env) i p (Some s)) (\<lambda>row.
        bindE (conditionIsTrue (cond_Eval env) row) (\<lambda>m. Inr (row, m))) of
       Inl e \<Rightarrow> Some (i', NErr e)
     | Inr (row, m) \<Rightarrow> if m then Some (i'\<lparr>foundMatch := True\<rparr>, NRow row) else joinIter_Next env i')"
  using assms buildRow_cong [of i' i "nil_value env"]
  by (subst joinIter_Next.simps) (auto simp: loadPrimary_def same_join_def split: sum.splits)

context join_over
begin

abbreviation "con \<equiv> join_contents env cP cS secs"
abbreviation "good \<equiv> \<lambda>i. active i \<or> join_ended gP cP i"
abbreviation "size_of \<equiv> \<lambda>i. length (fst (cP (primary i))) * (length secs + 2) +
  (case primaryRow i of None \<Rightarrow> 0 | Some _ \<Rightarrow> length (rem i) + 1)"

lemma con_None: "primaryRow i = None \<Longrightarrow> same_join i j \<Longrightarrow> con i = join_rest env cP secs j"
  using join_rest_cong [of i j env cP secs] by (simp add: join_contents_def)

lemma active_found [simp]: "active (i\<lparr>foundMatch := b\<rparr>) = active i"
  by (simp add: join_active_def split: option.splits)

lemma rem_found [simp]: "rem (i\<lparr>foundMatch := b\<rparr>) = rem i"
  by (simp add: remaining_def)

text \<open>With a primary row at hand.\<close>

lemma keeps_with_primary:
  assumes i: "active i" "primaryRow i = Some p"
    and IH: "\<And>j. size_of j < size_of i \<Longrightarrow> active j \<Longrightarrow> keeps (joinIter_Next env) con good j"
  shows "keeps (joinIter_Next env) con good i"
proof (cases "rem i")
  case Nil
  from loadSecondary_end [OF i this] obtain i' where i': "loadSecondary env i = Some (i', Inl EOF)" "active i'"
    "primaryRow i' = None" "same_join i' i" by blast
  note nxt = joinIter_Next_end [OF i(2) i'(1,4)]
  have c: "con i' = join_rest env cP secs i" by (rule con_None [OF i'(3,4)])
  show ?thesis
  proof (cases "is_outer i \<and> \<not> foundMatch i")
    case True
    with nxt c i i' Nil show ?thesis
      by (auto simp: keeps_def join_contents_def [of _ _ _ _ i] split: sum.splits)
  next
    case False
    have "con i = con i'" using False i Nil c by (auto simp: join_contents_def [of _ _ _ _ i])
    moreover have "joinIter_Next env i = joinIter_Next env i'" using nxt False by auto
    moreover have "keeps (joinIter_Next env) con good i'"
      using IH [of i'] i' i(2) by (simp add: same_join_def)
    ultimately show ?thesis by (metis keeps_eq)
  qed
next
  case (Cons s ss)
  from loadSecondary_row [OF i Cons] obtain i' where i': "loadSecondary env i = Some (i', Inr s)" "active i'"
    "primaryRow i' = Some p" "rem i' = ss" "same_join i' i" by blast
  note nxt = joinIter_Next_row [OF i(2) i'(1,5)]
  have c: "con (i'\<lparr>foundMatch := b\<rparr>) = match_rows (buildRow (nil_value env) i) (conditionIsTrue (cond_Eval env))
      (is_outer i) p b ss (join_rest env cP secs i)" for b
    using i' buildRow_cong [of "i'\<lparr>foundMatch := b\<rparr>" i "nil_value env"]
      join_rest_cong [of "i'\<lparr>foundMatch := foundMatch i\<rparr>" i env cP secs]
    by (simp add: join_contents_def same_join_def is_outer_def join_rest_def)
  show ?thesis
  proof (cases "bindE (buildRow (nil_value env) i p (Some s)) (\<lambda>row.
      bindE (conditionIsTrue (cond_Eval env) row) (\<lambda>m. Inr (row, m)))")
    case (Inl e)
    with nxt i Cons show ?thesis by (simp add: keeps_def join_contents_def [of _ _ _ _ i])
  next
    case (Inr rm)
    obtain row m where rm: "rm = (row, m)" by fastforce
    show ?thesis
    proof (cases m)
      case True
      with Inr rm nxt i i' Cons c [of True] show ?thesis
        by (simp add: keeps_def join_contents_def [of _ _ _ _ i])
    next
      case False
      have "con i = con (i'\<lparr>foundMatch := foundMatch i'\<rparr>)"
        using False Inr rm i i' Cons c by (simp add: join_contents_def [of _ _ _ _ i] same_join_def)
      then have "con i = con i'" by simp
      moreover have "joinIter_Next env i = joinIter_Next env i'" using nxt Inr rm False by simp
      moreover have "keeps (joinIter_Next env) con good i'"
        using IH [of i'] i' i(2) Cons by (simp add: same_join_def)
      ultimately show ?thesis by (metis keeps_eq)
    qed
  qed
qed

lemma keeps_active: "active i \<Longrightarrow> keeps (joinIter_Next env) con good i"
proof (induction "size_of i" arbitrary: i rule: less_induct)
  case less
  show ?case
  proof (cases "primaryRow i")
    case (Some p)
    with less show ?thesis by (intro keeps_with_primary [of i p]) auto
  next
    case None
    have "gP (primary i)" using less.prems by (simp add: join_active_def)
    then show ?thesis
    proof (cases rule: P.nxt_cases)
      case (Row r rs e s')
      let ?i = "i\<lparr>primary := s', primaryRow := Some r, foundMatch := False\<rparr>"
      note p = loadPrimary_active [OF less.prems None Row(2,3)]
      have "size_of ?i < size_of i" using Row None p(3) by simp
      then have "keeps (joinIter_Next env) con good ?i" using less.hyps p(2) by blast
      moreover have "joinIter_Next env i = joinIter_Next env ?i" by (rule joinIter_Next_primary [OF p(1)]) simp
      moreover have "con i = con ?i"
        using Row None p(3) buildRow_cong [of ?i i "nil_value env"]
        by (simp add: join_contents_def join_rest_def is_outer_def)
      ultimately show ?thesis by (metis keeps_eq)
    next
      case (EOF s')
      with None show ?thesis unfolding keeps_def
        by (subst joinIter_Next.simps)
           (simp add: loadPrimary_def Dispose_def join_contents_def join_rest_def join_ended_def)
    next
      case (Err e s')
      with None show ?thesis unfolding keeps_def
        by (subst joinIter_Next.simps) (simp add: loadPrimary_def join_contents_def join_rest_def)
    qed
  qed
qed

lemma keeps_ended: "join_ended gP cP i \<Longrightarrow> keeps (joinIter_Next env) con good i"
proof -
  assume i: "join_ended gP cP i"
  then have "gP (primary i)" by (simp add: join_ended_def)
  then show ?thesis
    by (cases rule: P.nxt_cases)
      (use i in \<open>auto simp: keeps_def join_ended_def join_contents_def join_rest_def loadPrimary_def Dispose_def
         joinIter_Next.simps [of env i]\<close>)
qed

end

sublocale join_over \<subseteq> join: row_iter "joinIter_Next env" "join_contents env cP cS secs"
    "\<lambda>i. join_active env gP cS gS usable secs i \<or> join_ended gP cP i"
  by (rule row_iterI) (use keeps_active keeps_ended in blast)

end
