(* ===== verification/Join_Plans.thy ===== *)
theory Join_Plans
  imports Join_Iter Query_Plans
begin

text \<open>
  Joins of two sets of rows, with the secondary rows kept in a rows cache of the memory manager: what they
  return, and where the iterator does not do what it should.
\<close>

section \<open>Joins over slices\<close>

definition slice_env :: "'l \<Rightarrow> Reporter \<Rightarrow> nat \<times> u64 \<Rightarrow> (row \<Rightarrow> sql_error + val) \<Rightarrow> row list
      \<Rightarrow> (row sliceRowIter, row sliceRowIter, ('l, unit, row) MemoryManager, val) joinEnv" where
  "slice_env l rep c eval secs =
     \<lparr>primary_Next = sliceRowIter_Next, secondary_Next = sliceRowIter_Next,
      secondaryProvider = Inr (RowsToRowIter secs), cond_Eval = eval,
      cache_Add = (\<lambda>m r. rows_Add l rep (fst c) r m), cache_Get = rows_Get (fst c),
      cache_Dispose = DisposeFunc c, HasAvailable = HasAvailableMemory rep, nil_value = VNil\<rparr>"

definition newJoinIter :: "JoinType \<Rightarrow> joinMode \<Rightarrow> nat \<Rightarrow> row list \<Rightarrow> ('l, unit, row) MemoryManager
      \<Rightarrow> (row sliceRowIter, row sliceRowIter, ('l, unit, row) MemoryManager, val) joinIter" where
  "newJoinIter ty md rsize prims m =
     \<lparr>j_typ = ty, primary = RowsToRowIter prims, secondary = None, primaryRow = None, foundMatch = False,
      rowSize = rsize, mode = md, secondaryRows = m, pos = 0, has_dispose = True\<rparr>"

text \<open>
  \<^verbatim>\<open>joinRowIter\<close>, with the children given by their rows and the lengths of their schemas. A right join has
  the right side as primary side. \<open>useMem\<close> and \<open>sessMem\<close> are the two settings to join in memory.
\<close>

definition joinRowIter where
  "joinRowIter l rep useMem sessMem ty nl nr left right eval m =
     (let md = (if useMem \<or> sessMem then memoryMode else unknownMode); (c, m') = NewRowsCache m in
      if ty = JoinTypeRight
      then (slice_env l rep c eval left, newJoinIter ty md (nl + nr) right m')
      else (slice_env l rep c eval right, newJoinIter ty md (nl + nr) left m'))"

text \<open>
  \<^verbatim>\<open>Close\<close> forgets the secondary iterator before it could close it, so only the primary one is closed.
\<close>

definition joinIter_Close :: "('s, 'b, 'c, 'v) joinEnv \<Rightarrow> ('s \<Rightarrow> 's \<times> sql_error option) \<Rightarrow> ('s, 'b, 'c, 'v) joinIter
      \<Rightarrow> ('s, 'b, 'c, 'v) joinIter \<times> sql_error option" where
  "joinIter_Close env close_primary i =
     (let i = (Dispose env i)\<lparr>secondary := None\<rparr>; (s, e) = close_primary (primary i) in (i\<lparr>primary := s\<rparr>, e))"

lemma NewRowsCache_empty:
  assumes "NewRowsCache m = (c, m')"
  shows "rows_Get (fst c) m' = []" "fst c < length (cache_heap m')" "cache_heap m' ! fst c = RowsCache (Some [])"
  using assms by (auto simp: NewRowsCache_def new_cache_def addCache_def rows_Get_def Let_def)

text \<open>Memory that was available is still available when it is asked for again, after freeing at the latest.\<close>

definition steady :: "Reporter \<Rightarrow> bool" where
  "steady rep \<longleftrightarrow> MaxMemory rep = 0 \<or>
     (\<forall>k. UsedMemory rep k < MaxMemory rep \<longrightarrow>
        UsedMemory rep (k + 1) < MaxMemory rep \<or> UsedMemory rep (k + 2) < MaxMemory rep)"

lemma rows_Add_steady:
  assumes "steady rep" and "is_rows a m" and "HasAvailableMemory rep m = (True, m1)"
  shows "\<exists>m2. rows_Add l rep a r m1 = (Inr (), m2) \<and> is_rows a m2 \<and> rows_Get a m2 = rows_Get a m @ [r]"
proof -
  from assms(2) obtain rs where rs: "cache_heap m ! a = RowsCache (Some rs)" "a < length (cache_heap m)"
    by (auto simp: is_rows_def)
  from assms(3) have m1: "cache_heap m1 = cache_heap m" "MaxMemory rep = 0 \<or>
      UsedMemory rep (readings m) < MaxMemory rep \<and> readings m1 = Suc (readings m)"
    by (auto simp: HasAvailableMemory_def split: if_splits)
  obtain av m' where rel: "releaseMemoryIfNeeded rep [Free l] m1 = (av, m')" by fastforce
  with m1(2) assms(1) have av
    by (auto simp: HasAvailableMemory_def steady_def Free_def split: if_splits)
  moreover from releaseMemory_heap [OF rel, of a] m1(1) rs
  have "cache_heap m' ! a = RowsCache (Some rs)" "a < length (cache_heap m')" by (auto simp: Free_one_def)
  ultimately show ?thesis using rel rs m1(1)
    by (auto simp: rows_Add_def rows_Get_def is_rows_def)
qed

lemma slice_join_over:
  assumes "steady rep" and "secs \<noteq> []"
  shows "join_over (slice_env l rep c eval secs) slice_contents (\<lambda>_. True) slice_contents (\<lambda>_. True)
    (is_rows (fst c)) secs (RowsToRowIter secs)"
proof (intro join_over.intro join_over_axioms.intro)
  show "row_iter (primary_Next (slice_env l rep c eval secs)) slice_contents (\<lambda>_. True)"
    "row_iter (secondary_Next (slice_env l rep c eval secs)) slice_contents (\<lambda>_. True)"
    by (simp_all add: slice_env_def slice.row_iter_axioms)
qed (use assms rows_Add_steady [OF assms(1)] in \<open>auto simp: slice_env_def\<close>)

context join_over
begin

lemma join_RowIterToRows:
  assumes "join_active env gP cS gS usable secs i \<or> join_ended gP cP i" and "\<And>s. cls s = None"
  shows "RowIterToRows (joinIter_Next env) cls i = Some (todo_result (join_contents env cP cS secs i))"
  using assms by (intro join.RowIterToRows_contents) simp_all

end

text \<open>With no memory limit the contract holds without further conditions.\<close>

definition unlimited :: Reporter where
  "unlimited = \<lparr>MaxMemory = 0, UsedMemory = \<lambda>_. 0\<rparr>"

interpretation unl: join_over "slice_env l unlimited c eval (s # ss)" slice_contents "\<lambda>_. True" slice_contents
    "\<lambda>_. True" "is_rows (fst c)" "s # ss" "RowsToRowIter (s # ss)" for l c eval s ss
  by (rule slice_join_over) (simp_all add: steady_def unlimited_def)

section \<open>What a join should return\<close>

definition combine :: "JoinType \<Rightarrow> row \<Rightarrow> row \<Rightarrow> row" where
  "combine ty p s = (if ty = JoinTypeRight then s @ p else p @ s)"

definition join_spec :: "JoinType \<Rightarrow> nat \<Rightarrow> (row \<Rightarrow> val) \<Rightarrow> row list \<Rightarrow> row list \<Rightarrow> row list" where
  "join_spec ty ns cond prims secs =
     concat (map (\<lambda>p.
       let ms = filter (\<lambda>row. cond row = VBool True) (map (combine ty p) secs) in
       if ms = [] \<and> ty \<noteq> JoinTypeInner then [combine ty p (replicate ns VNil)] else ms) prims)"

lemma copy_at_fits: "length xs + k \<le> length row \<Longrightarrow> copy_at k xs row = take k row @ xs @ drop (k + length xs) row"
  by (simp add: copy_at_def)

lemma buildRow_fits:
  assumes "rowSize i = length p + length s"
  shows "buildRow VNil i p (Some s) = Inr (combine (j_typ i) p s)"
    and "buildRow VNil i p None = Inr (combine (j_typ i) p (replicate (length s) VNil))"
  using assms by (auto simp: buildRow_def combine_def copy_at_def Let_def split: JoinType.splits)

lemma match_rows_total:
  assumes "\<And>s. s \<in> set secs \<Longrightarrow> bld p (Some s) = Inr (comb s) \<and> cond (comb s) = Inr (P (comb s))"
    and "bld p None = Inr none"
  shows "match_rows bld cond outer p found secs rest =
    append_todo ((let ms = filter P (map comb secs) in
      if ms = [] \<and> outer \<and> \<not> found then [none] else ms), None) rest"
  using assms(1)
  by (induction secs arbitrary: found)
     (auto simp: assms(2) append_todo_def cons_row_def Let_def bindE_def split: sum.splits)

lemma join_rows_total:
  assumes "\<And>p s. p \<in> set prims \<Longrightarrow> s \<in> set secs \<Longrightarrow>
      bld p (Some s) = Inr (comb p s) \<and> cond (comb p s) = Inr (P (comb p s))"
    and "\<And>p. p \<in> set prims \<Longrightarrow> bld p None = Inr (none p)"
  shows "join_rows bld cond outer secs prims None =
    (concat (map (\<lambda>p. let ms = filter P (map (comb p) secs) in
       if ms = [] \<and> outer then [none p] else ms) prims), None)"
  using assms
proof (induction prims)
  case (Cons p prims)
  then show ?case
    using match_rows_total [of secs bld p "comb p" cond P "none p" outer False] by (simp add: append_todo_def)
qed simp

lemma join_prims_good:
  assumes "steady rep" and "secs \<noteq> []"
    and "join_active (slice_env l rep c (\<lambda>row. Inr (cond row)) secs) (\<lambda>_. True) slice_contents (\<lambda>_. True) (is_rows (fst c)) secs
        (newJoinIter ty md (np + ns) prims m) \<or>
      join_ended (\<lambda>_. True) slice_contents (newJoinIter ty md (np + ns) prims m)"
    and "\<And>p. p \<in> set prims \<Longrightarrow> length p = np" and "\<And>s. s \<in> set secs \<Longrightarrow> length s = ns"
  shows "RowIterToRows (joinIter_Next (slice_env l rep c (\<lambda>row. Inr (cond row)) secs)) no_close
      (newJoinIter ty md (np + ns) prims m) = Some (Inr (join_spec ty ns cond prims secs))"
proof -
  let ?env = "slice_env l rep c (\<lambda>row. Inr (cond row)) secs"
  let ?i = "newJoinIter ty md (np + ns) prims m"
  note ov = slice_join_over [OF assms(1,2), of l c "\<lambda>row. Inr (cond row)"]
  have "RowIterToRows (joinIter_Next ?env) no_close ?i =
    Some (todo_result (join_contents ?env slice_contents slice_contents secs ?i))"
    using assms(3) by (intro join_over.join_RowIterToRows [OF ov]) simp_all
  also have "join_contents ?env slice_contents slice_contents secs ?i =
    join_rows (buildRow VNil ?i) (conditionIsTrue (\<lambda>row. Inr (cond row))) (ty \<noteq> JoinTypeInner) secs prims None"
    by (cases ty) (simp_all add: join_contents_def join_rest_def slice_env_def is_outer_def newJoinIter_def)
  also have "\<dots> = (join_spec ty ns cond prims secs, None)"
    unfolding join_spec_def
  proof (rule join_rows_total)
    fix p s assume "p \<in> set prims" "s \<in> set secs"
    then show "buildRow VNil ?i p (Some s) = Inr (combine ty p s) \<and>
        conditionIsTrue (\<lambda>row. Inr (cond row)) (combine ty p s) = Inr (cond (combine ty p s) = VBool True)"
      using assms(4,5) buildRow_fits(1) [of ?i p s] by (simp add: newJoinIter_def conditionIsTrue_def)
  next
    fix p assume "p \<in> set prims"
    then show "buildRow VNil ?i p None = Inr (combine ty p (replicate ns VNil))"
      using assms(4) buildRow_fits(2) [of ?i p "replicate ns VNil"] by (simp add: newJoinIter_def)
  qed
  finally show ?thesis by simp
qed

text \<open>A join that is to run in memory reads all secondary rows into its cache for the first primary row.\<close>

lemma load_loop_slice:
  assumes "ample rep" and "is_rows (fst c) m"
  shows "\<exists>m'. load_loop (slice_env l rep c eval secs) it m = Some (None, m') \<and> is_rows (fst c) m' \<and>
    rows_Get (fst c) m' = rows_Get (fst c) m @ drop (idx it) (rows it)"
  using assms(2)
proof (induction "length (rows it) - idx it" arbitrary: it m)
  case 0
  then show ?case by (subst load_loop.simps) (simp add: slice_env_def sliceRowIter_Next_def)
next
  case (Suc n)
  then have lt: "idx it < length (rows it)" by simp
  let ?it = "it\<lparr>idx := idx it + 1\<rparr>"
  from rows_Add_ample [OF assms(1) Suc.prems, of l "rows it ! idx it"] obtain m1 where
    m1: "rows_Add l rep (fst c) (rows it ! idx it) m = (Inr (), m1)" "is_rows (fst c) m1"
      "rows_Get (fst c) m1 = rows_Get (fst c) m @ [rows it ! idx it]" by blast
  have "load_loop (slice_env l rep c eval secs) it m = load_loop (slice_env l rep c eval secs) ?it m1"
    using lt m1(1) by (subst load_loop.simps) (simp add: slice_env_def sliceRowIter_Next_def)
  with Suc.hyps(1) [of ?it m1] Suc.hyps(2) m1 Cons_nth_drop_Suc [OF lt] show ?case by simp
qed

lemma joinIter_Next_fills:
  assumes "ample rep" and "is_rows (fst c) m" and "rows_Get (fst c) m = []" and "secs \<noteq> []"
  shows "\<exists>m'. joinIter_Next (slice_env l rep c eval secs) (newJoinIter ty memoryMode n (p # ps) m) =
      joinIter_Next (slice_env l rep c eval secs) (newJoinIter ty memoryMode n (p # ps) m') \<and> rows_Get (fst c) m' = secs"
proof -
  let ?env = "slice_env l rep c eval secs"
  from load_loop_slice [OF assms(1,2), of l eval secs "RowsToRowIter secs"] assms(3) obtain m' where
    m': "load_loop ?env (RowsToRowIter secs) m = Some (None, m')" "rows_Get (fst c) m' = secs"
    by (auto simp: RowsToRowIter_def)
  have "joinIter_Next ?env (newJoinIter ty memoryMode n (p # ps) m) =
      joinIter_Next ?env (newJoinIter ty memoryMode n (p # ps) m')"
    by (subst (1 2) joinIter_Next.simps)
      (use m' assms(3,4) in \<open>simp add: loadPrimary_def newJoinIter_def loadSecondary_def loadSecondary_memory_def
        loadSecondaryInMemory_def slice_env_def sliceRowIter_Next_def RowsToRowIter_def\<close>)
  with m'(2) show ?thesis by blast
qed

lemma RowIterToRows_first: "nxt i = nxt j \<Longrightarrow> RowIterToRows nxt cls i = RowIterToRows nxt cls j"
  unfolding RowIterToRows_def by (subst (1 2) RowIterToRows_loop.simps) simp

text \<open>Memory as a join needs it in each of the two modes in which it starts.\<close>

definition memory_ok :: "joinMode \<Rightarrow> Reporter \<Rightarrow> bool" where
  "memory_ok md rep = (if md = memoryMode then ample rep else steady rep)"

lemma ample_steady: "ample rep \<Longrightarrow> steady rep"
  by (auto simp: ample_def steady_def)

lemma join_prims_correct:
  assumes "memory_ok md rep" and "md \<noteq> multipassMode" and "secs \<noteq> []" and "is_rows (fst c) m" and "rows_Get (fst c) m = []"
    and "\<And>p. p \<in> set prims \<Longrightarrow> length p = np" and "\<And>s. s \<in> set secs \<Longrightarrow> length s = ns"
  shows "RowIterToRows (joinIter_Next (slice_env l rep c (\<lambda>row. Inr (cond row)) secs)) no_close
      (newJoinIter ty md (np + ns) prims m) = Some (Inr (join_spec ty ns cond prims secs))"
proof (cases "md = memoryMode \<and> prims \<noteq> []")
  case True
  then obtain p ps where prims: "prims = p # ps" by (cases prims) auto
  from True assms(1) have rep: "ample rep" by (simp add: memory_ok_def)
  from joinIter_Next_fills [OF rep assms(4,5,3), of l "\<lambda>row. Inr (cond row)" ty "np + ns" p ps] obtain m' where
    m': "joinIter_Next (slice_env l rep c (\<lambda>row. Inr (cond row)) secs) (newJoinIter ty memoryMode (np + ns) prims m) =
      joinIter_Next (slice_env l rep c (\<lambda>row. Inr (cond row)) secs) (newJoinIter ty memoryMode (np + ns) prims m')"
      "rows_Get (fst c) m' = secs" by (auto simp: prims)
  have "RowIterToRows (joinIter_Next (slice_env l rep c (\<lambda>row. Inr (cond row)) secs)) no_close
      (newJoinIter ty memoryMode (np + ns) prims m') = Some (Inr (join_spec ty ns cond prims secs))"
    by (rule join_prims_good [OF ample_steady [OF rep] assms(3) _ assms(6,7)])
      (use m'(2) in \<open>simp_all add: join_active_def newJoinIter_def slice_env_def\<close>)
  with RowIterToRows_first [OF m'(1), of no_close] True show ?thesis by simp
next
  case False
  have "steady rep" using assms(1) by (auto simp: memory_ok_def ample_steady split: if_splits)
  then show ?thesis
    by (rule join_prims_good [OF _ assms(3) _ assms(6,7)])
      (use False assms(2,4,5) in \<open>auto simp: join_active_def join_ended_def newJoinIter_def slice_env_def slice_contents_def RowsToRowIter_def\<close>)
qed

text \<open>The sides in terms of left and right.\<close>

definition sql_join :: "JoinType \<Rightarrow> nat \<Rightarrow> nat \<Rightarrow> (row \<Rightarrow> val) \<Rightarrow> row list \<Rightarrow> row list \<Rightarrow> row list" where
  "sql_join ty nl nr cond left right = (case ty of
     JoinTypeInner \<Rightarrow> [a @ b. a \<leftarrow> left, b \<leftarrow> right, cond (a @ b) = VBool True]
   | JoinTypeLeft \<Rightarrow> concat (map (\<lambda>a. case [a @ b. b \<leftarrow> right, cond (a @ b) = VBool True] of
        [] \<Rightarrow> [a @ replicate nr VNil] | ms \<Rightarrow> ms) left)
   | JoinTypeRight \<Rightarrow> concat (map (\<lambda>b. case [a @ b. a \<leftarrow> left, cond (a @ b) = VBool True] of
        [] \<Rightarrow> [replicate nl VNil @ b] | ms \<Rightarrow> ms) right))"

lemma filter_map_comprehension: "filter P (map f xs) = [f x. x \<leftarrow> xs, P (f x)]"
  by (induction xs) auto

lemma sql_join_eq:
  "sql_join ty nl nr cond left right = (if ty = JoinTypeRight then join_spec ty nl cond right left
     else join_spec ty nr cond left right)"
proof -
  have "(case xs of [] \<Rightarrow> [r] | y # ys \<Rightarrow> y # ys) = (if xs = [] then [r] else xs)" for xs and r :: row
    by (cases xs) auto
  then show ?thesis
    by (cases ty) (simp_all only: sql_join_def join_spec_def combine_def Let_def filter_map_comprehension
        JoinType.case JoinType.distinct simp_thms if_True if_False)
qed



section \<open>Where the join iterator goes wrong\<close>

text \<open>With no secondary rows, memory mode keeps the primary row.\<close>

lemma loadSecondary_no_rows:
  assumes "mode i = memoryMode" and "rows_Get (fst c) (secondaryRows i) = []"
  shows "loadSecondary (slice_env l rep c eval []) i = Some (i, Inl EOF)"
proof -
  have "sliceRowIter_Next (RowsToRowIter ([] :: row list)) = Some (RowsToRowIter [], NEOF)"
    by (simp add: sliceRowIter_Next_def RowsToRowIter_def)
  then have "load_loop (slice_env l rep c eval []) (RowsToRowIter []) m = Some (None, m)" for m
    by (subst load_loop.simps) (simp add: slice_env_def)
  then show ?thesis
    using assms by (simp add: loadSecondary_def loadSecondary_memory_def loadSecondaryInMemory_def)
      (simp add: slice_env_def)
qed

definition stuck where
  "stuck c p i \<longleftrightarrow> mode i = memoryMode \<and> rows_Get (fst c) (secondaryRows i) = [] \<and> primaryRow i = Some p \<and> \<not> foundMatch i"

lemma stuck_inner:
  assumes "stuck c p i" and "j_typ i = JoinTypeInner"
  shows "joinIter_Next (slice_env l rep c eval []) i = None"
proof -
  let ?env = "slice_env l rep c eval []"
  have "\<not> (e = ?env \<and> stuck c p j \<and> j_typ j = JoinTypeInner)" if "joinIter_Next e j = Some y" for e j y
  proof (rule joinIter_Next.raw_induct [OF _ that], goal_cases)
    case (1 nxt e j y)
    show ?case
    proof
      assume j: "e = ?env \<and> stuck c p j \<and> j_typ j = JoinTypeInner"
      then have "loadPrimary ?env j = Some (j, None)" "loadSecondary ?env j = Some (j, Inl EOF)"
        "primaryRow j = Some p"
        by (simp_all add: loadPrimary_def stuck_def loadSecondary_no_rows)
      with 1(2) j have "nxt ?env j = Some y" by simp
      with 1(1) j show False by blast
    qed
  qed
  with assms show ?thesis by (metis not_None_eq)
qed

lemma stuck_outer:
  assumes "stuck c p i" and "j_typ i \<noteq> JoinTypeInner" and "length p \<le> rowSize i"
  shows "\<exists>row. joinIter_Next (slice_env l rep c eval []) i = Some (i, NRow row)"
proof -
  let ?env = "slice_env l rep c eval []"
  have "loadPrimary ?env i = Some (i, None)" "loadSecondary ?env i = Some (i, Inl EOF)" "primaryRow i = Some p"
    "\<not> foundMatch i"
    using assms(1) by (simp_all add: loadPrimary_def stuck_def loadSecondary_no_rows)
  with assms(2,3) show ?thesis
    by (subst joinIter_Next.simps) (cases "j_typ i"; simp add: buildRow_def Let_def)
qed

lemma stuck_outer_read_n:
  assumes "stuck c p i" and "j_typ i \<noteq> JoinTypeInner" and "length p \<le> rowSize i"
  shows "length (read_n (joinIter_Next (slice_env l rep c eval [])) n i) = n"
  using stuck_outer [OF assms, of l rep eval] by (induction n) auto

text \<open>The first primary row switches to memory mode, the second one gets stuck.\<close>

definition second_primary where
  "second_primary i p1 p2 ps = i\<lparr>primary := \<lparr>rows = p1 # p2 # ps, idx = 2\<rparr>, primaryRow := Some p2, mode := memoryMode\<rparr>"

lemma first_primary_switches:
  fixes p1 p2 :: row and ps m c l rep eval ty n
  assumes "length p1 \<le> n"
  defines "i \<equiv> newJoinIter ty unknownMode n (p1 # p2 # ps) m"
  shows "if ty = JoinTypeInner
    then joinIter_Next (slice_env l rep c eval []) i = joinIter_Next (slice_env l rep c eval []) (second_primary i p1 p2 ps)
    else \<exists>j row. joinIter_Next (slice_env l rep c eval []) i = Some (j, NRow row) \<and>
      joinIter_Next (slice_env l rep c eval []) j = joinIter_Next (slice_env l rep c eval []) (second_primary i p1 p2 ps)"
proof -
  let ?env = "slice_env l rep c eval []"
  let ?i1 = "i\<lparr>primary := \<lparr>rows = p1 # p2 # ps, idx = 1\<rparr>, primaryRow := Some p1\<rparr>"
  let ?i2 = "?i1\<lparr>primaryRow := None, mode := memoryMode\<rparr>"
  have i1: "joinIter_Next ?env i = joinIter_Next ?env ?i1"
    by (rule joinIter_Next_primary)
      (simp_all add: i_def newJoinIter_def loadPrimary_def slice_env_def sliceRowIter_Next_def RowsToRowIter_def)
  have "loadSecondary ?env ?i1 = Some (?i2, Inl EOF)"
    by (simp add: loadSecondary_def i_def newJoinIter_def slice_env_def sliceRowIter_Next_def RowsToRowIter_def)
  note n1 = joinIter_Next_end [OF _ this, of p1]
  have i2: "joinIter_Next ?env ?i2 = joinIter_Next ?env (second_primary i p1 p2 ps)"
    by (rule joinIter_Next_primary)
      (simp_all add: i_def newJoinIter_def loadPrimary_def slice_env_def sliceRowIter_Next_def second_primary_def)
  show ?thesis
    using i1 n1 i2 assms(1)
    by (cases ty) (auto simp: same_join_def is_outer_def i_def newJoinIter_def buildRow_def Let_def)
qed

lemma newJoinIter_diverges:
  assumes "rows_Get (fst c) m = []" and "length p1 \<le> n" and "length p2 \<le> n"
  shows "if ty = JoinTypeInner
    then joinIter_Next (slice_env l rep c eval []) (newJoinIter ty unknownMode n (p1 # p2 # ps) m) = None
    else \<forall>k. length (read_n (joinIter_Next (slice_env l rep c eval [])) k (newJoinIter ty unknownMode n (p1 # p2 # ps) m)) = k"
proof -
  let ?i = "newJoinIter ty unknownMode n (p1 # p2 # ps) m" and ?env = "slice_env l rep c eval []"
  let ?j = "second_primary ?i p1 p2 ps"
  have j: "stuck c p2 ?j" "length p2 \<le> rowSize ?j" "j_typ ?j = ty"
    using assms(1,3) by (simp_all add: stuck_def second_primary_def newJoinIter_def)
  have read: "read_n (joinIter_Next ?env) k i = read_n (joinIter_Next ?env) k i'"
    if "joinIter_Next ?env i = joinIter_Next ?env i'" for k i i' using that by (cases k) simp_all
  show ?thesis
  proof (cases "ty = JoinTypeInner")
    case True
    with stuck_inner [OF j(1)] j(3) first_primary_switches [OF assms(2), where ty = ty and ps = ps and m = m and ?p2.0 = p2
          and l = l and rep = rep and c = c and eval = eval] show ?thesis by simp
  next
    case False
    with first_primary_switches [OF assms(2), where ty = ty and ps = ps and m = m and ?p2.0 = p2
          and l = l and rep = rep and c = c and eval = eval] obtain j row where
      "joinIter_Next ?env ?i = Some (j, NRow row)" "joinIter_Next ?env j = joinIter_Next ?env ?j" by auto
    then have "length (read_n (joinIter_Next ?env) k ?i) = k" for k
      using False read [of j ?j] stuck_outer_read_n [OF j(1) _ j(2)] j(3) by (cases k) auto
    with False show ?thesis by simp
  qed
qed

text \<open>C27. With an empty secondary side and two or more primary rows, an inner join never returns from its first
  \<^verbatim>\<open>Next\<close>, and a left or right join returns rows for ever: in memory mode \<^verbatim>\<open>loadSecondary\<close> reports the end of
  the secondary rows without going on to the next primary row.\<close>

theorem join_empty_secondary_diverges:
  assumes "length p1 \<le> nl + nr" and "length p2 \<le> nl + nr"
    and "(if ty = JoinTypeRight then right = p1 # p2 # ps \<and> left = [] else left = p1 # p2 # ps \<and> right = [])"
  shows "case joinRowIter l rep False False ty nl nr left right eval m of (env, i) \<Rightarrow>
    if ty = JoinTypeInner then joinIter_Next env i = None else \<forall>k. length (read_n (joinIter_Next env) k i) = k"
proof -
  obtain c m' where c: "NewRowsCache m = (c, m')" by fastforce
  from newJoinIter_diverges [OF NewRowsCache_empty(1) [OF c] assms(1,2), of ty l rep eval ps] assms(3) show ?thesis
    by (auto simp: joinRowIter_def c split: if_splits)
qed

theorem join_empty_secondary_diverges_witness:
  "case joinRowIter () unlimited False False JoinTypeInner 1 1 [[VInt64 1], [VInt64 2]] [] (\<lambda>row. Inr (VBool True))
      NewMemoryManager of (env, i) \<Rightarrow> joinIter_Next env i = None"
  using join_empty_secondary_diverges [of "[VInt64 1]" 1 1 "[VInt64 2]" JoinTypeInner "[]" "[]" "[[VInt64 1], [VInt64 2]]"
      "()" unlimited "\<lambda>row. Inr (VBool True)" NewMemoryManager]
  by simp

text \<open>Memory that runs out and becomes free again: the second and the third reading find none.\<close>

definition flaky :: Reporter where
  "flaky = \<lparr>MaxMemory = 10, UsedMemory = \<lambda>k. if k = 1 \<or> k = 2 then 20 else 5\<rparr>"

lemmas join_run = NewRowsCache_def new_cache_def NewMemoryManager_def addCache_def slice_env_def joinRowIter_def newJoinIter_def
  loadPrimary_def loadSecondary_def remember_def loadSecondary_memory_def RowsToRowIter_def sliceRowIter_Next_def
  HasAvailableMemory_def rows_Add_def rows_Get_def Free_def Free_one_def flaky_def buildRow_def copy_at_def
  conditionIsTrue_def Dispose_def DisposeFunc_def close_result_def

text \<open>If memory runs out between the two checks of the first pass, the row is not cached, yet the iterator
  goes on as if it were: it later joins in memory with an incomplete cache, and combinations are lost.\<close>

lemma join_loses_rows:
  "(case joinRowIter () flaky False False JoinTypeInner 1 1 [[p1], [p2]] [[s1], [s2]] (\<lambda>row. Inr (VBool True))
      NewMemoryManager of (env, i) \<Rightarrow> RowIterToRows (joinIter_Next env) no_close i) =
     Some (Inr [[p1, s1], [p1, s2], [p2, s2]]) \<and>
   sql_join JoinTypeInner 1 1 (\<lambda>row. VBool True) [[p1], [p2]] [[s1], [s2]] = [[p1, s1], [p1, s2], [p2, s1], [p2, s2]]"
  apply (simp add: join_run sql_join_def RowIterToRows_def)
  apply (subst RowIterToRows_loop.simps, subst joinIter_Next.simps, simp add: join_run)
  apply (subst RowIterToRows_loop.simps, subst joinIter_Next.simps, simp add: join_run)
  apply (subst RowIterToRows_loop.simps, subst joinIter_Next.simps, simp add: join_run)
  apply (subst joinIter_Next.simps, simp add: join_run)
  apply (subst RowIterToRows_loop.simps, subst joinIter_Next.simps, simp add: join_run)
  apply (subst joinIter_Next.simps, simp add: join_run)
  done

end
