(* ===== verification/Lock_Subsystem.thy ===== *)
theory Lock_Subsystem
  imports Go_Prelude
begin

unbundle bit_operations_syntax

text \<open>
  The named locks of \<^verbatim>\<open>sql/lock_subsystem.go\<close> together with the lock sets of the sessions
  (\<^verbatim>\<open>sql/session.go\<close>), as a system of sessions that run concurrently.

  Every session runs at most one call at a time. A call is split at its accesses to shared memory: looking up
  the cell of a lock, creating it, the atomic load of its pointer and the compare-and-swap. A step of a
  session is one such access with the local work up to the next one. The clock is an argument of the steps:
  whether \<^verbatim>\<open>time.Since(start) < timeout\<close> holds when it is asked, and so is the order in which \<^verbatim>\<open>range\<close>
  visits the lock set. Pointers are addresses of a heap that only grows, since an object that is referenced
  is not reused.
\<close>

section \<open>State\<close>

record ownedLock =
  Owner :: i64
  Count :: i64

abbreviation zeroLock :: ownedLock where
  "zeroLock \<equiv> \<lparr>Owner = 0, Count = 0\<rparr>"

text \<open>
  \<open>locks\<close> maps a name to a cell (the \<^verbatim>\<open>**ownedLock\<close>), a cell holds the address of the current value.
  \<open>session_locks\<close> are the lock sets of the sessions, by session id.
\<close>

record LockSubsystem =
  locks :: "(string, nat) gomap"
  cells :: "nat list"
  lock_heap :: "ownedLock list"
  session_locks :: "u32 \<Rightarrow> (string, bool) gomap"

definition NewLockSubsystem :: LockSubsystem where
  "NewLockSubsystem = \<lparr>locks = [], cells = [], lock_heap = [], session_locks = (\<lambda>_. [])\<rparr>"

definition getNamedLock :: "LockSubsystem \<Rightarrow> string \<Rightarrow> nat option" where
  "getNamedLock ls name = map_of (locks ls) name"

definition new_lock :: "ownedLock \<Rightarrow> LockSubsystem \<Rightarrow> nat \<times> LockSubsystem" where
  "new_lock v ls = (length (lock_heap ls), ls\<lparr>lock_heap := lock_heap ls @ [v]\<rparr>)"

definition createLock :: "LockSubsystem \<Rightarrow> string \<Rightarrow> nat \<times> LockSubsystem" where
  "createLock ls name = (case map_of (locks ls) name of
     Some nl \<Rightarrow> (nl, ls)
   | None \<Rightarrow> (let (p, ls) = new_lock zeroLock ls; nl = length (cells ls) in
       (nl, ls\<lparr>cells := cells ls @ [p], locks := AList.update name nl (locks ls)\<rparr>)))"

definition CompareAndSwap :: "nat \<Rightarrow> nat \<Rightarrow> ownedLock \<Rightarrow> LockSubsystem \<Rightarrow> bool \<times> LockSubsystem" where
  "CompareAndSwap nl cur v ls =
     (let (p, ls) = new_lock v ls in
      if cells ls ! nl = cur then (True, ls\<lparr>cells := (cells ls)[nl := p]\<rparr>) else (False, ls))"

abbreviation load :: "LockSubsystem \<Rightarrow> nat \<Rightarrow> ownedLock" where
  "load ls nl \<equiv> lock_heap ls ! (cells ls ! nl)"

subsection \<open>The lock sets of the sessions\<close>

definition AddLock :: "u32 \<Rightarrow> string \<Rightarrow> LockSubsystem \<Rightarrow> LockSubsystem" where
  "AddLock sid name ls =
     ls\<lparr>session_locks := (session_locks ls)(sid := AList.update name True (session_locks ls sid))\<rparr>"

definition DelLock :: "u32 \<Rightarrow> string \<Rightarrow> LockSubsystem \<Rightarrow> LockSubsystem" where
  "DelLock sid name ls =
     ls\<lparr>session_locks := (session_locks ls)(sid := AList.delete name (session_locks ls sid))\<rparr>"

section \<open>The calls\<close>

datatype call = CLock string i64 | CUnlock string | CReleaseAll

datatype result = ROk | RErr sql_error | RCount nat

text \<open>Where a session is: in \<^verbatim>\<open>Lock\<close>, \<^verbatim>\<open>Unlock\<close> or \<^verbatim>\<open>ReleaseAll\<close>, or done with a call.\<close>

datatype pc =
    Idle
  | Lock_get string i64
  | Lock_create string i64
  | Lock_load string i64 nat bool
  | Lock_cas string i64 nat nat ownedLock bool
  | Lock_add string i64
  | Unlock_get string
  | Unlock_load string nat
  | Unlock_cas string nat nat ownedLock
  | Unlock_del string
  | Release_iter "string list" nat
  | Release_load nat "string list" nat
  | Release_cas nat nat "string list" nat
  | Done call result

definition int64_of :: "u32 \<Rightarrow> i64" where
  "int64_of sid = ucast sid"

fun start :: "LockSubsystem \<Rightarrow> u32 \<Rightarrow> string list \<Rightarrow> call \<Rightarrow> pc option" where
  "start ls sid ord (CLock name timeout) = Some (Lock_get name timeout)"
| "start ls sid ord (CUnlock name) = Some (Unlock_get name)"
| "start ls sid ord CReleaseAll =
     (if mset ord = mset (keys (session_locks ls sid)) then Some (Release_iter ord 0) else None)"

text \<open>
  One step of a session. \<open>within\<close> tells whether the time has not run out. In \<^verbatim>\<open>Lock_load\<close> the flag tells
  whether this is the first round of the loop, in \<^verbatim>\<open>Lock_cas\<close> whether the lock was free.
\<close>

definition lock_load :: "bool \<Rightarrow> u32 \<Rightarrow> string \<Rightarrow> i64 \<Rightarrow> nat \<Rightarrow> bool \<Rightarrow> LockSubsystem \<Rightarrow> pc" where
  "lock_load within sid name timeout nl first ls =
     (if first \<or> timeout <s 0 \<or> within then
        let cur = cells ls ! nl; currLock = lock_heap ls ! cur; userId = int64_of sid in
        if Owner currLock = 0 then Lock_cas name timeout nl cur \<lparr>Owner = userId, Count = 1\<rparr> True
        else if Owner currLock = userId
          then Lock_cas name timeout nl cur \<lparr>Owner = userId, Count = Count currLock + 1\<rparr> False
        else Lock_load name timeout nl False
      else Done (CLock name timeout) (RErr (ErrLockTimeout name)))"

definition unlock_load :: "u32 \<Rightarrow> string \<Rightarrow> nat \<Rightarrow> LockSubsystem \<Rightarrow> pc" where
  "unlock_load sid name nl ls =
     (let cur = cells ls ! nl; currLock = lock_heap ls ! cur; userId = int64_of sid in
      if Owner currLock \<noteq> userId then Done (CUnlock name) (RErr (ErrLockNotOwned ''unlock'' name))
      else Unlock_cas name nl cur
        (if 1 <s Count currLock then \<lparr>Owner = userId, Count = Count currLock - 1\<rparr> else zeroLock))"

fun step :: "bool \<Rightarrow> u32 \<Rightarrow> pc \<Rightarrow> LockSubsystem \<Rightarrow> pc \<times> LockSubsystem" where
  "step within sid (Lock_get name timeout) ls =
     (case getNamedLock ls name of
        None \<Rightarrow> (Lock_create name timeout, ls)
      | Some nl \<Rightarrow> (Lock_load name timeout nl True, ls))"
| "step within sid (Lock_create name timeout) ls =
     (let (nl, ls') = createLock ls name in (Lock_load name timeout nl True, ls'))"
| "step within sid (Lock_load name timeout nl first) ls = (lock_load within sid name timeout nl first ls, ls)"
| "step within sid (Lock_cas name timeout nl cur v free) ls =
     (let (ok, ls') = CompareAndSwap nl cur v ls in
      (if \<not> ok then Lock_load name timeout nl False
       else if free then Lock_add name timeout else Done (CLock name timeout) ROk, ls'))"
| "step within sid (Lock_add name timeout) ls = (Done (CLock name timeout) ROk, AddLock sid name ls)"
| "step within sid (Unlock_get name) ls =
     (case getNamedLock ls name of
        None \<Rightarrow> (Done (CUnlock name) (RErr (ErrLockDoesNotExist name)), ls)
      | Some nl \<Rightarrow> (Unlock_load name nl, ls))"
| "step within sid (Unlock_load name nl) ls = (unlock_load sid name nl ls, ls)"
| "step within sid (Unlock_cas name nl cur v) ls =
     (let (ok, ls') = CompareAndSwap nl cur v ls in
      (if \<not> ok then Unlock_load name nl
       else if Count v = 0 then Unlock_del name else Done (CUnlock name) ROk, ls'))"
| "step within sid (Unlock_del name) ls = (Done (CUnlock name) ROk, DelLock sid name ls)"
| "step within sid (Release_iter [] n) ls = (Done CReleaseAll (RCount n), ls)"
| "step within sid (Release_iter (name # names) n) ls =
     (case getNamedLock ls name of
        None \<Rightarrow> (Release_iter names n, ls)
      | Some nl \<Rightarrow> (Release_load nl names n, ls))"
| "step within sid (Release_load nl names n) ls =
     (let cur = cells ls ! nl in
      if Owner (lock_heap ls ! cur) \<noteq> int64_of sid then (Release_iter names n, ls)
      else (Release_cas nl cur names n, ls))"
| "step within sid (Release_cas nl cur names n) ls =
     (let (ok, ls') = CompareAndSwap nl cur zeroLock ls in
      (if ok then Release_iter names (n + 1) else Release_load nl names n, ls'))"
| "step within sid pc ls = (pc, ls)"

section \<open>Runs\<close>

fun busy :: "pc \<Rightarrow> bool" where
  "busy Idle = False"
| "busy (Done c r) = False"
| "busy _ = True"

text \<open>Session 0 is not used: its id marks a lock that nobody owns.\<close>

inductive reachable :: "(u32 \<Rightarrow> pc) \<Rightarrow> LockSubsystem \<Rightarrow> bool" where
  init: "reachable (\<lambda>_. Idle) NewLockSubsystem"
| call: "reachable P ls \<Longrightarrow> P sid = Idle \<Longrightarrow> sid \<noteq> 0 \<Longrightarrow> start ls sid ord c = Some p \<Longrightarrow> reachable (P(sid := p)) ls"
| work: "reachable P ls \<Longrightarrow> busy (P sid) \<Longrightarrow> step within sid (P sid) ls = (p, ls') \<Longrightarrow> reachable (P(sid := p)) ls'"
| return: "reachable P ls \<Longrightarrow> P sid = Done c r \<Longrightarrow> reachable (P(sid := Idle)) ls"

section \<open>Invariant\<close>

text \<open>The value of a lock, and who owns it.\<close>

definition lock_of :: "LockSubsystem \<Rightarrow> string \<Rightarrow> ownedLock option" where
  "lock_of ls name = map_option (load ls) (map_of (locks ls) name)"

definition owned :: "LockSubsystem \<Rightarrow> u32 \<Rightarrow> string \<Rightarrow> bool" where
  "owned ls sid name \<longleftrightarrow> (\<exists>v. lock_of ls name = Some v \<and> Owner v = int64_of sid)"

definition heap_ok :: "LockSubsystem \<Rightarrow> bool" where
  "heap_ok ls \<longleftrightarrow>
     (\<forall>name nl. map_of (locks ls) name = Some nl \<longrightarrow> nl < length (cells ls)) \<and>
     (\<forall>n1 n2 nl. map_of (locks ls) n1 = Some nl \<longrightarrow> map_of (locks ls) n2 = Some nl \<longrightarrow> n1 = n2) \<and>
     (\<forall>p \<in> set (cells ls). p < length (lock_heap ls))"

definition swap_ok :: "LockSubsystem \<Rightarrow> string \<Rightarrow> nat \<Rightarrow> nat \<Rightarrow> bool" where
  "swap_ok ls name nl cur \<longleftrightarrow> map_of (locks ls) name = Some nl \<and> cur < length (lock_heap ls)"

text \<open>What holds of a session at each point of its call.\<close>

fun pc_ok :: "LockSubsystem \<Rightarrow> u32 \<Rightarrow> pc \<Rightarrow> bool" where
  "pc_ok ls sid (Lock_load name timeout nl first) \<longleftrightarrow> map_of (locks ls) name = Some nl"
| "pc_ok ls sid (Lock_cas name timeout nl cur v free) \<longleftrightarrow> swap_ok ls name nl cur \<and>
     (if free then Owner (lock_heap ls ! cur) = 0 \<and> v = \<lparr>Owner = int64_of sid, Count = 1\<rparr>
      else Owner (lock_heap ls ! cur) = int64_of sid \<and>
        v = \<lparr>Owner = int64_of sid, Count = Count (lock_heap ls ! cur) + 1\<rparr>)"
| "pc_ok ls sid (Lock_add name timeout) \<longleftrightarrow> owned ls sid name"
| "pc_ok ls sid (Done (CLock name timeout) ROk) \<longleftrightarrow> owned ls sid name"
| "pc_ok ls sid (Unlock_load name nl) \<longleftrightarrow> map_of (locks ls) name = Some nl"
| "pc_ok ls sid (Unlock_cas name nl cur v) \<longleftrightarrow> swap_ok ls name nl cur \<and> Owner (lock_heap ls ! cur) = int64_of sid \<and>
     v = (if 1 <s Count (lock_heap ls ! cur)
          then \<lparr>Owner = int64_of sid, Count = Count (lock_heap ls ! cur) - 1\<rparr> else zeroLock)"
| "pc_ok ls sid (Unlock_del name) \<longleftrightarrow> \<not> owned ls sid name"
| "pc_ok ls sid (Release_iter names n) \<longleftrightarrow> (\<forall>x. owned ls sid x \<longrightarrow> x \<in> set names)"
| "pc_ok ls sid (Release_load nl names n) \<longleftrightarrow>
     (\<exists>name. map_of (locks ls) name = Some nl \<and> (\<forall>x. owned ls sid x \<longrightarrow> x = name \<or> x \<in> set names))"
| "pc_ok ls sid (Release_cas nl cur names n) \<longleftrightarrow>
     (\<exists>name. swap_ok ls name nl cur \<and> Owner (lock_heap ls ! cur) = int64_of sid \<and>
       (\<forall>x. owned ls sid x \<longrightarrow> x = name \<or> x \<in> set names))"
| "pc_ok ls sid (Done CReleaseAll r) \<longleftrightarrow> (\<forall>x. \<not> owned ls sid x)"
| "pc_ok ls sid _ \<longleftrightarrow> True"

definition registered :: "LockSubsystem \<Rightarrow> u32 \<Rightarrow> pc \<Rightarrow> bool" where
  "registered ls sid p \<longleftrightarrow>
     (\<forall>name. owned ls sid name \<longrightarrow> map_of (session_locks ls sid) name \<noteq> None \<or> (\<exists>timeout. p = Lock_add name timeout))"

definition sys_ok :: "(u32 \<Rightarrow> pc) \<Rightarrow> LockSubsystem \<Rightarrow> bool" where
  "sys_ok P ls \<longleftrightarrow> heap_ok ls \<and>
     (\<forall>sid. if sid = 0 then P sid = Idle else pc_ok ls sid (P sid) \<and> registered ls sid (P sid))"

section \<open>What a step does to the locks\<close>

text \<open>The effect of a step of a session on one lock, seen from outside.\<close>

inductive effect :: "u32 \<Rightarrow> ownedLock option \<Rightarrow> ownedLock option \<Rightarrow> bool" for sid where
  same: "effect sid v v"
| create: "effect sid None (Some zeroLock)"
| acquire: "Owner v = 0 \<Longrightarrow> effect sid (Some v) (Some \<lparr>Owner = int64_of sid, Count = 1\<rparr>)"
| again: "Owner v = int64_of sid \<Longrightarrow> effect sid (Some v) (Some \<lparr>Owner = int64_of sid, Count = Count v + 1\<rparr>)"
| release: "Owner v = int64_of sid \<Longrightarrow> 1 <s Count v \<Longrightarrow>
    effect sid (Some v) (Some \<lparr>Owner = int64_of sid, Count = Count v - 1\<rparr>)"
| free: "Owner v = int64_of sid \<Longrightarrow> effect sid (Some v) (Some zeroLock)"

lemma int64_of_inj [simp]: "int64_of a = int64_of b \<longleftrightarrow> a = b"
  unfolding int64_of_def by transfer simp

lemma int64_of_0 [simp]: "int64_of 0 = 0"
  by (simp add: int64_of_def)

lemma int64_of_eq_0 [simp]: "int64_of a = 0 \<longleftrightarrow> a = 0" "0 = int64_of a \<longleftrightarrow> a = 0"
  using int64_of_inj [of a 0] by (auto simp del: int64_of_inj)

text \<open>What the other sessions may rely on.\<close>

definition grows :: "LockSubsystem \<Rightarrow> LockSubsystem \<Rightarrow> bool" where
  "grows ls ls' \<longleftrightarrow> (\<forall>name nl. map_of (locks ls) name = Some nl \<longrightarrow> map_of (locks ls') name = Some nl) \<and>
     (\<forall>p < length (lock_heap ls). p < length (lock_heap ls') \<and> lock_heap ls' ! p = lock_heap ls ! p)"

definition rely :: "u32 \<Rightarrow> LockSubsystem \<Rightarrow> LockSubsystem \<Rightarrow> bool" where
  "rely sid ls ls' \<longleftrightarrow> grows ls ls' \<and> owned ls' sid = owned ls sid \<and> session_locks ls' sid = session_locks ls sid"

lemma effect_owned:
  "(\<And>name. effect sid (lock_of ls name) (lock_of ls' name)) \<Longrightarrow> sid' \<noteq> sid \<Longrightarrow> sid' \<noteq> 0 \<Longrightarrow>
   owned ls' sid' name = owned ls sid' name"
  unfolding owned_def by (erule_tac x = name in meta_allE, erule effect.cases) auto

lemma pc_ok_rely: "pc_ok ls sid p \<Longrightarrow> rely sid ls ls' \<Longrightarrow> pc_ok ls' sid p"
  by (cases "(ls, sid, p)" rule: pc_ok.cases)
     (auto simp: rely_def grows_def swap_ok_def split: if_splits, blast)

lemma registered_rely: "registered ls sid p \<Longrightarrow> rely sid ls ls' \<Longrightarrow> registered ls' sid p"
  by (auto simp: registered_def rely_def)

subsection \<open>Creating a lock\<close>

lemma createLock_spec:
  assumes ok: "heap_ok ls" and new: "createLock ls name = (nl, ls')"
  shows "heap_ok ls'" and "map_of (locks ls') name = Some nl" and "grows ls ls'"
    and "session_locks ls' = session_locks ls"
    and "lock_of ls' x = (if x = name \<and> lock_of ls name = None then Some zeroLock else lock_of ls x)"
proof -
  have "heap_ok ls' \<and> map_of (locks ls') name = Some nl \<and> grows ls ls' \<and> session_locks ls' = session_locks ls \<and>
    lock_of ls' x = (if x = name \<and> lock_of ls name = None then Some zeroLock else lock_of ls x)"
  proof (cases "map_of (locks ls) name")
    case (Some nl')
    with ok new show ?thesis by (auto simp: createLock_def grows_def lock_of_def)
  next
    case None
    have cell: "nl' < length (cells ls) \<and> cells ls ! nl' < length (lock_heap ls)" if "map_of (locks ls) y = Some nl'" for y nl'
      using that ok by (auto simp: heap_ok_def)
    from None new have ls': "nl = length (cells ls)" "ls' = ls\<lparr>lock_heap := lock_heap ls @ [zeroLock],
        cells := cells ls @ [length (lock_heap ls)], locks := AList.update name nl (locks ls)\<rparr>"
      by (auto simp: createLock_def new_lock_def Let_def)
    have "heap_ok ls'"
      using ok cell by (fastforce simp: ls' heap_ok_def less_Suc_eq)
    moreover have "lock_of ls' x = (if x = name \<and> lock_of ls name = None then Some zeroLock else lock_of ls x)"
      using None cell [of x] by (auto simp: ls' lock_of_def nth_append map_option_case split: option.splits)
    ultimately show ?thesis using None by (simp add: ls' grows_def nth_append)
  qed
  then show "heap_ok ls'" and "map_of (locks ls') name = Some nl" and "grows ls ls'"
    and "session_locks ls' = session_locks ls"
    and "lock_of ls' x = (if x = name \<and> lock_of ls name = None then Some zeroLock else lock_of ls x)"
    by simp_all
qed

subsection \<open>Swapping a lock\<close>

lemma CompareAndSwap_spec:
  assumes ok: "heap_ok ls" and swap: "swap_ok ls name nl cur" and cas: "CompareAndSwap nl cur v ls = (done, ls')"
  shows "heap_ok ls'" and "grows ls ls'" and "session_locks ls' = session_locks ls" and "locks ls' = locks ls"
    and "lock_of ls' x = (if done \<and> x = name then Some v else lock_of ls x)"
    and "done \<Longrightarrow> lock_of ls name = Some (lock_heap ls ! cur)"
proof -
  have cell: "nl' < length (cells ls) \<and> cells ls ! nl' < length (lock_heap ls)" if "map_of (locks ls) y = Some nl'" for y nl'
    using that ok by (auto simp: heap_ok_def)
  from cas have ls': "done = (cells ls ! nl = cur)" "ls' = ls\<lparr>lock_heap := lock_heap ls @ [v],
      cells := if done then (cells ls)[nl := length (lock_heap ls)] else cells ls\<rparr>"
    by (auto simp: CompareAndSwap_def new_lock_def Let_def split: if_splits)
  show "heap_ok ls'"
    using ok by (auto simp: ls' heap_ok_def less_Suc_eq dest!: subsetD [OF set_update_subset_insert])
  show "grows ls ls'" "session_locks ls' = session_locks ls" "locks ls' = locks ls"
    by (simp_all add: ls' grows_def nth_append)
  have "n1 = n2" if "map_of (locks ls) n1 = Some nl'" "map_of (locks ls) n2 = Some nl'" for n1 n2 nl'
    using ok that by (auto simp: heap_ok_def)
  then show "lock_of ls' x = (if done \<and> x = name then Some v else lock_of ls x)"
    using swap cell [of x] cell [of name nl]
    by (auto simp: ls' lock_of_def nth_append nth_list_update swap_ok_def map_option_case split: option.splits)
  show "done \<Longrightarrow> lock_of ls name = Some (lock_heap ls ! cur)"
    using swap by (simp add: ls' lock_of_def swap_ok_def)
qed

text \<open>A step changes the locks by one of the effects, and keeps what the other sessions rely on.\<close>

lemma grows_refl [simp]: "grows ls ls"
  by (simp add: grows_def)

lemma lock_of_session [simp]:
  "lock_of (AddLock sid name ls) = lock_of ls" "lock_of (DelLock sid name ls) = lock_of ls"
  by (simp_all add: fun_eq_iff lock_of_def AddLock_def DelLock_def)

lemma heap_ok_session [simp]:
  "heap_ok (AddLock sid name ls) = heap_ok ls" "heap_ok (DelLock sid name ls) = heap_ok ls"
  by (simp_all add: heap_ok_def AddLock_def DelLock_def)

lemma grows_session [simp]: "grows ls (AddLock sid name ls)" "grows ls (DelLock sid name ls)"
  by (simp_all add: grows_def AddLock_def DelLock_def)

lemma owned_session [simp]:
  "owned (AddLock sid name ls) = owned ls" "owned (DelLock sid name ls) = owned ls"
  by (simp_all add: fun_eq_iff owned_def)

lemma session_locks_session [simp]:
  "session_locks (AddLock sid name ls) sid' =
     (if sid' = sid then AList.update name True (session_locks ls sid) else session_locks ls sid')"
  "session_locks (DelLock sid name ls) sid' =
     (if sid' = sid then AList.delete name (session_locks ls sid) else session_locks ls sid')"
  by (simp_all add: AddLock_def DelLock_def)

text \<open>The steps that swap a lock are those of the calls' compare-and-swap.\<close>

lemma swap_effect:
  assumes "heap_ok ls" and "swap_ok ls name nl cur" and "CompareAndSwap nl cur v ls = (done, ls')"
    and "effect sid (Some (lock_heap ls ! cur)) (Some v)"
  shows "heap_ok ls' \<and> grows ls ls' \<and> effect sid (lock_of ls x) (lock_of ls' x) \<and> session_locks ls' = session_locks ls"
  using CompareAndSwap_spec [OF assms(1-3)] assms(4) by (auto intro: effect.same)

lemma step_effect:
  assumes "heap_ok ls" and "pc_ok ls sid p" and "step within sid p ls = (p', ls')"
  shows "heap_ok ls' \<and> grows ls ls' \<and> effect sid (lock_of ls x) (lock_of ls' x) \<and>
    (\<forall>sid'. sid' \<noteq> sid \<longrightarrow> session_locks ls' sid' = session_locks ls sid')"
  using assms
proof (induction within sid p ls rule: step.induct)
  case (2 within sid name timeout ls)
  then obtain nl where "createLock ls name = (nl, ls')" by (auto split: prod.splits)
  from createLock_spec [OF 2(1) this] show ?case by (auto intro: effect.intros)
next
  case (4 within sid name timeout nl cur v free ls)
  obtain ok where "CompareAndSwap nl cur v ls = (ok, ls')" using 4(3) by (auto split: prod.splits)
  moreover have "effect sid (Some (lock_heap ls ! cur)) (Some v)"
    using 4(2) by (auto intro: effect.intros split: if_splits)
  ultimately show ?case using swap_effect [of ls name nl cur v ok ls' sid x] 4(1,2) by simp
next
  case (8 within sid name nl cur v ls)
  obtain ok where "CompareAndSwap nl cur v ls = (ok, ls')" using 8(3) by (auto split: prod.splits)
  moreover have "effect sid (Some (lock_heap ls ! cur)) (Some v)"
    using 8(2) by (auto intro: effect.intros split: if_splits)
  ultimately show ?case using swap_effect [of ls name nl cur v ok ls' sid x] 8(1,2) by simp
next
  case (13 within sid nl cur names n ls)
  obtain ok where "CompareAndSwap nl cur zeroLock ls = (ok, ls')" using 13(3) by (auto split: prod.splits)
  moreover obtain name where "swap_ok ls name nl cur" "Owner (lock_heap ls ! cur) = int64_of sid" using 13(2) by auto
  ultimately show ?case using swap_effect [of ls name nl cur zeroLock ok ls' sid x] 13(1) effect.free by simp
qed (auto intro: effect.same simp: Let_def split: option.splits if_splits)

text \<open>The session itself goes on in a consistent state.\<close>

lemma owned_effect: "lock_of ls' x = lock_of ls x \<Longrightarrow> owned ls' sid x = owned ls sid x"
  by (simp add: owned_def)

lemma swap_owned:
  assumes "heap_ok ls" and "swap_ok ls name nl cur" and "CompareAndSwap nl cur v ls = (done, ls')"
  shows "owned ls' sid x = (if done \<and> x = name then Owner v = int64_of sid else owned ls sid x)"
    and "session_locks ls' = session_locks ls" and "locks ls' = locks ls"
    and "done \<Longrightarrow> owned ls sid name = (Owner (lock_heap ls ! cur) = int64_of sid)"
  using CompareAndSwap_spec [OF assms] by (auto simp: owned_def)

lemma lock_load_ok:
  assumes "heap_ok ls" and "map_of (locks ls) name = Some nl" and "sid \<noteq> 0"
  shows "pc_ok ls sid (lock_load within sid name timeout nl first ls)"
  using assms by (auto simp: lock_load_def Let_def swap_ok_def heap_ok_def)

lemma unlock_load_ok:
  assumes "heap_ok ls" and "map_of (locks ls) name = Some nl"
  shows "pc_ok ls sid (unlock_load sid name nl ls)"
  using assms by (auto simp: unlock_load_def Let_def swap_ok_def heap_ok_def)

lemma load_not_add [simp]: "lock_load within sid name timeout nl first ls \<noteq> Lock_add n t"
  "unlock_load sid name nl ls \<noteq> Lock_add n t"
  by (auto simp: lock_load_def unlock_load_def Let_def)

lemma createLock_owned:
  assumes "heap_ok ls" and "createLock ls name = (nl, ls')" and "sid \<noteq> 0"
  shows "owned ls' sid x = owned ls sid x" and "session_locks ls' = session_locks ls"
    and "map_of (locks ls') name = Some nl"
  using createLock_spec [OF assms(1,2)] assms(3) by (auto simp: owned_def)

lemma owned_iff:
  "map_of (locks ls) name = Some nl \<Longrightarrow> owned ls sid name \<longleftrightarrow> Owner (load ls nl) = int64_of sid"
  "map_of (locks ls) name = None \<Longrightarrow> \<not> owned ls sid name"
  by (simp_all add: owned_def lock_of_def)

lemma step_pc_ok:
  assumes "heap_ok ls" and "pc_ok ls sid p" and "registered ls sid p" and "step within sid p ls = (p', ls')"
    and "sid \<noteq> 0"
  shows "pc_ok ls' sid p' \<and> registered ls' sid p'"
  using assms
proof (induction within sid p ls rule: step.induct)
  case (2 within sid name timeout ls)
  then obtain nl where "createLock ls name = (nl, ls')" "p' = Lock_load name timeout nl True" by (auto split: prod.splits)
  with createLock_owned [OF 2(1) _ 2(5)] 2 show ?case by (simp add: registered_def)
next
  case (3 within sid name timeout nl first ls)
  with lock_load_ok [of ls name nl sid] show ?case by (auto simp: registered_def)
next
  case (4 within sid name timeout nl cur v free ls)
  then obtain ok where ok: "CompareAndSwap nl cur v ls = (ok, ls')" by (auto split: prod.splits)
  with 4 swap_owned [OF 4(1) _ ok, of name] show ?case
    by (auto simp: registered_def swap_ok_def split: if_splits)
next
  case (7 within sid name nl ls)
  with unlock_load_ok [of ls name nl sid] show ?case by (auto simp: registered_def)
next
  case (8 within sid name nl cur v ls)
  then obtain ok where ok: "CompareAndSwap nl cur v ls = (ok, ls')" by (auto split: prod.splits)
  with 8 swap_owned [OF 8(1) _ ok, of name] show ?case
    by (auto simp: registered_def swap_ok_def split: if_splits)
next
  case (13 within sid nl cur names n ls)
  then obtain ok where ok: "CompareAndSwap nl cur zeroLock ls = (ok, ls')" by (auto split: prod.splits)
  from 13(2) obtain name where "swap_ok ls name nl cur" "\<forall>x. owned ls sid x \<longrightarrow> x = name \<or> x \<in> set names" by auto
  with ok 13 swap_owned [OF 13(1) _ ok, of name] show ?case
    by (auto simp: registered_def swap_ok_def split: if_splits)
next
  case (12 within sid nl names n ls)
  then obtain name where name: "map_of (locks ls) name = Some nl" "\<forall>x. owned ls sid x \<longrightarrow> x = name \<or> x \<in> set names"
    by auto
  with 12(1) have "swap_ok ls name nl (cells ls ! nl)" by (auto simp: swap_ok_def heap_ok_def)
  with 12 name owned_iff(1) [OF name(1), of sid] show ?case
    by (auto simp: registered_def Let_def split: if_splits)
next
  case (11 within sid name names n ls)
  with owned_iff(1) [of ls name _ sid] owned_iff(2) [of ls name sid] show ?case
    by (auto simp: registered_def getNamedLock_def split: option.splits)
qed (auto simp: registered_def getNamedLock_def split: option.splits if_splits)

lemma step_rely:
  assumes "heap_ok ls" and "pc_ok ls sid p" and "step within sid p ls = (p', ls')" and "sid' \<noteq> sid" and "sid' \<noteq> 0"
  shows "rely sid' ls ls'"
proof -
  note eff = step_effect [OF assms(1-3)]
  have "owned ls' sid' x = owned ls sid' x" for x
    using eff assms(4,5) by (intro effect_owned [of sid]) auto
  with eff assms(4) show ?thesis by (auto simp: rely_def fun_eq_iff)
qed

lemma sys_okD:
  assumes "sys_ok P ls"
  shows "heap_ok ls" "P 0 = Idle" "sid \<noteq> 0 \<Longrightarrow> pc_ok ls sid (P sid) \<and> registered ls sid (P sid)"
  using assms by (auto simp: sys_ok_def split: if_splits)

lemma sys_ok_at:
  assumes "sys_ok P ls" and "P sid \<noteq> Idle"
  shows "sid \<noteq> 0" "pc_ok ls sid (P sid)" "registered ls sid (P sid)"
  using sys_okD(2) [OF assms(1)] sys_okD(3) [OF assms(1), of sid] assms(2) by auto

lemma sys_ok_upd:
  assumes "heap_ok ls'" and "sid \<noteq> 0" and "P 0 = Idle" and "pc_ok ls' sid p" and "registered ls' sid p"
    and "\<And>s. s \<noteq> sid \<Longrightarrow> s \<noteq> 0 \<Longrightarrow> pc_ok ls' s (P s) \<and> registered ls' s (P s)"
  shows "sys_ok (P(sid := p)) ls'"
  using assms by (auto simp: sys_ok_def)

lemma start_ok:
  assumes "registered ls sid Idle" and "start ls sid ord c = Some p"
  shows "pc_ok ls sid p \<and> registered ls sid p"
proof (cases c)
  case CReleaseAll
  with assms(2) have "mset ord = mset (keys (session_locks ls sid))" and p: "p = Release_iter ord 0"
    by (auto simp del: mset_map split: if_splits)
  then have ord: "set ord = set (keys (session_locks ls sid))" by (intro mset_eq_setD)
  have "x \<in> set ord" if "owned ls sid x" for x
  proof -
    from that assms(1) obtain y where "map_of (session_locks ls sid) x = Some y" by (auto simp: registered_def)
    then have "(x, y) \<in> set (session_locks ls sid)" by (rule map_of_SomeD)
    then show ?thesis unfolding ord by force
  qed
  with p assms(1) show ?thesis by (auto simp: registered_def)
qed (use assms in \<open>auto simp: registered_def\<close>)

lemma reachable_ok: "reachable P ls \<Longrightarrow> sys_ok P ls"
proof (induction rule: reachable.induct)
  case init
  show ?case by (simp add: sys_ok_def heap_ok_def NewLockSubsystem_def registered_def owned_def lock_of_def)
next
  case (call P ls sid ord c p)
  note ok = sys_okD [OF call.IH]
  from ok(3) call.hyps have "registered ls sid Idle" by metis
  from start_ok [OF this call.hyps(4)] ok call.hyps show ?case by (intro sys_ok_upd) auto
next
  case (work P ls sid within p ls')
  from work.hyps(2) have "P sid \<noteq> Idle" by auto
  note at = sys_ok_at [OF work.IH this] and ok = sys_okD [OF work.IH]
  have "pc_ok ls' s (P s) \<and> registered ls' s (P s)" if "s \<noteq> sid" "s \<noteq> 0" for s
    using ok(3) [OF that(2)] step_rely [OF ok(1) at(2) work.hyps(3) that] pc_ok_rely registered_rely by blast
  with at ok step_pc_ok [OF ok(1) at(2,3) work.hyps(3) at(1)] step_effect [OF ok(1) at(2) work.hyps(3)]
  show ?case by (intro sys_ok_upd) auto
next
  case (return P ls sid c r)
  then have "P sid \<noteq> Idle" by auto
  note at = sys_ok_at [OF return.IH this] and ok = sys_okD [OF return.IH]
  have "registered ls sid Idle" using at(3) return.hyps(2) by (auto simp: registered_def)
  with at ok show ?case by (intro sys_ok_upd) auto
qed

section \<open>Calls that run undisturbed\<close>

text \<open>
  A session runs alone until its call returns; \<open>None\<close> if it takes more steps. \<open>clock\<close> tells for every step
  whether the time has not run out then.
\<close>

fun run :: "nat \<Rightarrow> (nat \<Rightarrow> bool) \<Rightarrow> u32 \<Rightarrow> pc \<Rightarrow> LockSubsystem \<Rightarrow> (result \<times> LockSubsystem) option" where
  "run n clock sid (Done c r) ls = Some (r, ls)"
| "run 0 clock sid p ls = None"
| "run (Suc n) clock sid p ls =
     (case step (clock 0) sid p ls of (p', ls') \<Rightarrow> run n (\<lambda>k. clock (Suc k)) sid p' ls')"

text \<open>Where the session is after that many steps.\<close>

fun after :: "nat \<Rightarrow> (nat \<Rightarrow> bool) \<Rightarrow> u32 \<Rightarrow> pc \<Rightarrow> LockSubsystem \<Rightarrow> pc \<times> LockSubsystem" where
  "after 0 clock sid p ls = (p, ls)"
| "after (Suc n) clock sid p ls =
     (case step (clock 0) sid p ls of (p', ls') \<Rightarrow> after n (\<lambda>k. clock (Suc k)) sid p' ls')"

definition Lock_alone :: "(nat \<Rightarrow> bool) \<Rightarrow> u32 \<Rightarrow> string \<Rightarrow> i64 \<Rightarrow> LockSubsystem \<Rightarrow> (result \<times> LockSubsystem) option" where
  "Lock_alone clock sid name timeout ls = run 5 clock sid (Lock_get name timeout) ls"

text \<open>\<^verbatim>\<open>Unlock\<close> does not look at the time.\<close>

definition Unlock_alone :: "u32 \<Rightarrow> string \<Rightarrow> LockSubsystem \<Rightarrow> (result \<times> LockSubsystem) option" where
  "Unlock_alone sid name ls = run 4 (\<lambda>_. False) sid (Unlock_get name) ls"

definition count_of :: "LockSubsystem \<Rightarrow> u32 \<Rightarrow> string \<Rightarrow> i64" where
  "count_of ls sid name = (case lock_of ls name of
     Some v \<Rightarrow> if Owner v = int64_of sid then Count v else 0 | None \<Rightarrow> 0)"

definition is_free :: "LockSubsystem \<Rightarrow> string \<Rightarrow> bool" where
  "is_free ls name \<longleftrightarrow> (case lock_of ls name of None \<Rightarrow> True | Some v \<Rightarrow> Owner v = 0)"

text \<open>From the lookup to the first load.\<close>

lemma run_Lock_get:
  assumes "heap_ok ls"
  shows "\<exists>nl ls1 k clock'. run (Suc (Suc n)) clock sid (Lock_get name timeout) ls =
      run (n + k) clock' sid (Lock_load name timeout nl True) ls1 \<and> heap_ok ls1 \<and>
    map_of (locks ls1) name = Some nl \<and> session_locks ls1 = session_locks ls \<and>
    (\<forall>x. lock_of ls1 x = (if x = name \<and> lock_of ls name = None then Some zeroLock else lock_of ls x))"
proof (cases "map_of (locks ls) name")
  case None
  obtain nl ls1 where "createLock ls name = (nl, ls1)" by fastforce
  with None createLock_spec [OF assms this] show ?thesis
    by (intro exI [of _ nl] exI [of _ ls1] exI [of _ 0] exI [of _ "\<lambda>k. clock (Suc (Suc k))"]) (simp add: getNamedLock_def)
next
  case (Some nl)
  with assms show ?thesis
    by (intro exI [of _ nl] exI [of _ ls] exI [of _ 1] exI [of _ "\<lambda>k. clock (Suc k)"]) (simp add: getNamedLock_def lock_of_def)
qed

text \<open>A compare-and-swap right after the load succeeds.\<close>

lemma CompareAndSwap_alone:
  assumes "heap_ok ls" and "map_of (locks ls) name = Some nl"
  shows "\<exists>ls'. CompareAndSwap nl (cells ls ! nl) v ls = (True, ls') \<and> heap_ok ls' \<and>
    lock_of ls' = (lock_of ls)(name \<mapsto> v) \<and> session_locks ls' = session_locks ls"
proof -
  obtain ls' where cas: "CompareAndSwap nl (cells ls ! nl) v ls = (True, ls')"
    by (simp add: CompareAndSwap_def new_lock_def)
  moreover have "swap_ok ls name nl (cells ls ! nl)" using assms by (auto simp: swap_ok_def heap_ok_def)
  ultimately show ?thesis using CompareAndSwap_spec [OF assms(1) _ cas] by (fastforce simp: fun_eq_iff)
qed

lemma run_Lock_take:
  assumes "heap_ok ls" and "map_of (locks ls) name = Some nl" and "Owner (load ls nl) = 0" and "first \<or> timeout <s 0 \<or> clock 0"
  shows "\<exists>ls'. run (3 + k) clock sid (Lock_load name timeout nl first) ls = Some (ROk, ls') \<and> heap_ok ls' \<and>
    lock_of ls' = (lock_of ls)(name \<mapsto> \<lparr>Owner = int64_of sid, Count = 1\<rparr>) \<and>
    session_locks ls' = (session_locks ls)(sid := AList.update name True (session_locks ls sid))"
proof -
  from CompareAndSwap_alone [OF assms(1,2)] obtain ls' where
    "CompareAndSwap nl (cells ls ! nl) \<lparr>Owner = int64_of sid, Count = 1\<rparr> ls = (True, ls')" "heap_ok ls'"
    "lock_of ls' = (lock_of ls)(name \<mapsto> \<lparr>Owner = int64_of sid, Count = 1\<rparr>)" "session_locks ls' = session_locks ls"
    by blast
  with assms show ?thesis
    by (intro exI [of _ "AddLock sid name ls'"]) (simp add: eval_nat_numeral lock_load_def fun_eq_iff)
qed

lemma run_Lock_again:
  assumes "heap_ok ls" and "map_of (locks ls) name = Some nl" and "Owner (load ls nl) = int64_of sid" and "sid \<noteq> 0"
  shows "\<exists>ls'. run (3 + k) clock sid (Lock_load name timeout nl True) ls = Some (ROk, ls') \<and> heap_ok ls' \<and>
    lock_of ls' = (lock_of ls)(name \<mapsto> \<lparr>Owner = int64_of sid, Count = Count (load ls nl) + 1\<rparr>) \<and>
    session_locks ls' = session_locks ls"
proof -
  from CompareAndSwap_alone [OF assms(1,2)] obtain ls' where
    "CompareAndSwap nl (cells ls ! nl) \<lparr>Owner = int64_of sid, Count = Count (load ls nl) + 1\<rparr> ls = (True, ls')"
    "heap_ok ls'" "session_locks ls' = session_locks ls"
    "lock_of ls' = (lock_of ls)(name \<mapsto> \<lparr>Owner = int64_of sid, Count = Count (load ls nl) + 1\<rparr>)"
    by blast
  with assms show ?thesis
    by (intro exI [of _ ls']) (simp add: eval_nat_numeral lock_load_def Let_def)
qed

lemma Lock_alone_free:
  assumes "heap_ok ls" and "is_free ls name"
  shows "\<exists>ls'. Lock_alone clock sid name timeout ls = Some (ROk, ls') \<and> heap_ok ls' \<and>
    lock_of ls' = (lock_of ls)(name \<mapsto> \<lparr>Owner = int64_of sid, Count = 1\<rparr>) \<and>
    session_locks ls' = (session_locks ls)(sid := AList.update name True (session_locks ls sid))"
proof -
  from run_Lock_get [OF assms(1), of 3 clock sid name timeout] obtain nl ls1 k clock' where
    r: "Lock_alone clock sid name timeout ls = run (3 + k) clock' sid (Lock_load name timeout nl True) ls1" "heap_ok ls1"
      "map_of (locks ls1) name = Some nl" "session_locks ls1 = session_locks ls"
      "\<forall>x. lock_of ls1 x = (if x = name \<and> lock_of ls name = None then Some zeroLock else lock_of ls x)"
    by (auto simp: Lock_alone_def eval_nat_numeral)
  have "Owner (load ls1 nl) = 0"
    using r(5) [rule_format, of name] r(3) assms(2) by (auto simp: lock_of_def [of ls1] is_free_def split: option.splits)
  from run_Lock_take [OF r(2,3) this, of True timeout clock' k sid] r(1,4,5) show ?thesis by (auto simp: fun_eq_iff)
qed

lemma Lock_alone_again:
  assumes "heap_ok ls" and "owned ls sid name" and "sid \<noteq> 0"
  shows "\<exists>ls'. Lock_alone clock sid name timeout ls = Some (ROk, ls') \<and> heap_ok ls' \<and>
    lock_of ls' = (lock_of ls)(name \<mapsto> \<lparr>Owner = int64_of sid, Count = count_of ls sid name + 1\<rparr>) \<and>
    session_locks ls' = session_locks ls"
proof -
  from run_Lock_get [OF assms(1), of 3 clock sid name timeout] obtain nl ls1 k clock' where
    r: "Lock_alone clock sid name timeout ls = run (3 + k) clock' sid (Lock_load name timeout nl True) ls1" "heap_ok ls1"
      "map_of (locks ls1) name = Some nl" "session_locks ls1 = session_locks ls"
      "\<forall>x. lock_of ls1 x = (if x = name \<and> lock_of ls name = None then Some zeroLock else lock_of ls x)"
    by (auto simp: Lock_alone_def eval_nat_numeral)
  have l: "lock_of ls1 = lock_of ls" using r(5) assms(2) by (auto simp: fun_eq_iff owned_def)
  have v: "Owner (load ls1 nl) = int64_of sid" "Count (load ls1 nl) = count_of ls sid name"
    using assms(2) r(3) by (auto simp: l [symmetric] owned_def count_of_def) (auto simp: lock_of_def)
  from run_Lock_again [OF r(2,3) v(1) assms(3), of k clock' timeout] r(1,4) l v(2) show ?thesis by auto
qed

lemma Unlock_alone_owned:
  assumes "heap_ok ls" and "owned ls sid name"
  defines "c \<equiv> count_of ls sid name"
  shows "\<exists>ls'. Unlock_alone sid name ls = Some (ROk, ls') \<and> heap_ok ls' \<and>
    lock_of ls' = (lock_of ls)(name \<mapsto> (if 1 <s c then \<lparr>Owner = int64_of sid, Count = c - 1\<rparr> else zeroLock)) \<and>
    session_locks ls' = (if 1 <s c then session_locks ls
      else (session_locks ls)(sid := AList.delete name (session_locks ls sid)))"
proof -
  from assms(2) obtain nl where nl: "map_of (locks ls) name = Some nl" "Owner (load ls nl) = int64_of sid"
    by (auto simp: owned_def lock_of_def)
  then have c: "Count (load ls nl) = c" by (simp add: c_def count_of_def lock_of_def)
  let ?v = "if 1 <s c then \<lparr>Owner = int64_of sid, Count = c - 1\<rparr> else zeroLock"
  have count: "1 <s c \<Longrightarrow> c \<noteq> 1" by auto
  from CompareAndSwap_alone [OF assms(1) nl(1), of ?v] obtain ls' where
    "CompareAndSwap nl (cells ls ! nl) ?v ls = (True, ls')" "heap_ok ls'"
    "lock_of ls' = (lock_of ls)(name \<mapsto> ?v)" "session_locks ls' = session_locks ls" by blast
  with nl c count show ?thesis
    by (intro exI [of _ "if 1 <s c then ls' else DelLock sid name ls'"])
       (cases "1 <s c"; simp add: Unlock_alone_def eval_nat_numeral getNamedLock_def unlock_load_def Let_def fun_eq_iff)
qed

lemma Unlock_alone_other:
  assumes "\<not> owned ls sid name"
  shows "Unlock_alone sid name ls = Some (RErr (case lock_of ls name of
    None \<Rightarrow> ErrLockDoesNotExist name | Some _ \<Rightarrow> ErrLockNotOwned ''unlock'' name), ls)"
  using assms by (auto simp: Unlock_alone_def eval_nat_numeral getNamedLock_def unlock_load_def owned_def lock_of_def
      split: option.splits)

text \<open>Waiting for a lock of another session: as long as time remains, the session comes back to its load.\<close>

definition in_time :: "i64 \<Rightarrow> (nat \<Rightarrow> bool) \<Rightarrow> nat set \<Rightarrow> bool" where
  "in_time timeout clock ks \<longleftrightarrow> timeout <s 0 \<or> (\<forall>k\<in>ks. clock k)"

lemma in_time_Suc:
  "in_time timeout clock {..<Suc n} \<longleftrightarrow>
     (timeout <s 0 \<or> clock 0) \<and> in_time timeout (\<lambda>k. clock (Suc k)) {..<n}"
  by (auto simp: in_time_def less_Suc_eq_0_disj)

lemma lock_load_waits:
  assumes "Owner (load ls nl) \<noteq> 0" and "Owner (load ls nl) \<noteq> int64_of sid"
  shows "lock_load within sid name timeout nl first ls =
    (if first \<or> timeout <s 0 \<or> within then Lock_load name timeout nl False
     else Done (CLock name timeout) (RErr (ErrLockTimeout name)))"
  using assms by (simp add: lock_load_def Let_def)

lemma run_waits:
  assumes "Owner (load ls nl) \<noteq> 0" and "Owner (load ls nl) \<noteq> int64_of sid"
  shows "run n clock sid (Lock_load name timeout nl False) ls =
    (if in_time timeout clock {..<n} then None else Some (RErr (ErrLockTimeout name), ls))"
proof (induction n arbitrary: clock)
  case (Suc n)
  then show ?case by (simp add: lock_load_waits [OF assms] in_time_Suc)
qed (simp add: in_time_def)

lemma after_waits:
  assumes "Owner (load ls nl) \<noteq> 0" and "Owner (load ls nl) \<noteq> int64_of sid" and "in_time timeout clock {..<n}"
  shows "after n clock sid (Lock_load name timeout nl False) ls = (Lock_load name timeout nl False, ls)"
  using assms(3)
proof (induction n arbitrary: clock)
  case (Suc n)
  then show ?case by (simp add: lock_load_waits [OF assms(1,2)] in_time_Suc)
qed simp

lemma in_time_shift: "in_time timeout (\<lambda>k. clock (Suc (Suc k))) {..<n} \<longleftrightarrow> in_time timeout clock {2..<2 + n}"
proof -
  have "{2..<2 + n} = (\<lambda>k. Suc (Suc k)) ` {..<n}"
    using image_add_atLeastLessThan [of 2 0 n] by (simp add: lessThan_atLeast0 numeral_2_eq_2)
  then show ?thesis by (simp add: in_time_def)
qed

lemma Lock_waits:
  assumes "lock_of ls name = Some v" and "Owner v \<noteq> 0" and "Owner v \<noteq> int64_of sid"
  shows "run n clock sid (Lock_get name timeout) ls =
    (if in_time timeout clock {2..<n} then None else Some (RErr (ErrLockTimeout name), ls))"
proof -
  from assms obtain nl where "getNamedLock ls name = Some nl" "Owner (load ls nl) \<noteq> 0"
    "Owner (load ls nl) \<noteq> int64_of sid" by (auto simp: lock_of_def getNamedLock_def)
  with run_waits [of ls nl sid _ "\<lambda>k. clock (Suc (Suc k))" name timeout] show ?thesis
    by (cases n; cases "n - 1") (auto simp: lock_load_waits in_time_shift, auto simp: in_time_def)
qed

lemma Lock_waits_at:
  assumes "lock_of ls name = Some v" and "Owner v \<noteq> 0" and "Owner v \<noteq> int64_of sid"
    and "2 \<le> n" and "in_time timeout clock {2..<n}"
  shows "\<exists>nl. map_of (locks ls) name = Some nl \<and>
    after n clock sid (Lock_get name timeout) ls = (Lock_load name timeout nl False, ls)"
proof -
  from assms obtain nl where nl: "getNamedLock ls name = Some nl" "Owner (load ls nl) \<noteq> 0"
    "Owner (load ls nl) \<noteq> int64_of sid" by (auto simp: lock_of_def getNamedLock_def)
  from assms(4) obtain m where "n = Suc (Suc m)" by (auto simp: numeral_2_eq_2 Suc_le_eq dest!: less_imp_Suc_add)
  with nl after_waits [OF nl(2,3), of timeout "\<lambda>k. clock (Suc (Suc k))" m name] assms(5) show ?thesis
    by (auto simp: lock_load_waits in_time_shift getNamedLock_def)
qed

section \<open>Reading the state\<close>

datatype LockState = LockDoesNotExist | LockInUse | LockFree

definition GetLockState :: "LockSubsystem \<Rightarrow> string \<Rightarrow> LockState \<times> u32" where
  "GetLockState ls name = (case getNamedLock ls name of
     None \<Rightarrow> (LockDoesNotExist, 0)
   | Some nl \<Rightarrow> (let currLock = load ls nl in
       if Owner currLock = 0 then (LockFree, 0) else (LockInUse, ucast (Owner currLock))))"

lemma uint32_of_int64_of [simp]: "(ucast (int64_of sid) :: u32) = sid"
  unfolding int64_of_def by transfer simp

lemma GetLockState_owned: "owned ls sid name \<Longrightarrow> sid \<noteq> 0 \<Longrightarrow> GetLockState ls name = (LockInUse, sid)"
  by (auto simp: GetLockState_def getNamedLock_def owned_def lock_of_def Let_def)

section \<open>An example run\<close>

text \<open>A session that takes a lock and then releases all its locks.\<close>

lemma reach_step:
  "reachable (P(sid := p)) ls \<Longrightarrow> busy p \<Longrightarrow> step within sid p ls = (p', ls') \<Longrightarrow> reachable (P(sid := p')) ls'"
  using reachable.work [of "P(sid := p)" ls sid within p' ls'] by simp

definition one_locked :: LockSubsystem where
  "one_locked = \<lparr>locks = [(''a'', 0)], cells = [1], lock_heap = [zeroLock, \<lparr>Owner = 1, Count = 1\<rparr>],
     session_locks = (\<lambda>_. [])(1 := [(''a'', True)])\<rparr>"

lemmas lock_step_simps = getNamedLock_def createLock_def new_lock_def CompareAndSwap_def lock_load_def AddLock_def
  NewLockSubsystem_def one_locked_def int64_of_def

lemma one_locked_reachable: "reachable ((\<lambda>_. Idle)(1 := Done (CLock ''a'' 0) ROk)) one_locked"
proof -
  have "reachable ((\<lambda>_. Idle)(1 := Lock_get ''a'' 0)) NewLockSubsystem"
    by (rule reachable.call [OF reachable.init, where c = "CLock ''a'' 0" and ord = "[]"]) simp_all
  then have "reachable ((\<lambda>_. Idle)(1 := Lock_create ''a'' 0)) NewLockSubsystem"
    by (rule reach_step [where within = True]) (simp_all add: lock_step_simps)
  then have "reachable ((\<lambda>_. Idle)(1 := Lock_load ''a'' 0 0 True))
      \<lparr>locks = [(''a'', 0)], cells = [0], lock_heap = [zeroLock], session_locks = \<lambda>_. []\<rparr>"
    by (rule reach_step [where within = True]) (simp_all add: lock_step_simps)
  then have "reachable ((\<lambda>_. Idle)(1 := Lock_cas ''a'' 0 0 0 \<lparr>Owner = 1, Count = 1\<rparr> True))
      \<lparr>locks = [(''a'', 0)], cells = [0], lock_heap = [zeroLock], session_locks = \<lambda>_. []\<rparr>"
    by (rule reach_step [where within = True]) (simp_all add: lock_step_simps)
  then have "reachable ((\<lambda>_. Idle)(1 := Lock_add ''a'' 0))
      \<lparr>locks = [(''a'', 0)], cells = [1], lock_heap = [zeroLock, \<lparr>Owner = 1, Count = 1\<rparr>], session_locks = \<lambda>_. []\<rparr>"
    by (rule reach_step [where within = True]) (simp_all add: lock_step_simps)
  then show ?thesis
    by (rule reach_step [where within = True]) (simp_all add: lock_step_simps)
qed

lemma one_released_reachable: "\<exists>ls. reachable ((\<lambda>_. Idle)(1 := Done CReleaseAll (RCount 1))) ls"
proof -
  have "reachable (\<lambda>_. Idle) one_locked"
    using reachable.return [OF one_locked_reachable, of 1] by (simp add: fun_upd_idem)
  then have "reachable ((\<lambda>_. Idle)(1 := Release_iter [''a''] 0)) one_locked"
    by (rule reachable.call [where c = CReleaseAll and ord = "[''a'']"]) (simp_all add: lock_step_simps)
  then have "reachable ((\<lambda>_. Idle)(1 := Release_load 0 [] 0)) one_locked"
    by (rule reach_step [where within = True]) (simp_all add: lock_step_simps)
  then have "reachable ((\<lambda>_. Idle)(1 := Release_cas 0 1 [] 0)) one_locked"
    by (rule reach_step [where within = True]) (simp_all add: lock_step_simps)
  then obtain ls where "reachable ((\<lambda>_. Idle)(1 := Release_iter [] 1)) ls"
    using reach_step [where within = True] by (fastforce simp: lock_step_simps)
  then show ?thesis using reach_step [where within = True] by fastforce
qed

section \<open>Properties\<close>

text \<open>C8. However the sessions interleave, a step of a session does to every lock one of the abstract operations:
  nothing, create it, take it if it is free, count it up, down or free it if the session owns it. In
  particular it leaves the locks alone that another session owns.\<close>

theorem lock_steps_refine:
  assumes "reachable P ls" and "busy (P sid)" and "step within sid (P sid) ls = (p, ls')"
  shows "effect sid (lock_of ls name) (lock_of ls' name) \<and>
    (\<forall>sid'. sid' \<noteq> 0 \<and> sid' \<noteq> sid \<and> owned ls sid' name \<longrightarrow> lock_of ls' name = lock_of ls name)"
proof -
  note ok = reachable_ok [OF assms(1)]
  from assms(2) have "P sid \<noteq> Idle" by auto
  note sid = sys_ok_at(1) [OF ok this] sys_okD(1) [OF ok] sys_ok_at(2) [OF ok this]
  have "effect sid (lock_of ls name) (lock_of ls' name)" using step_effect [OF sid(2,3) assms(3)] by blast
  with sid(1) show ?thesis by (auto simp: owned_def elim: effect.cases)
qed

theorem lock_steps_refine_witness:
  "\<exists>ls'. reachable ((\<lambda>_. Idle)(1 := Lock_get ''a'' 0)) NewLockSubsystem \<and>
     step True 1 (Lock_get ''a'' 0) NewLockSubsystem = (Lock_create ''a'' 0, ls') \<and>
     effect 1 (lock_of NewLockSubsystem ''a'') (lock_of ls' ''a'')"
proof -
  have r: "reachable ((\<lambda>_. Idle)(1 := Lock_get ''a'' 0)) NewLockSubsystem"
    by (rule reachable.call [OF reachable.init, where c = "CLock ''a'' 0" and ord = "[]"]) simp_all
  have s: "step True 1 (Lock_get ''a'' 0) NewLockSubsystem = (Lock_create ''a'' 0, NewLockSubsystem)"
    by (simp add: getNamedLock_def NewLockSubsystem_def)
  with r lock_steps_refine [OF r, of 1 True "Lock_create ''a'' 0" NewLockSubsystem] show ?thesis by auto
qed

text \<open>C9. Mutual exclusion: when \<^verbatim>\<open>Lock\<close> has returned without an error, the session owns the lock, and no two
  sessions can be at that point for the same lock.\<close>

theorem lock_mutual_exclusion:
  assumes "reachable P ls" and "P a = Done (CLock name t1) ROk" and "P b = Done (CLock name t2) ROk"
  shows "owned ls a name \<and> a = b"
proof -
  note at = sys_ok_at(2) [OF reachable_ok [OF assms(1)]]
  from at [of a] assms(2) have "owned ls a name" by simp
  moreover from at [of b] assms(3) have "owned ls b name" by simp
  ultimately show ?thesis by (auto simp: owned_def)
qed

theorem lock_mutual_exclusion_witness:
  "reachable ((\<lambda>_. Idle)(1 := Done (CLock ''a'' 0) ROk)) one_locked \<and> owned one_locked 1 ''a''"
  using lock_mutual_exclusion [OF one_locked_reachable, of 1 "''a''" 0 1 0] one_locked_reachable by simp

text \<open>C28. When \<^verbatim>\<open>ReleaseAll\<close> has returned, the session owns no lock.\<close>

theorem ReleaseAll_releases:
  assumes "reachable P ls" and "P sid = Done CReleaseAll r"
  shows "\<not> owned ls sid name"
  using sys_ok_at(2) [OF reachable_ok [OF assms(1)], of sid] assms(2) by simp

theorem ReleaseAll_releases_witness:
  "\<exists>ls. reachable ((\<lambda>_. Idle)(1 := Done CReleaseAll (RCount 1))) ls \<and> \<not> owned ls 1 ''a''"
  using one_released_reachable ReleaseAll_releases by (metis fun_upd_same)

text \<open>The retry: the session that waits finds the lock free in its next round.\<close>

lemma Lock_retry_takes:
  assumes "lock_of ls name = Some v" and "Owner v \<noteq> 0" and "Owner v \<noteq> int64_of sid"
    and "2 \<le> n" and "in_time timeout clock {2..n}"
    and "heap_ok ls2" and "map_of (locks ls2) name = map_of (locks ls) name" and "is_free ls2 name"
  shows "\<exists>ls'. run 3 (\<lambda>k. clock (n + k)) sid (fst (after n clock sid (Lock_get name timeout) ls)) ls2 = Some (ROk, ls') \<and>
    lock_of ls' = (lock_of ls2)(name \<mapsto> \<lparr>Owner = int64_of sid, Count = 1\<rparr>)"
proof -
  have "in_time timeout clock {2..<n}" "timeout <s 0 \<or> clock n" using assms(4,5) by (auto simp: in_time_def)
  with Lock_waits_at [OF assms(1-4), of timeout clock] obtain nl where nl: "map_of (locks ls) name = Some nl"
    "after n clock sid (Lock_get name timeout) ls = (Lock_load name timeout nl False, ls)" by blast
  with assms(7,8) have "map_of (locks ls2) name = Some nl" "Owner (load ls2 nl) = 0"
    by (auto simp: is_free_def lock_of_def)
  with run_Lock_take [OF assms(6), of name nl False timeout "\<lambda>k. clock (n + k)" 0 sid] nl(2)
    \<open>timeout <s 0 \<or> clock n\<close> show ?thesis by auto
qed



text \<open>Locking and unlocking several times.\<close>

fun Lock_n :: "(nat \<Rightarrow> nat \<Rightarrow> bool) \<Rightarrow> nat \<Rightarrow> u32 \<Rightarrow> string \<Rightarrow> LockSubsystem \<Rightarrow> LockSubsystem option" where
  "Lock_n clocks 0 sid name ls = Some ls"
| "Lock_n clocks (Suc n) sid name ls = (case Lock_alone (clocks n) sid name 0 ls of
     Some (ROk, ls') \<Rightarrow> Lock_n clocks n sid name ls' | _ \<Rightarrow> None)"

fun Unlock_n :: "nat \<Rightarrow> u32 \<Rightarrow> string \<Rightarrow> LockSubsystem \<Rightarrow> LockSubsystem option" where
  "Unlock_n 0 sid name ls = Some ls"
| "Unlock_n (Suc n) sid name ls = (case Unlock_alone sid name ls of
     Some (ROk, ls') \<Rightarrow> Unlock_n n sid name ls' | _ \<Rightarrow> None)"

definition holds :: "LockSubsystem \<Rightarrow> u32 \<Rightarrow> string \<Rightarrow> nat \<Rightarrow> bool" where
  "holds ls sid name n \<longleftrightarrow> heap_ok ls \<and>
     (if n = 0 then is_free ls name \<and> lock_of ls name \<noteq> None \<and> map_of (session_locks ls sid) name = None
      else lock_of ls name = Some \<lparr>Owner = int64_of sid, Count = of_nat n\<rparr>)"

lemma Lock_n_holds:
  assumes "holds ls sid name (Suc k)" and "sid \<noteq> 0"
  shows "\<exists>ls'. Lock_n clocks n sid name ls = Some ls' \<and> holds ls' sid name (Suc k + n)"
  using assms(1)
proof (induction n arbitrary: k ls)
  case (Suc n)
  then have "heap_ok ls" "owned ls sid name" "count_of ls sid name = of_nat (Suc k)"
    by (auto simp: holds_def owned_def count_of_def)
  from Lock_alone_again [OF this(1,2) assms(2), of "clocks n" 0] this(3) obtain ls' where
    "Lock_alone (clocks n) sid name 0 ls = Some (ROk, ls')" "holds ls' sid name (Suc (Suc k))"
    by (auto simp: holds_def add.commute)
  with Suc.IH [of ls' "Suc k"] show ?case by simp
qed auto

lemma sint_of_nat: "n < 2 ^ 63 \<Longrightarrow> sint (of_nat n :: i64) = int n"
  by (simp add: signed_of_nat signed_take_bit_int_eq_self)

lemma Unlock_n_holds:
  assumes "holds ls sid name k" and "n \<le> k" and "k < 2 ^ 63" and "sid \<noteq> 0"
  shows "\<exists>ls'. Unlock_n n sid name ls = Some ls' \<and> holds ls' sid name (k - n)"
  using assms(1-3)
proof (induction n arbitrary: k ls)
  case (Suc n)
  then obtain j where k: "k = Suc j" by (cases k) auto
  with Suc.prems have h: "heap_ok ls" "owned ls sid name" "count_of ls sid name = of_nat (Suc j)"
    by (auto simp: holds_def owned_def count_of_def)
  have one: "1 <s count_of ls sid name \<longleftrightarrow> j \<noteq> 0"
    using Suc.prems(3) k h(3) sint_of_nat [of "Suc j"] by (auto simp: word_sless_alt simp del: of_nat_Suc)
  from Unlock_alone_owned [OF h(1,2)] one h(3) assms(4) obtain ls' where
    "Unlock_alone sid name ls = Some (ROk, ls')" "holds ls' sid name j"
    by (auto simp: holds_def is_free_def)
  with Suc.IH [of ls' j] Suc.prems k show ?case by simp
qed auto

text \<open>C30. The locks are reentrant: a session that has taken a free lock \<open>n\<close> times still has it after fewer than
  \<open>n\<close> unlocks, and after \<open>n\<close> unlocks the lock is free and the session's lock set is without it.\<close>

theorem lock_reentrant:
  assumes "heap_ok ls" and "is_free ls name" and "sid \<noteq> 0" and "0 < n" and "n < 2 ^ 63" and "m \<le> n"
  shows "\<exists>ls1 ls2. Lock_n clocks n sid name ls = Some ls1 \<and> Unlock_n m sid name ls1 = Some ls2 \<and>
    (if m < n then GetLockState ls2 name = (LockInUse, sid)
     else GetLockState ls2 name = (LockFree, 0) \<and> map_of (session_locks ls2 sid) name = None)"
proof -
  from assms(4) obtain j where n: "n = Suc j" by (cases n) auto
  from Lock_alone_free [OF assms(1,2), of "clocks j" sid 0] obtain ls0 where
    "Lock_alone (clocks j) sid name 0 ls = Some (ROk, ls0)" "holds ls0 sid name (Suc 0)" by (auto simp: holds_def)
  with Lock_n_holds [of ls0 sid name 0 clocks j] assms(3) n obtain ls1 where
    ls1: "Lock_n clocks n sid name ls = Some ls1" "holds ls1 sid name n" by auto
  with Unlock_n_holds [of ls1 sid name n m] assms obtain ls2 where
    ls2: "Unlock_n m sid name ls1 = Some ls2" "holds ls2 sid name (n - m)" by auto
  have "GetLockState ls2 name = (LockInUse, sid)" if "m < n"
    using that ls2(2) assms(3) by (intro GetLockState_owned) (auto simp: holds_def owned_def)
  moreover have "GetLockState ls2 name = (LockFree, 0) \<and> map_of (session_locks ls2 sid) name = None" if "\<not> m < n"
    using that ls2(2) assms(6) by (auto simp: holds_def is_free_def GetLockState_def getNamedLock_def lock_of_def)
  ultimately show ?thesis using ls1(1) ls2(1) by auto
qed

theorem lock_reentrant_witness:
  "\<exists>ls1 ls2. Lock_n (\<lambda>_ _. True) 2 7 ''a'' NewLockSubsystem = Some ls1 \<and> Unlock_n 2 7 ''a'' ls1 = Some ls2 \<and>
     GetLockState ls2 ''a'' = (LockFree, 0)"
proof -
  have "heap_ok NewLockSubsystem" "is_free NewLockSubsystem ''a''"
    by (simp_all add: heap_ok_def NewLockSubsystem_def is_free_def lock_of_def)
  with lock_reentrant [of NewLockSubsystem "''a''" 7 2 2 "\<lambda>_ _. True"] show ?thesis by fastforce
qed

end
