(* ===== verification/Enum_Type.thy ===== *)
theory Enum_Type
  imports Go_Float Go_Strings Charset
begin

text \<open>
  \<^verbatim>\<open>sql/enumtype.go\<close>: the ENUM type. A value is one of the declared strings; it is stored as its index,
  counted from 1, and ordered by it.
\<close>

abbreviation ErrConvertingToEnum :: sql_error where
  "ErrConvertingToEnum \<equiv> ErrNew ''ErrConvertingToEnum'' []"

abbreviation ErrUnmarshallingEnum :: sql_error where
  "ErrUnmarshallingEnum \<equiv> ErrNew ''ErrUnmarshallingEnum'' []"

record enumType =
  enum_collation :: Collation
  valToIndex :: "(string, int) gomap"
  indexToVal :: "string list"

section \<open>Construction\<close>

text \<open>The loop over the values; \<open>done\<close> are the values that were trimmed in place so far.\<close>

definition member_form :: "Collation \<Rightarrow> string \<Rightarrow> string" where
  "member_form c v = (if c \<noteq> Collation_binary then TrimRight v else v)"

fun CreateEnumType_loop ::
    "Collation \<Rightarrow> string list \<Rightarrow> string list \<Rightarrow> (string, int) gomap \<Rightarrow> sql_error + (string, int) gomap \<times> string list" where
  "CreateEnumType_loop c done [] m = Inr (m, done)"
| "CreateEnumType_loop c done (v # vs) m =
     (let v = member_form c v in
      if map_of m v \<noteq> None then Inl (ErrGeneric (''duplicate entry: '' @ v))
      else CreateEnumType_loop c (done @ [v]) vs (AList.update v (int (length done) + 1) m))"

definition CreateEnumType :: "string list \<Rightarrow> Collation \<Rightarrow> sql_error + enumType" where
  "CreateEnumType vals c =
     (if length vals < 1 then Inl (ErrGeneric ''number of values may not be zero'')
      else if length vals > 65535 then Inl (ErrGeneric ''number of values is too large'')
      else bindE (CreateEnumType_loop c [] vals []) (\<lambda>(m, vs).
        Inr \<lparr>enum_collation = c, valToIndex = m, indexToVal = vs\<rparr>))"

section \<open>Indexes and strings\<close>

definition EnumAt :: "enumType \<Rightarrow> int \<Rightarrow> string option" where
  "EnumAt t index =
     (let index = index - 1 in
      if index < 0 \<or> index \<ge> int (length (indexToVal t)) then None else Some (indexToVal t ! nat index))"

definition EnumIndexOf :: "enumType \<Rightarrow> string \<Rightarrow> int" where
  "EnumIndexOf t v = (case map_of (valToIndex t) v of
     Some index \<Rightarrow> index
   | None \<Rightarrow> (case ParseInt v 32 of
       Inr parsedIndex \<Rightarrow> (case EnumAt t parsedIndex of
           Some realV \<Rightarrow> (case map_of (valToIndex t) realV of Some index \<Rightarrow> index | None \<Rightarrow> -1)
         | None \<Rightarrow> -1)
     | Inl _ \<Rightarrow> -1))"

text \<open>The \<^verbatim>\<open>int(value)\<close> conversions of the numeric cases.\<close>

definition as_int :: "val \<Rightarrow> int option" where
  "as_int v = (case v of
     VInt x \<Rightarrow> Some (sint x) | VUint x \<Rightarrow> Some (sint x)
   | VInt8 x \<Rightarrow> Some (sint x) | VUint8 x \<Rightarrow> Some (uint x)
   | VInt16 x \<Rightarrow> Some (sint x) | VUint16 x \<Rightarrow> Some (uint x)
   | VInt32 x \<Rightarrow> Some (sint x) | VUint32 x \<Rightarrow> Some (uint x)
   | VInt64 x \<Rightarrow> Some (sint x) | VUint64 x \<Rightarrow> Some (sint x)
   | VFloat32 x \<Rightarrow> Some (sint (f64_to_i64 (f64_of_f32 x))) | VFloat64 x \<Rightarrow> Some (sint (f64_to_i64 x))
   | _ \<Rightarrow> None)"

definition as_text :: "val \<Rightarrow> string option" where
  "as_text v = (case v of VString s \<Rightarrow> Some s | VBytes s \<Rightarrow> Some s | _ \<Rightarrow> None)"

definition EnumConvert :: "enumType \<Rightarrow> val \<Rightarrow> sql_error + val" where
  "EnumConvert t v =
     (if v = VNil then Inr VNil
      else case as_text v of
        Some s \<Rightarrow> (let index = EnumIndexOf t s in
          if index \<noteq> -1 then Inr (VString (case EnumAt t index of Some str \<Rightarrow> str | None \<Rightarrow> []))
          else Inl ErrConvertingToEnum)
      | None \<Rightarrow> (case as_int v of
          Some i \<Rightarrow> (case EnumAt t i of Some str \<Rightarrow> Inr (VString str) | None \<Rightarrow> Inl ErrConvertingToEnum)
        | None \<Rightarrow> Inl ErrConvertingToEnum))"

definition EnumConvertToIndex :: "enumType \<Rightarrow> val \<Rightarrow> sql_error + int" where
  "EnumConvertToIndex t v = (case as_text v of
     Some s \<Rightarrow> (let index = EnumIndexOf t s in if index \<noteq> -1 then Inr index else Inl ErrConvertingToEnum)
   | None \<Rightarrow> (case as_int v of
       Some i \<Rightarrow> if EnumAt t i \<noteq> None then Inr i else Inl ErrConvertingToEnum
     | None \<Rightarrow> Inl ErrConvertingToEnum))"

definition EnumMarshal :: "enumType \<Rightarrow> val \<Rightarrow> sql_error + int" where
  "EnumMarshal t v = EnumConvertToIndex t v"

definition EnumUnmarshal :: "enumType \<Rightarrow> int \<Rightarrow> sql_error + string" where
  "EnumUnmarshal t i = (case EnumAt t i of Some str \<Rightarrow> Inr str | None \<Rightarrow> Inl ErrUnmarshallingEnum)"

definition EnumCompare :: "enumType \<Rightarrow> val \<Rightarrow> val \<Rightarrow> sql_error + int" where
  "EnumCompare t a b =
     (if fst (compareNulls a b) then Inr (snd (compareNulls a b))
      else bindE (EnumConvertToIndex t a) (\<lambda>ai. bindE (EnumConvertToIndex t b) (\<lambda>bi.
        Inr (if ai < bi then -1 else if ai > bi then 1 else 0))))"

definition EnumNumberOfElements :: "enumType \<Rightarrow> u16" where
  "EnumNumberOfElements t = of_nat (length (indexToVal t))"

definition EnumZero :: "enumType \<Rightarrow> val" where
  "EnumZero t = VString (indexToVal t ! 0)"

definition EnumValues :: "enumType \<Rightarrow> string list" where
  "EnumValues t = indexToVal t"

section \<open>Invariant\<close>

definition enum_ok :: "enumType \<Rightarrow> bool" where
  "enum_ok t \<longleftrightarrow> distinct (indexToVal t) \<and> indexToVal t \<noteq> [] \<and> length (indexToVal t) \<le> 65535 \<and>
     (\<forall>s i. map_of (valToIndex t) s = Some i \<longleftrightarrow> EnumAt t i = Some s)"

lemma EnumAt_iff: "EnumAt t i = Some s \<longleftrightarrow> 1 \<le> i \<and> i \<le> int (length (indexToVal t)) \<and> indexToVal t ! nat (i - 1) = s"
  by (auto simp: EnumAt_def Let_def)

lemma EnumAt_None: "EnumAt t i = None \<longleftrightarrow> \<not> (1 \<le> i \<and> i \<le> int (length (indexToVal t)))"
  by (auto simp: EnumAt_def Let_def)

text \<open>What the loop has built: the values are distinct and the map has their positions.\<close>

definition indexed :: "(string, int) gomap \<Rightarrow> string list \<Rightarrow> bool" where
  "indexed m vs \<longleftrightarrow> distinct vs \<and>
     (\<forall>s i. map_of m s = Some i \<longleftrightarrow> 1 \<le> i \<and> i \<le> int (length vs) \<and> vs ! nat (i - 1) = s)"

lemma indexed_snoc:
  assumes "indexed m vs" and "map_of m v = None"
  shows "indexed (AList.update v (int (length vs) + 1) m) (vs @ [v])"
proof -
  have new: "v \<notin> set vs"
  proof
    assume "v \<in> set vs"
    then obtain k where "k < length vs" "vs ! k = v" by (auto simp: in_set_conv_nth)
    then have "map_of m v = Some (int k + 1)" using assms(1) by (simp add: indexed_def)
    with assms(2) show False by simp
  qed
  have "(vs @ [v]) ! nat (i - 1) = s \<longleftrightarrow> (if i = int (length vs) + 1 then s = v else vs ! nat (i - 1) = s)"
    if "1 \<le> i" "i \<le> int (length vs) + 1" for i s
    using that by (auto simp: nth_append nat_less_iff)
  moreover have "vs ! nat (i - 1) \<noteq> v" if "1 \<le> i" "i \<le> int (length vs)" for i
    using that new nth_mem [of "nat (i - 1)" vs] by auto
  ultimately show ?thesis
    using assms new unfolding indexed_def
    by (auto simp: nth_append)
qed

lemma CreateEnumType_loop_indexed:
  "CreateEnumType_loop c done vs m = Inr (m', vs') \<Longrightarrow> indexed m done \<Longrightarrow> indexed m' vs' \<and> length vs' = length done + length vs"
proof (induction c "done" vs m rule: CreateEnumType_loop.induct)
  case (2 c "done" v vs m)
  then show ?case using indexed_snoc [of m "done" "member_form c v"] by (auto simp: Let_def split: if_splits)
qed simp

lemma CreateEnumType_ok: "CreateEnumType vals c = Inr t \<Longrightarrow> enum_ok t \<and> length (indexToVal t) = length vals"
  using CreateEnumType_loop_indexed [of c "[]" vals "[]" "valToIndex t" "indexToVal t"]
  by (auto simp: CreateEnumType_def enum_ok_def bindE_eq_Inr_iff indexed_def EnumAt_iff split: if_splits prod.splits)

lemma CreateEnumType_loop_values:
  "CreateEnumType_loop c done vs m = Inr (m', vs') \<Longrightarrow> vs' = done @ map (member_form c) vs"
  by (induction c "done" vs m rule: CreateEnumType_loop.induct) (auto simp: Let_def split: if_splits)

text \<open>The elements are the declared ones, in the order of the declaration.\<close>

lemma CreateEnumType_values: "CreateEnumType vals c = Inr t \<Longrightarrow> indexToVal t = map (member_form c) vals"
  using CreateEnumType_loop_values [of c "[]" vals "[]" "valToIndex t" "indexToVal t"]
  by (auto simp: CreateEnumType_def bindE_eq_Inr_iff split: if_splits prod.splits)

lemma enum_okD: "enum_ok t \<Longrightarrow> map_of (valToIndex t) s = Some i \<longleftrightarrow> EnumAt t i = Some s"
  by (simp add: enum_ok_def)

lemma EnumIndexOf_At:
  assumes "enum_ok t" and "EnumIndexOf t s \<noteq> -1"
  shows "\<exists>str. EnumAt t (EnumIndexOf t s) = Some str"
proof (cases "map_of (valToIndex t) s")
  case None
  with assms(2) obtain v where "map_of (valToIndex t) v = Some (EnumIndexOf t s)"
    by (auto simp: EnumIndexOf_def split: option.splits sum.splits)
  with assms(1) show ?thesis by (auto simp: enum_okD)
next
  case (Some i)
  then have "EnumIndexOf t s = i" by (simp add: EnumIndexOf_def)
  with Some assms(1) show ?thesis by (auto simp: enum_okD)
qed

lemma EnumIndexOf_member:
  assumes "enum_ok t" and "EnumAt t i = Some s"
  shows "EnumIndexOf t s = i \<and> i \<noteq> -1"
proof -
  from assms have "map_of (valToIndex t) s = Some i" by (simp add: enum_okD)
  with assms(2) show ?thesis by (auto simp: EnumIndexOf_def EnumAt_iff)
qed

text \<open>Converting to the index and to the string agree.\<close>

lemma EnumConvert_index:
  assumes "enum_ok t" and "v \<noteq> VNil"
  shows "EnumConvert t v = bindE (EnumConvertToIndex t v) (\<lambda>i. Inr (VString (the (EnumAt t i))))"
proof (cases "as_text v")
  case (Some s)
  with assms EnumIndexOf_At [of t s] show ?thesis
    by (auto simp: EnumConvert_def EnumConvertToIndex_def Let_def)
next
  case None
  with assms show ?thesis
    by (auto simp: EnumConvert_def EnumConvertToIndex_def split: option.splits)
qed

lemma EnumConvertToIndex_At: "enum_ok t \<Longrightarrow> EnumConvertToIndex t v = Inr i \<Longrightarrow> \<exists>s. EnumAt t i = Some s"
  using EnumIndexOf_At [of t]
  by (auto simp: EnumConvertToIndex_def Let_def split: option.splits if_splits)

section \<open>Properties\<close>

text \<open>C31. Marshalling an ENUM value gives its index, between 1 and the number of elements, and unmarshalling
  that index gives the string the value converts to; the index of an unmarshalled string is the index again.
  Indexes out of that range are rejected.\<close>

theorem enum_marshal_roundtrip:
  assumes "CreateEnumType vals c = Inr t"
  shows "(\<forall>v i. EnumMarshal t v = Inr i \<longrightarrow> 1 \<le> i \<and> i \<le> int (length vals) \<and>
      (\<exists>s. EnumUnmarshal t i = Inr s \<and> EnumConvert t v = Inr (VString s))) \<and>
    (\<forall>i. if 1 \<le> i \<and> i \<le> int (length vals)
      then \<exists>s. EnumUnmarshal t i = Inr s \<and> EnumMarshal t (VString s) = Inr i
      else EnumUnmarshal t i = Inl ErrUnmarshallingEnum)"
proof -
  from CreateEnumType_ok [OF assms] have ok: "enum_ok t" and n: "length (indexToVal t) = length vals" by auto
  have "1 \<le> i \<and> i \<le> int (length vals) \<and> (\<exists>s. EnumUnmarshal t i = Inr s \<and> EnumConvert t v = Inr (VString s))"
    if m: "EnumMarshal t v = Inr i" for v i
  proof -
    from m have i: "EnumConvertToIndex t v = Inr i" by (simp add: EnumMarshal_def)
    then have "v \<noteq> VNil" by (auto simp: EnumConvertToIndex_def as_text_def as_int_def)
    from EnumConvertToIndex_At [OF ok i] obtain s where "EnumAt t i = Some s" by blast
    with EnumConvert_index [OF ok \<open>v \<noteq> VNil\<close>] i n EnumAt_iff [of t i s] show ?thesis by (simp add: EnumUnmarshal_def)
  qed
  moreover have "if 1 \<le> i \<and> i \<le> int (length vals)
      then \<exists>s. EnumUnmarshal t i = Inr s \<and> EnumMarshal t (VString s) = Inr i
      else EnumUnmarshal t i = Inl ErrUnmarshallingEnum" for i
  proof (cases "EnumAt t i")
    case None
    with EnumAt_None [of t i] n show ?thesis by (simp add: EnumUnmarshal_def)
  next
    case (Some s)
    with EnumIndexOf_member [OF ok Some] EnumAt_iff [of t i s] n show ?thesis
      by (simp add: EnumUnmarshal_def EnumMarshal_def EnumConvertToIndex_def as_text_def)
  qed
  ultimately show ?thesis by blast
qed

theorem enum_marshal_roundtrip_witness:
  "\<exists>t. CreateEnumType [''a '', ''b''] Collation_Default = Inr t \<and>
     (\<exists>s. EnumUnmarshal t 1 = Inr s \<and> EnumMarshal t (VString s) = Inr 1) \<and>
     EnumUnmarshal t 3 = Inl ErrUnmarshallingEnum"
proof -
  have "\<exists>t. CreateEnumType [''a '', ''b''] Collation_Default = Inr t"
    by (simp add: CreateEnumType_def member_form_def TrimRight_def Let_def)
  then obtain t where t: "CreateEnumType [''a '', ''b''] Collation_Default = Inr t" by blast
  note conjunct2 [OF enum_marshal_roundtrip [OF t]]
  from spec [OF this, of 1] spec [OF this, of 3] t show ?thesis by auto
qed

text \<open>C32. ENUM values are ordered by the declaration. The elements of a type made from \<open>vals\<close> are the members of
  \<open>vals\<close> (without trailing blanks unless the collation is binary), all different, in that order. Two values that
  convert to elements, in whatever spelling (string, bytes or number), stand for positions \<open>i\<close> and \<open>j\<close> of \<open>vals\<close>;
  their indexes are \<open>i + 1\<close> and \<open>j + 1\<close> and comparing them compares \<open>i\<close> and \<open>j\<close>. Converting a converted value
  does not change it.\<close>

theorem enum_declaration_order:
  assumes "CreateEnumType vals c = Inr t"
    and "EnumConvert t a = Inr (VString s1)" and "EnumConvert t b = Inr (VString s2)"
  shows "EnumValues t = map (member_form c) vals \<and> distinct (map (member_form c) vals) \<and>
    (\<exists>i j. i < length vals \<and> j < length vals \<and> member_form c (vals ! i) = s1 \<and> member_form c (vals ! j) = s2 \<and>
      EnumConvertToIndex t a = Inr (int i + 1) \<and> EnumConvertToIndex t b = Inr (int j + 1) \<and>
      EnumCompare t a b = Inr (if i < j then -1 else if j < i then 1 else 0) \<and>
      EnumConvert t (VString s1) = Inr (VString s1))"
proof -
  from CreateEnumType_ok [OF assms(1)] have ok: "enum_ok t" by simp
  note vals = CreateEnumType_values [OF assms(1)]
  have idx: "\<exists>i. EnumConvertToIndex t v = Inr (int i + 1) \<and> i < length vals \<and> member_form c (vals ! i) = s \<and>
      v \<noteq> VNil \<and> EnumConvert t (VString s) = Inr (VString s)"
    if "EnumConvert t v = Inr (VString s)" for v s
  proof -
    from that have "v \<noteq> VNil" by (auto simp: EnumConvert_def)
    with that EnumConvert_index [OF ok this] obtain k where k: "EnumConvertToIndex t v = Inr k" "s = the (EnumAt t k)"
      by (auto simp: bindE_eq_Inr_iff)
    with EnumConvertToIndex_At [OF ok k(1)] have at: "EnumAt t k = Some s" by auto
    with EnumIndexOf_member [OF ok at] have "EnumConvert t (VString s) = Inr (VString s)"
      by (simp add: EnumConvert_def as_text_def)
    with k(1) at vals \<open>v \<noteq> VNil\<close> show ?thesis
      by (intro exI [of _ "nat (k - 1)"]) (auto simp: EnumAt_iff)
  qed
  from idx [OF assms(2)] obtain i where i: "EnumConvertToIndex t a = Inr (int i + 1)" "i < length vals"
    "member_form c (vals ! i) = s1" "a \<noteq> VNil" "EnumConvert t (VString s1) = Inr (VString s1)" by blast
  from idx [OF assms(3)] obtain j where j: "EnumConvertToIndex t b = Inr (int j + 1)" "j < length vals"
    "member_form c (vals ! j) = s2" "b \<noteq> VNil" by blast
  have "EnumCompare t a b = Inr (if i < j then -1 else if j < i then 1 else 0)"
    using i j by (simp add: EnumCompare_def compareNulls_def)
  with i j ok vals show ?thesis by (auto simp: EnumValues_def enum_ok_def)
qed

theorem enum_declaration_order_witness:
  "\<exists>t. CreateEnumType [''z '', ''a''] Collation_Default = Inr t \<and> EnumConvert t (VString ''z'') = Inr (VString ''z'') \<and>
     EnumConvert t (VInt8 2) = Inr (VString ''a'') \<and> EnumCompare t (VString ''z'') (VInt8 2) = Inr (-1)"
proof -
  let ?vals = "[''z '', ''a'']"
  let ?t = "\<lparr>enum_collation = Collation_Default, valToIndex = [(''z'', 1), (''a'', 2)], indexToVal = [''z'', ''a'']\<rparr>"
  have m: "member_form Collation_Default ''z '' = ''z''" "member_form Collation_Default ''a'' = ''a''"
    by code_simp+
  then have t: "CreateEnumType ?vals Collation_Default = Inr ?t"
    by (simp add: CreateEnumType_def Let_def)
  have a: "EnumConvert ?t (VString ''z'') = Inr (VString ''z'')" and b: "EnumConvert ?t (VInt8 2) = Inr (VString ''a'')"
    by (simp_all add: EnumConvert_def as_text_def as_int_def EnumIndexOf_def EnumAt_def)
  from enum_declaration_order [OF t a b] obtain i j where ij: "i < length ?vals" "j < length ?vals"
    "member_form Collation_Default (?vals ! i) = ''z''" "member_form Collation_Default (?vals ! j) = ''a''"
    "EnumCompare ?t (VString ''z'') (VInt8 2) = Inr (if i < j then - 1 else if j < i then 1 else 0)"
    by blast
  then have "i = 0" "j = 1" using m by (auto simp: less_Suc_eq)
  with ij(5) t a b show ?thesis by (intro exI [of _ ?t]) simp
qed

end
