(* ===== verification/Small_Types.thy ===== *)
theory Small_Types
  imports Enum_Type
begin

text \<open>
  \<^verbatim>\<open>sql/yeartype.go\<close> and \<^verbatim>\<open>sql/bit.go\<close>: the YEAR and BIT types.
\<close>

unbundle bit_operations_syntax

section \<open>YEAR\<close>

abbreviation ErrConvertingToYear :: sql_error where
  "ErrConvertingToYear \<equiv> ErrNew ''ErrConvertingToYear'' []"

text \<open>The case \<^verbatim>\<open>int64\<close>: two-digit years are those from 1970 to 2069.\<close>

definition year_of_int :: "int \<Rightarrow> sql_error + val" where
  "year_of_int i =
     (if i = 0 then Inr (VInt16 0)
      else if i \<ge> 1 \<and> i \<le> 69 then Inr (VInt16 (word_of_int (i + 2000)))
      else if i \<ge> 70 \<and> i \<le> 99 then Inr (VInt16 (word_of_int (i + 1900)))
      else if i \<ge> 1901 \<and> i \<le> 2155 then Inr (VInt16 (word_of_int i))
      else Inl ErrConvertingToYear)"

text \<open>The calendar year of a time depends on the zone data of its location, so it is an argument.\<close>

definition YearConvert :: "(64 word \<Rightarrow> 64 word \<Rightarrow> nat \<Rightarrow> int) \<Rightarrow> val \<Rightarrow> sql_error + val" where
  "YearConvert time_Year v = (case v of
     VNil \<Rightarrow> Inr VNil
   | VString s \<Rightarrow>
       (if length s = 1 \<or> length s = 2 \<or> length s = 4
        then bindE (ParseInt s 64) (\<lambda>i. if i = 0 then Inr (VInt16 2000) else year_of_int i)
        else Inl ErrConvertingToYear)
   | VTime w e l \<Rightarrow>
       (let year = time_Year w e l in
        if year = 0 \<or> (year \<ge> 1901 \<and> year \<le> 2155) then Inr (VInt16 (word_of_int year))
        else Inl ErrConvertingToYear)
   | _ \<Rightarrow> (case as_int v of Some i \<Rightarrow> year_of_int i | None \<Rightarrow> Inl ErrConvertingToYear))"

text \<open>The type assertion \<^verbatim>\<open>as.(int16)\<close> on a converted value.\<close>

definition the_int16 :: "val \<Rightarrow> sql_error + int" where
  "the_int16 v = (case v of VInt16 x \<Rightarrow> Inr (sint x) | _ \<Rightarrow> Inl (Panic ''interface conversion''))"

definition YearCompare :: "(64 word \<Rightarrow> 64 word \<Rightarrow> nat \<Rightarrow> int) \<Rightarrow> val \<Rightarrow> val \<Rightarrow> sql_error + int" where
  "YearCompare time_Year a b =
     (if fst (compareNulls a b) then Inr (snd (compareNulls a b))
      else bindE (YearConvert time_Year a) (\<lambda>as. bindE (YearConvert time_Year b) (\<lambda>bs.
        bindE (the_int16 as) (\<lambda>ai. bindE (the_int16 bs) (\<lambda>bi.
          Inr (if ai = bi then 0 else if ai < bi then -1 else 1))))))"

definition YearZero :: val where
  "YearZero = VInt16 0"

text \<open>The years that the type has.\<close>

definition is_year :: "int \<Rightarrow> bool" where
  "is_year y \<longleftrightarrow> y = 0 \<or> (1901 \<le> y \<and> y \<le> 2155)"

lemma sint16: "- 32768 \<le> y \<Longrightarrow> y < 32768 \<Longrightarrow> sint (word_of_int y :: 16 word) = y"
  by (simp add: signed_of_int signed_take_bit_int_eq_self)

lemma is_year_sint16: "is_year y \<Longrightarrow> sint (word_of_int y :: 16 word) = y"
  by (rule sint16) (auto simp: is_year_def)

lemma year_of_int_range: "year_of_int i = Inr v \<Longrightarrow> \<exists>y. v = VInt16 (word_of_int y) \<and> is_year y"
  unfolding year_of_int_def is_year_def
  by (auto split: if_splits intro: exI [of _ "i + 2000"] exI [of _ "i + 1900"] exI [of _ 0])

lemma YearConvert_range:
  assumes "YearConvert f v = Inr w" and "v \<noteq> VNil"
  shows "\<exists>y. w = VInt16 (word_of_int y) \<and> is_year y"
proof -
  have two: "\<exists>y. VInt16 2000 = VInt16 (word_of_int y) \<and> is_year y"
    by (rule exI [of _ 2000]) (simp add: is_year_def)
  show ?thesis
    using assms year_of_int_range two
    by (auto simp: YearConvert_def bindE_eq_Inr_iff Let_def is_year_def split: val.splits if_splits option.splits)
qed

lemma year_of_int_year: "is_year y \<Longrightarrow> year_of_int y = Inr (VInt16 (word_of_int y))"
  by (auto simp: year_of_int_def is_year_def)

lemma two_digits: "1 \<le> i \<Longrightarrow> i \<le> 99 \<Longrightarrow> (i + 2000) mod 100 = i \<and> (i + 1900) mod 100 = i" for i :: int
  using mod_mult_self1 [of i 20 100] mod_mult_self1 [of i 19 100] by simp

lemma YearCompare_years:
  assumes "v \<noteq> VNil" and "v' \<noteq> VNil" and "YearConvert f v = Inr (VInt16 a)" and "YearConvert f v' = Inr (VInt16 b)"
  shows "YearCompare f v v' = Inr (compare_by (sint a) (sint b))"
  using assms by (simp add: YearCompare_def compareNulls_def the_int16_def compare_by_def)

lemma year_of_int_two_digits:
  "1 \<le> i \<Longrightarrow> i \<le> 99 \<Longrightarrow> year_of_int i = Inr (VInt16 (word_of_int (if i \<le> 69 then i + 2000 else i + 1900)))"
  by (simp add: year_of_int_def)

text \<open>C33. A value that converts to YEAR becomes 0 or a year from 1901 to 2155, converting it again does not
  change it, numbers of two digits are the years from 1970 to 2069, and comparing compares the years.\<close>

theorem year_convert_range:
  assumes "YearConvert f v = Inr w" and "v \<noteq> VNil"
  shows "\<exists>y. w = VInt16 (word_of_int y) \<and> is_year y \<and> YearConvert f w = Inr w \<and>
    (\<forall>i. v = VInt64 i \<and> 1 \<le> sint i \<and> sint i \<le> 99 \<longrightarrow> 1970 \<le> y \<and> y \<le> 2069 \<and> y mod 100 = sint i) \<and>
    (\<forall>v' y'. v' \<noteq> VNil \<and> is_year y' \<and> YearConvert f v' = Inr (VInt16 (word_of_int y')) \<longrightarrow>
      YearCompare f v v' = Inr (compare_by y y'))"
proof -
  from YearConvert_range [OF assms] obtain y where y: "w = VInt16 (word_of_int y)" "is_year y" by blast
  have s: "sint (word_of_int y :: 16 word) = y" by (rule is_year_sint16 [OF y(2)])
  have "YearConvert f w = Inr w"
    unfolding y(1) YearConvert_def as_int_def val.case option.case s by (rule year_of_int_year [OF y(2)])
  moreover have "1970 \<le> y \<and> y \<le> 2069 \<and> y mod 100 = sint i"
    if "v = VInt64 i" "1 \<le> sint i" "sint i \<le> 99" for i
  proof -
    let ?y = "if sint i \<le> 69 then sint i + 2000 else sint i + 1900"
    have "YearConvert f v = Inr (VInt16 (word_of_int ?y))"
      unfolding that(1) YearConvert_def as_int_def val.case option.case by (rule year_of_int_two_digits [OF that(2,3)])
    with assms(1) y(1) have "(word_of_int y :: 16 word) = word_of_int ?y" by simp
    moreover have "sint (word_of_int ?y :: 16 word) = ?y" by (rule sint16) (use that in auto)
    ultimately have "y = ?y" using s by metis
    with that two_digits [of "sint i"] show ?thesis by (auto split: if_splits)
  qed
  moreover have "YearCompare f v v' = Inr (compare_by y y')"
    if "v' \<noteq> VNil" "is_year y'" "YearConvert f v' = Inr (VInt16 (word_of_int y'))" for v' y'
    using YearCompare_years [OF assms(2) that(1) _ that(3)] assms(1) s is_year_sint16 [OF that(2)] unfolding y(1) by simp
  ultimately show ?thesis using y by blast
qed

theorem year_convert_range_witness:
  "YearConvert (\<lambda>_ _ _. 0) (VInt64 70) = Inr (VInt16 1970) \<and>
   (\<exists>y. VInt16 1970 = VInt16 (word_of_int y) \<and> is_year y \<and> 1970 \<le> y \<and> y \<le> 2069)"
proof -
  have c: "YearConvert (\<lambda>_ _ _. 0) (VInt64 70) = Inr (VInt16 1970)"
    by (simp add: YearConvert_def as_int_def year_of_int_def)
  have "VInt64 70 \<noteq> VNil" by simp
  from year_convert_range [OF c this] obtain y where y: "VInt16 1970 = VInt16 (word_of_int y)" "is_year y"
    "\<forall>i. VInt64 70 = VInt64 i \<and> 1 \<le> sint i \<and> sint i \<le> 99 \<longrightarrow> 1970 \<le> y \<and> y \<le> 2069 \<and> y mod 100 = sint i" by blast
  have "1970 \<le> y \<and> y \<le> 2069" using spec [OF y(3), of 70] by simp
  with y(1,2) c show ?thesis by blast
qed

section \<open>BIT\<close>

record bitType =
  numOfBits :: u8

definition CreateBitType :: "u8 \<Rightarrow> sql_error + bitType" where
  "CreateBitType n =
     (if n < 1 \<or> n > 64 then Inl (ErrGeneric ''invalid number of bits'') else Inr \<lparr>numOfBits = n\<rparr>)"

text \<open>\<^verbatim>\<open>binary.BigEndian.Uint64\<close> of at most eight bytes, padded on the left.\<close>

definition BigEndian :: "string \<Rightarrow> u64" where
  "BigEndian bs = word_of_int (foldl (\<lambda>n c. n * 256 + of_char c) 0 bs)"

definition bit_value :: "val \<Rightarrow> sql_error + u64" where
  "bit_value v = (case v of
     VBool b \<Rightarrow> Inr (if b then 1 else 0)
   | VFloat32 x \<Rightarrow> (let y = f64_of_f32 x in
       if f64_neg y \<and> \<not> f64_eq y 0 \<and> \<not> f64_nan y then Inl (ErrGeneric ''negative floats cannot become bit values'')
       else Inr (f64_to_u64 y))
   | VFloat64 y \<Rightarrow>
       if f64_neg y \<and> \<not> f64_eq y 0 \<and> \<not> f64_nan y then Inl (ErrGeneric ''negative floats cannot become bit values'')
       else Inr (f64_to_u64 y)
   | VString s \<Rightarrow> if length s > 8 then Inl (ErrGeneric ''beyond the maximum value'') else Inr (BigEndian s)
   | VBytes s \<Rightarrow> if length s > 8 then Inl (ErrGeneric ''beyond the maximum value'') else Inr (BigEndian s)
   | _ \<Rightarrow> (case as_int v of Some i \<Rightarrow> Inr (word_of_int i) | None \<Rightarrow> Inl ErrInvalidType))"

text \<open>\<^verbatim>\<open>uint64(1<<t.numOfBits-1)\<close>: shifting by 64 gives 0.\<close>

definition bit_max :: "bitType \<Rightarrow> u64" where
  "bit_max t = push_bit (unat (numOfBits t)) 1 - 1"

definition BitConvert :: "bitType \<Rightarrow> val \<Rightarrow> sql_error + val" where
  "BitConvert t v =
     (if v = VNil then Inr VNil
      else bindE (bit_value v) (\<lambda>x. if x > bit_max t then Inl (ErrGeneric ''beyond the maximum value'') else Inr (VUint64 x)))"

definition BitCompare :: "bitType \<Rightarrow> val \<Rightarrow> val \<Rightarrow> sql_error + int" where
  "BitCompare t a b =
     (if fst (compareNulls a b) then Inr (snd (compareNulls a b))
      else bindE (BitConvert t a) (\<lambda>ac. bindE (BitConvert t b) (\<lambda>bc.
        case (ac, bc) of (VUint64 ai, VUint64 bi) \<Rightarrow> Inr (if ai < bi then -1 else if ai > bi then 1 else 0)
        | _ \<Rightarrow> Inl (Panic ''interface conversion''))))"

lemma uint_bit_max:
  assumes "CreateBitType n = Inr t"
  shows "uint (bit_max t) = 2 ^ unat n - 1"
proof -
  from assms have n: "0 < unat n" "unat n \<le> 64" and t: "numOfBits t = n"
    by (auto simp: CreateBitType_def word_less_nat_alt word_le_nat_alt unat_gt_0 split: if_splits)
  have "bit_max t = mask (unat n)" by (simp add: bit_max_def t push_bit_eq_mult mask_eq_exp_minus_1)
  then have "uint (bit_max t) = mask (min LENGTH(64) (unat n))" by (simp only: uint_mask_eq)
  with n show ?thesis by (simp add: mask_eq_exp_minus_1 min_def)
qed

text \<open>C34. A value that converts to \<^verbatim>\<open>BIT(n)\<close> becomes an unsigned number below \<open>2 ^ n\<close>, also for \<open>n = 64\<close>; an
  unsigned number converts to itself exactly if it is below \<open>2 ^ n\<close>; and comparing compares the numbers.\<close>

theorem bit_convert_range:
  assumes "CreateBitType n = Inr t"
  shows "(\<forall>v w. v \<noteq> VNil \<and> BitConvert t v = Inr w \<longrightarrow> (\<exists>x. w = VUint64 x \<and> uint x < 2 ^ unat n)) \<and>
    (\<forall>x. if uint x < 2 ^ unat n then BitConvert t (VUint64 x) = Inr (VUint64 x)
         else \<exists>e. BitConvert t (VUint64 x) = Inl e) \<and>
    (\<forall>x y. uint x < 2 ^ unat n \<and> uint y < 2 ^ unat n \<longrightarrow>
      BitCompare t (VUint64 x) (VUint64 y) = Inr (compare_by (uint x) (uint y)))"
proof -
  have le: "x \<le> bit_max t \<longleftrightarrow> uint x < 2 ^ unat n" for x
    unfolding word_le_def uint_bit_max [OF assms] by simp
  have conv: "BitConvert t (VUint64 x) = (if uint x < 2 ^ unat n then Inr (VUint64 x)
      else Inl (ErrGeneric ''beyond the maximum value''))" for x
    using le [of x] by (auto simp: BitConvert_def bit_value_def as_int_def)
  have "\<exists>x. w = VUint64 x \<and> uint x < 2 ^ unat n" if "v \<noteq> VNil" "BitConvert t v = Inr w" for v w
    using that le by (auto simp: BitConvert_def bindE_eq_Inr_iff not_less split: if_splits)
  with conv show ?thesis
    by (auto simp: BitCompare_def compareNulls_def compare_by_def word_less_def)
qed

theorem bit_convert_range_witness:
  "\<exists>t. CreateBitType 64 = Inr t \<and> BitConvert t (VUint64 0xFFFFFFFFFFFFFFFF) = Inr (VUint64 0xFFFFFFFFFFFFFFFF)"
proof -
  have t: "CreateBitType 64 = Inr \<lparr>numOfBits = 64\<rparr>" by (simp add: CreateBitType_def)
  have "uint (0xFFFFFFFFFFFFFFFF :: u64) < 2 ^ unat (64 :: u8)" by simp
  with conjunct1 [OF conjunct2 [OF bit_convert_range [OF t]]] have
    "BitConvert \<lparr>numOfBits = 64\<rparr> (VUint64 0xFFFFFFFFFFFFFFFF) = Inr (VUint64 0xFFFFFFFFFFFFFFFF)" by presburger
  with t show ?thesis by blast
qed

end
