(* ===== verification/Read_Loop.thy ===== *)
theory Read_Loop
  imports Row_Iter
begin

text \<open>
  Nodes that read all rows of their child before they return the first row of their own (\<^verbatim>\<open>Sort\<close>, \<^verbatim>\<open>GroupBy\<close>): the
  loop they share, and what it comes to if the child keeps the contract of row iterators.
\<close>

text \<open>
  \<^verbatim>\<open>for { row, err := child.Next(); if err == io.EOF { break }; if err != nil { return err }; ... }\<close>, the loop with which a node
  reads its child to the end. \<open>add\<close> is the body: what it does with the row, and the error it stops with.
\<close>

partial_function (option) read_into ::
    "('s, 'r) nextfun \<Rightarrow> ('m \<Rightarrow> 'r \<Rightarrow> (sql_error + unit) \<times> 'm) \<Rightarrow> 's \<Rightarrow> 'm \<Rightarrow> (('s \<times> 'm) \<times> sql_error option) option" where
  "read_into nxt add s m =
     (case nxt s of
        None \<Rightarrow> None
      | Some (s', NEOF) \<Rightarrow> Some ((s', m), None)
      | Some (s', NErr e) \<Rightarrow> Some ((s', m), Some e)
      | Some (s', NRow r) \<Rightarrow>
          (case add m r of
             (Inl e, m') \<Rightarrow> Some ((s', m'), Some e)
           | (Inr _, m') \<Rightarrow> read_into nxt add s' m'))"

declare read_into.simps [code]

text \<open>The body on the rows of a list.\<close>

fun add_all :: "('m \<Rightarrow> 'r \<Rightarrow> (sql_error + unit) \<times> 'm) \<Rightarrow> 'm \<Rightarrow> 'r list \<Rightarrow> 'm \<times> sql_error option" where
  "add_all add m [] = (m, None)"
| "add_all add m (r # rs) =
     (case add m r of (Inl e, m') \<Rightarrow> (m', Some e) | (Inr _, m') \<Rightarrow> add_all add m' rs)"

context row_iter
begin

lemma read_into_contents:
  "good s \<Longrightarrow> contents s = (rs, e) \<Longrightarrow>
   \<exists>s'. read_into nxt add s m = Some ((s', fst (add_all add m rs)),
     (case snd (add_all add m rs) of Some err \<Rightarrow> Some err | None \<Rightarrow> e)) \<and>
     (snd (add_all add m rs) = None \<and> e = None \<longrightarrow> good s')"
proof (induction rs arbitrary: s m)
  case Nil
  show ?case
  proof (cases e)
    case None
    with Nil nxt_eof [of s] show ?thesis by (subst read_into.simps) auto
  next
    case (Some err)
    with Nil nxt_err [of s] show ?thesis by (subst read_into.simps) auto
  qed
next
  case (Cons r rs)
  from nxt_row [OF Cons.prems] obtain s' where
    s': "nxt s = Some (s', NRow r)" "good s'" "contents s' = (rs, e)" by blast
  obtain res m' where add: "add m r = (res, m')" by fastforce
  from s' add Cons.IH [OF s'(2,3), of m'] show ?case
    by (subst read_into.simps) (auto split: sum.splits)
qed

end

lemma add_all_append:
  "add_all add m (rs @ rs') = (case add_all add m rs of (m', Some e) \<Rightarrow> (m', Some e) | (m', None) \<Rightarrow> add_all add m' rs')"
  by (induction rs arbitrary: m) (auto split: sum.splits prod.splits option.splits)

end
