(* ===== verification/Sql_Types.thy ===== *)
theory Sql_Types
  imports Set_Type Small_Types
begin

text \<open>
  The types of SQL values: \<^verbatim>\<open>sql/type.go\<close> with the predicates on types and the translation of column
  definitions, and the construction of number, decimal and string types (\<^verbatim>\<open>sql/numbertype.go\<close>, \<^verbatim>\<open>sql/decimal.go\<close>,
  \<^verbatim>\<open>sql/stringtype.go\<close>).
\<close>

unbundle bit_operations_syntax

section \<open>Types\<close>

text \<open>The type constants of the wire protocol that the types are built on.\<close>

datatype (plugins only: "code" "size") query_type =
    QNull | QInt8 | QUint8 | QInt16 | QUint16 | QInt24 | QUint24 | QInt32 | QUint32 | QInt64 | QUint64
  | QFloat32 | QFloat64 | QTimestamp | QDate | QTime | QDatetime | QYear | QDecimal | QText | QBlob
  | QVarChar | QVarBinary | QChar | QBinary | QBit | QEnum | QSet | QTuple | QGeometry | QTypeJSON | QExpression

text \<open>
  The implementations of the interface \<^verbatim>\<open>Type\<close>. A decimal type has its upper bound as a big number behind a
  pointer, of which only the identity matters here: the first argument.
\<close>

datatype (plugins only: "code" "size") sql_type =
    NumberT query_type
  | DecimalT nat u8 u8
  | StringT query_type i64 Collation
  | DatetimeT query_type
  | TimeT
  | YearT
  | BitT bitType
  | EnumT enumType
  | SetT setType
  | JsonT
  | NullT
  | ArrayT sql_type
  | TupleT "sql_type list"

definition query_type_of :: "sql_type \<Rightarrow> query_type" where
  "query_type_of t = (case t of
     NumberT q \<Rightarrow> q | DecimalT a p s \<Rightarrow> QDecimal | StringT q n c \<Rightarrow> q | DatetimeT q \<Rightarrow> q | TimeT \<Rightarrow> QTime
   | YearT \<Rightarrow> QYear | BitT b \<Rightarrow> QBit | EnumT e \<Rightarrow> QEnum | SetT s \<Rightarrow> QSet | JsonT \<Rightarrow> QTypeJSON | NullT \<Rightarrow> QNull
   | ArrayT u \<Rightarrow> QTypeJSON | TupleT ts \<Rightarrow> QExpression)"

text \<open>
  \<^verbatim>\<open>==\<close> on two types: equal structs are equal, but the structs of ENUM and SET have maps and a tuple is a
  slice, and comparing two of those panics.
\<close>

fun type_eq :: "sql_type \<Rightarrow> sql_type \<Rightarrow> sql_error + bool" where
  "type_eq (EnumT a) (EnumT b) = Inl uncomparable"
| "type_eq (SetT a) (SetT b) = Inl uncomparable"
| "type_eq (TupleT a) (TupleT b) = Inl uncomparable"
| "type_eq (ArrayT a) (ArrayT b) = type_eq a b"
| "type_eq a b = Inr (a = b)"

section \<open>Number and decimal types\<close>

definition number_types :: "query_type list" where
  "number_types = [QInt8, QUint8, QInt16, QUint16, QInt24, QUint24, QInt32, QUint32, QInt64, QUint64, QFloat32, QFloat64]"

definition CreateNumberType :: "query_type \<Rightarrow> sql_error + sql_type" where
  "CreateNumberType q =
     (if q \<in> set number_types then Inr (NumberT q) else Inl (ErrGeneric ''not a valid number base type''))"

definition CreateDecimalType :: "nat \<Rightarrow> u8 \<Rightarrow> u8 \<Rightarrow> sql_error + sql_type" where
  "CreateDecimalType addr precision scale =
     (if precision > 65 then Inl (ErrGeneric ''beyond the max precision'')
      else if scale > precision then Inl (ErrGeneric ''scale cannot be larger than the precision'')
      else if scale > 30 then Inl (ErrGeneric ''beyond the max scale'')
      else Inr (DecimalT addr (if precision = 0 then 10 else precision) scale))"

definition MaximumScale :: "u8 \<Rightarrow> u8" where
  "MaximumScale precision = (if precision \<ge> 30 then 30 else precision)"

section \<open>String types\<close>

definition string_types :: "query_type list" where
  "string_types = [QChar, QBinary, QVarChar, QVarBinary, QText, QBlob]"

definition charset_length :: "Collation \<Rightarrow> sql_error + i64" where
  "charset_length c = bindE (CharacterSet_of c) (\<lambda>cs. bindE (MaxLength cs) (\<lambda>n. Inr (word_of_int n)))"

text \<open>\<^verbatim>\<open>max / charsetMaxLength\<close>; both are positive.\<close>

definition div_len :: "i64 \<Rightarrow> i64 \<Rightarrow> i64" where
  "div_len a b = word_of_int (sint a div sint b)"

definition string_base :: "query_type \<Rightarrow> Collation \<Rightarrow> query_type" where
  "string_base q c =
     (if c = Collation_binary then (case q of QChar \<Rightarrow> QBinary | QVarChar \<Rightarrow> QVarBinary | QText \<Rightarrow> QBlob | _ \<Rightarrow> q) else q)"

text \<open>The length of a TEXT or BLOB: that of the smallest kind with enough bytes.\<close>

definition text_length :: "i64 \<Rightarrow> i64 \<Rightarrow> i64" where
  "text_length byteLength charsetMaxLength =
     (if byteLength \<le>s 255 then div_len 255 charsetMaxLength
      else if byteLength \<le>s 65535 then div_len 65535 charsetMaxLength
      else if byteLength \<le>s 16777215 then div_len 16777215 charsetMaxLength
      else 4294967295)"

definition CreateString :: "query_type \<Rightarrow> i64 \<Rightarrow> Collation \<Rightarrow> sql_error + sql_type" where
  "CreateString baseType len collation =
     (if baseType \<notin> set string_types then Inl (ErrInvalidBaseType [] ''string'')
      else if len <s 0 then Inl (ErrGeneric ''length is less than the minimum of 0'')
      else if baseType \<in> {QBinary, QVarBinary, QBlob} \<and> collation \<noteq> Collation_binary then Inl ErrBinaryCollation
      else
        bindE (charset_length collation) (\<lambda>charsetMaxLength.
          let baseType = string_base baseType collation; byteLength = len * charsetMaxLength in
          if baseType \<in> {QChar, QBinary} then
            if 255 <s len then Inl (ErrLengthTooLarge (sint len) 255) else Inr (StringT baseType len collation)
          else if baseType \<in> {QVarChar, QVarBinary} then
            if 65535 <s byteLength then Inl (ErrLengthTooLarge (sint len) (65535 div sint charsetMaxLength))
            else Inr (StringT baseType len collation)
          else
            if 4294967295 <s len then Inl (ErrLengthTooLarge (sint len) 4294967295)
            else Inr (StringT baseType (text_length byteLength charsetMaxLength) collation)))"

definition CreateBinary :: "query_type \<Rightarrow> i64 \<Rightarrow> sql_error + sql_type" where
  "CreateBinary q n = CreateString q n Collation_binary"

definition CreateStringWithDefaults :: "query_type \<Rightarrow> i64 \<Rightarrow> sql_error + sql_type" where
  "CreateStringWithDefaults q n = CreateString q n Collation_Default"

text \<open>\<^verbatim>\<open>longTextBlobMax/collation.CharacterSet().MaxLength()\<close> and the like, the length of a TEXT type.\<close>

definition CreateTextOf :: "i64 \<Rightarrow> Collation \<Rightarrow> sql_error + sql_type" where
  "CreateTextOf m c = bindE (charset_length c) (\<lambda>n. CreateString QText (div_len m n) c)"

definition MaxByteLength :: "i64 \<Rightarrow> Collation \<Rightarrow> sql_error + i64" where
  "MaxByteLength n c = bindE (charset_length c) (\<lambda>m. Inr (n * m))"

section \<open>Predicates on types\<close>

definition comparable_class :: "query_type \<Rightarrow> nat option" where
  "comparable_class q =
     (if q \<in> set number_types \<union> {QDecimal, QBit, QYear} then Some 1
      else if q \<in> {QTimestamp, QDate, QDatetime} then Some 2
      else if q = QTime then Some 3
      else if q \<in> {QText, QBlob, QVarChar, QVarBinary, QChar, QBinary} then Some 4
      else if q = QEnum then Some 5
      else if q = QSet then Some 6
      else if q = QGeometry then Some 7
      else if q = QTypeJSON then Some 8
      else None)"

definition AreComparable :: "sql_type list \<Rightarrow> bool" where
  "AreComparable ts =
     (if length ts \<le> 1 then True
      else if \<exists>t \<in> set ts. comparable_class (query_type_of t) = None then False
      else
        let nums = map (comparable_class \<circ> query_type_of) ts in
        list_all (\<lambda>i. nums ! (i - 1) = nums ! i) [1..<length nums])"

definition IsArray :: "sql_type \<Rightarrow> bool" where
  "IsArray t = (case t of ArrayT _ \<Rightarrow> True | _ \<Rightarrow> False)"

definition IsBlob :: "sql_type \<Rightarrow> bool" where
  "IsBlob t \<longleftrightarrow> query_type_of t \<in> {QBinary, QVarBinary, QBlob}"

definition IsDecimal :: "sql_type \<Rightarrow> bool" where
  "IsDecimal t = (case t of DecimalT _ _ _ \<Rightarrow> True | _ \<Rightarrow> False)"

definition IsFloat :: "sql_type \<Rightarrow> bool" where
  "IsFloat t \<longleftrightarrow> t = NumberT QFloat32 \<or> t = NumberT QFloat64"

definition IsSigned :: "sql_type \<Rightarrow> bool" where
  "IsSigned t \<longleftrightarrow> t = NumberT QInt8 \<or> t = NumberT QInt16 \<or> t = NumberT QInt32 \<or> t = NumberT QInt64"

definition IsUnsigned :: "sql_type \<Rightarrow> bool" where
  "IsUnsigned t \<longleftrightarrow> t = NumberT QUint8 \<or> t = NumberT QUint16 \<or> t = NumberT QUint32 \<or> t = NumberT QUint64"

definition IsInteger :: "sql_type \<Rightarrow> bool" where
  "IsInteger t \<longleftrightarrow> IsSigned t \<or> IsUnsigned t"

definition IsNumber :: "sql_type \<Rightarrow> bool" where
  "IsNumber t = (case t of NumberT _ \<Rightarrow> True | DecimalT _ _ _ \<Rightarrow> True | _ \<Rightarrow> False)"

definition IsText :: "sql_type \<Rightarrow> bool" where
  "IsText t = (case t of StringT _ _ _ \<Rightarrow> True | JsonT \<Rightarrow> True | _ \<Rightarrow> False)"

definition IsTextBlob :: "sql_type \<Rightarrow> bool" where
  "IsTextBlob t \<longleftrightarrow> query_type_of t \<in> {QText, QBlob}"

definition IsTextOnly :: "sql_type \<Rightarrow> bool" where
  "IsTextOnly t \<longleftrightarrow> query_type_of t \<in> {QChar, QVarChar, QText}"

definition IsTime :: "sql_type \<Rightarrow> bool" where
  "IsTime t = (case t of DatetimeT _ \<Rightarrow> True | _ \<Rightarrow> False)"

definition IsTuple :: "sql_type \<Rightarrow> bool" where
  "IsTuple t = (case t of TupleT ts \<Rightarrow> length ts > 1 | _ \<Rightarrow> False)"

definition NumColumns :: "sql_type \<Rightarrow> nat" where
  "NumColumns t = (case t of TupleT ts \<Rightarrow> length ts | _ \<Rightarrow> 1)"

definition UnderlyingType :: "sql_type \<Rightarrow> sql_type" where
  "UnderlyingType t = (case t of ArrayT u \<Rightarrow> u | _ \<Rightarrow> t)"

section \<open>Promotion and zero values\<close>

definition NumberPromote :: "query_type \<Rightarrow> sql_error + sql_type" where
  "NumberPromote q =
     (if q \<in> {QInt8, QInt16, QInt24, QInt32, QInt64} then Inr (NumberT QInt64)
      else if q \<in> {QUint8, QUint16, QUint24, QUint32, QUint64} then Inr (NumberT QUint64)
      else if q \<in> {QFloat32, QFloat64} then Inr (NumberT QFloat64)
      else Inl (Panic ''ErrInvalidBaseType''))"

definition NumberZero :: "query_type \<Rightarrow> sql_error + val" where
  "NumberZero q = (case q of
     QInt8 \<Rightarrow> Inr (VInt8 0) | QUint8 \<Rightarrow> Inr (VUint8 0) | QInt16 \<Rightarrow> Inr (VInt16 0) | QUint16 \<Rightarrow> Inr (VUint16 0)
   | QInt24 \<Rightarrow> Inr (VInt32 0) | QUint24 \<Rightarrow> Inr (VUint32 0) | QInt32 \<Rightarrow> Inr (VInt32 0) | QUint32 \<Rightarrow> Inr (VUint32 0)
   | QInt64 \<Rightarrow> Inr (VInt64 0) | QUint64 \<Rightarrow> Inr (VUint64 0) | QFloat32 \<Rightarrow> Inr (VFloat32 0) | QFloat64 \<Rightarrow> Inr (VFloat64 0)
   | _ \<Rightarrow> Inl (Panic ''not a valid number base type''))"

definition NumericUnaryValue :: "sql_type \<Rightarrow> sql_error + val" where
  "NumericUnaryValue t = (case t of
     NumberT q \<Rightarrow> (case q of
       QInt8 \<Rightarrow> Inr (VInt8 1) | QUint8 \<Rightarrow> Inr (VUint8 1) | QInt16 \<Rightarrow> Inr (VInt16 1) | QUint16 \<Rightarrow> Inr (VUint16 1)
     | QInt24 \<Rightarrow> Inr (VInt32 1) | QUint24 \<Rightarrow> Inr (VUint32 1) | QInt32 \<Rightarrow> Inr (VInt32 1) | QUint32 \<Rightarrow> Inr (VUint32 1)
     | QInt64 \<Rightarrow> Inr (VInt64 1) | QUint64 \<Rightarrow> Inr (VUint64 1)
     | QFloat32 \<Rightarrow> Inr (VFloat32 0x3F800000) | QFloat64 \<Rightarrow> Inr (VFloat64 0x3FF0000000000000)
     | _ \<Rightarrow> Inl (Panic ''not a valid number base type''))
   | _ \<Rightarrow> Inl (Panic ''interface conversion''))"

definition StringPromote :: "query_type \<Rightarrow> Collation \<Rightarrow> sql_error + sql_type" where
  "StringPromote q c =
     (if q \<in> {QChar, QVarChar, QText} then CreateString QText 4294967295 c
      else if q \<in> {QBinary, QVarBinary, QBlob} then CreateBinary QBlob 4294967295
      else Inl (Panic ''ErrInvalidBaseType''))"

section \<open>Column definitions\<close>

text \<open>The column definition of the SQL parser.\<close>

record ColumnType =
  ct_Type :: string
  ct_Length :: "string option"
  ct_Scale :: "string option"
  ct_Unsigned :: bool
  ct_Charset :: string
  ct_Collate :: string
  ct_EnumValues :: "string list"

definition ct_collation :: "ColumnType \<Rightarrow> sql_error + Collation" where
  "ct_collation ct = ParseCollation (Some (ct_Charset ct)) (Some (ct_Collate ct)) False"

definition ct_number :: "string option \<Rightarrow> nat \<Rightarrow> int \<Rightarrow> sql_error + int" where
  "ct_number s bits def = (case s of None \<Rightarrow> Inr def | Some x \<Rightarrow> ParseInt x bits)"

definition ct_required :: "string \<Rightarrow> string option \<Rightarrow> sql_error + int" where
  "ct_required what s = (case s of None \<Rightarrow> Inl (ErrGeneric (what @ '' requires a length'')) | Some x \<Rightarrow> ParseInt x 64)"

definition ColumnTypeToType :: "nat \<Rightarrow> ColumnType \<Rightarrow> sql_error + sql_type" where
  "ColumnTypeToType addr ct =
     (let ty = ToLower (ct_Type ct); uns = ct_Unsigned ct in
      if ty \<in> {''boolean'', ''bool''} then Inr (NumberT QInt8)
      else if ty = ''tinyint'' then Inr (NumberT (if uns then QUint8 else QInt8))
      else if ty = ''smallint'' then Inr (NumberT (if uns then QUint16 else QInt16))
      else if ty = ''mediumint'' then Inr (NumberT (if uns then QUint24 else QInt24))
      else if ty \<in> {''int'', ''integer''} then Inr (NumberT (if uns then QUint32 else QInt32))
      else if ty = ''bigint'' then Inr (NumberT (if uns then QUint64 else QInt64))
      else if ty = ''float'' then Inr (NumberT QFloat32)
      else if ty \<in> {''double'', ''real'', ''double precision''} then Inr (NumberT QFloat64)
      else if ty \<in> {''decimal'', ''fixed'', ''dec'', ''numeric''} then
        bindE (ct_number (ct_Length ct) 8 0) (\<lambda>precision. bindE (ct_number (ct_Scale ct) 8 0) (\<lambda>scale.
          CreateDecimalType addr (word_of_int precision) (word_of_int scale)))
      else if ty = ''bit'' then
        bindE (ct_number (ct_Length ct) 8 1) (\<lambda>len. bindE (CreateBitType (word_of_int len)) (\<lambda>b. Inr (BitT b)))
      else if ty = ''tinyblob'' then CreateBinary QBlob 255
      else if ty = ''blob'' then
        if ct_Length ct = None then CreateBinary QBlob 65535
        else bindE (ct_number (ct_Length ct) 64 0) (\<lambda>len. CreateBinary QBlob (word_of_int len))
      else if ty = ''mediumblob'' then CreateBinary QBlob 16777215
      else if ty = ''longblob'' then CreateBinary QBlob 4294967295
      else if ty = ''tinytext'' then bindE (ct_collation ct) (CreateTextOf 255)
      else if ty = ''text'' then
        bindE (ct_collation ct) (\<lambda>c.
          if ct_Length ct = None then CreateTextOf 65535 c
          else bindE (ct_number (ct_Length ct) 64 0) (\<lambda>len. CreateString QText (word_of_int len) c))
      else if ty \<in> {''mediumtext'', ''long'', ''long varchar''} then bindE (ct_collation ct) (CreateTextOf 16777215)
      else if ty = ''longtext'' then bindE (ct_collation ct) (CreateTextOf 4294967295)
      else if ty \<in> {''char'', ''character''} then
        bindE (ct_collation ct) (\<lambda>c. bindE (ct_number (ct_Length ct) 64 1) (\<lambda>len. CreateString QChar (word_of_int len) c))
      else if ty \<in> {''nchar'', ''national char'', ''national character''} then
        bindE (ct_number (ct_Length ct) 64 1) (\<lambda>len. CreateString QChar (word_of_int len) ''utf8mb3_general_ci'')
      else if ty \<in> {''varchar'', ''character varying''} then
        bindE (ct_collation ct) (\<lambda>c.
          bindE (ct_required ''VARCHAR'' (ct_Length ct)) (\<lambda>len. CreateString QVarChar (word_of_int len) c))
      else if ty \<in> {''nvarchar'', ''national varchar'', ''national character varying''} then
        bindE (ct_required ''VARCHAR'' (ct_Length ct)) (\<lambda>len.
          CreateString QVarChar (word_of_int len) ''utf8mb3_general_ci'')
      else if ty = ''binary'' then
        bindE (ct_number (ct_Length ct) 64 1) (\<lambda>len. CreateString QBinary (word_of_int len) Collation_binary)
      else if ty = ''varbinary'' then
        bindE (ct_required ''VARBINARY'' (ct_Length ct)) (\<lambda>len. CreateString QVarBinary (word_of_int len) Collation_binary)
      else if ty = ''year'' then Inr YearT
      else if ty = ''date'' then Inr (DatetimeT QDate)
      else if ty = ''time'' then Inr TimeT
      else if ty = ''timestamp'' then Inr (DatetimeT QTimestamp)
      else if ty = ''datetime'' then Inr (DatetimeT QDatetime)
      else if ty = ''enum'' then
        bindE (ct_collation ct) (\<lambda>c. bindE (CreateEnumType (ct_EnumValues ct) c) (\<lambda>t. Inr (EnumT t)))
      else if ty = ''set'' then
        bindE (ct_collation ct) (\<lambda>c. bindE (CreateSetType (ct_EnumValues ct) c) (\<lambda>t. Inr (SetT t)))
      else if ty = ''json'' then Inr JsonT
      else if ty \<in> {''geometry'', ''geometrycollection'', ''linestring'', ''multilinestring'', ''point'', ''multipoint'',
          ''polygon'', ''multipolygon''} then Inl (ErrGeneric (''type not yet implemented: '' @ ct_Type ct))
      else Inl (ErrGeneric (''unknown type: '' @ ct_Type ct)))"

section \<open>Names of types\<close>

definition lob_size :: "i64 \<Rightarrow> string" where
  "lob_size byteLength =
     (if byteLength \<le>s 255 then ''TINY'' else if byteLength \<le>s 65535 then []
      else if byteLength \<le>s 16777215 then ''MEDIUM'' else ''LONG'')"

text \<open>The word a string type is written with, and whether its length follows in parentheses.\<close>

definition string_word :: "query_type \<Rightarrow> i64 \<Rightarrow> string" where
  "string_word q byteLength = (case q of
     QChar \<Rightarrow> ''CHAR'' | QBinary \<Rightarrow> ''BINARY'' | QVarChar \<Rightarrow> ''VARCHAR'' | QVarBinary \<Rightarrow> ''VARBINARY''
   | QText \<Rightarrow> lob_size byteLength @ ''TEXT'' | QBlob \<Rightarrow> lob_size byteLength @ ''BLOB'' | _ \<Rightarrow> [])"

definition string_sized :: "query_type \<Rightarrow> bool" where
  "string_sized q \<longleftrightarrow> q \<in> {QChar, QBinary, QVarChar, QVarBinary}"

definition StringString :: "query_type \<Rightarrow> i64 \<Rightarrow> Collation \<Rightarrow> sql_error + string" where
  "StringString q n c = bindE (MaxByteLength n c) (\<lambda>byteLength. bindE (CharacterSet_of c) (\<lambda>cs.
     bindE (CharacterSet_of Collation_Default) (\<lambda>dcs.
       let s = string_word q byteLength @ (if string_sized q then ''('' @ Itoa (sint n) @ '')'' else []) in
       if cs \<noteq> ''binary'' then
         Inr (s @ (if cs \<noteq> dcs then '' CHARACTER SET '' @ cs else []) @
                (if c \<noteq> Collation_Default then '' COLLATE '' @ c else []))
       else Inr s)))"

definition NumberString :: "query_type \<Rightarrow> sql_error + string" where
  "NumberString q = (case q of
     QInt8 \<Rightarrow> Inr ''TINYINT'' | QUint8 \<Rightarrow> Inr ''TINYINT UNSIGNED'' | QInt16 \<Rightarrow> Inr ''SMALLINT''
   | QUint16 \<Rightarrow> Inr ''SMALLINT UNSIGNED'' | QInt24 \<Rightarrow> Inr ''MEDIUMINT'' | QUint24 \<Rightarrow> Inr ''MEDIUMINT UNSIGNED''
   | QInt32 \<Rightarrow> Inr ''INT'' | QUint32 \<Rightarrow> Inr ''INT UNSIGNED'' | QInt64 \<Rightarrow> Inr ''BIGINT'' | QUint64 \<Rightarrow> Inr ''BIGINT UNSIGNED''
   | QFloat32 \<Rightarrow> Inr ''FLOAT'' | QFloat64 \<Rightarrow> Inr ''DOUBLE''
   | _ \<Rightarrow> Inl (Panic ''not a valid number base type''))"

section \<open>Well-formed types\<close>

definition charlen :: "Collation \<Rightarrow> int" where
  "charlen c = (case charset_length c of Inr m \<Rightarrow> sint m | Inl _ \<Rightarrow> 0)"

definition string_ok :: "query_type \<Rightarrow> i64 \<Rightarrow> Collation \<Rightarrow> bool" where
  "string_ok q n c \<longleftrightarrow>
     q \<in> set string_types \<and> c \<in> known_collations \<and> (q \<in> {QBinary, QVarBinary, QBlob} \<longleftrightarrow> c = Collation_binary) \<and> 0 \<le> sint n \<and>
     (q \<in> {QChar, QBinary} \<longrightarrow> sint n \<le> 255) \<and>
     (q \<in> {QVarChar, QVarBinary} \<longrightarrow> sint n * charlen c \<le> 65535) \<and>
     (q \<in> {QText, QBlob} \<longrightarrow>
       sint n \<in> {255 div charlen c, 65535 div charlen c, 16777215 div charlen c, 4294967295})"

definition type_ok :: "sql_type \<Rightarrow> bool" where
  "type_ok t = (case t of
     NumberT q \<Rightarrow> q \<in> set number_types
   | DecimalT a p s \<Rightarrow> 1 \<le> p \<and> p \<le> 65 \<and> s \<le> p \<and> s \<le> 30
   | StringT q n c \<Rightarrow> string_ok q n c
   | BitT b \<Rightarrow> 0 < numOfBits b \<and> numOfBits b \<le> 64
   | EnumT e \<Rightarrow> enum_ok e
   | SetT s \<Rightarrow> 1 \<le> length (valToBit s) \<and> length (valToBit s) \<le> 64
   | DatetimeT q \<Rightarrow> q \<in> {QDate, QTimestamp, QDatetime}
   | _ \<Rightarrow> True)"

lemma charset_length_known:
  assumes "c \<in> known_collations"
  shows "charset_length c = Inr (word_of_int (charlen c))" and "1 \<le> charlen c" and "charlen c \<le> 4"
proof -
  from MaxLength_known [OF prefix_known [OF assms]] obtain n
    where n: "MaxLength (cs_prefix c) = Inr n" "1 \<le> n" "n \<le> 4" by blast
  have "charset_length c = Inr (word_of_int n)"
    by (simp add: charset_length_def CharacterSet_of_known [OF assms] n(1))
  moreover from this n have "charlen c = n"
    by (simp add: charlen_def signed_of_int signed_take_bit_int_eq_self)
  ultimately show "charset_length c = Inr (word_of_int (charlen c))" "1 \<le> charlen c" "charlen c \<le> 4"
    using n by simp_all
qed

lemma sint_of_small: "- (2 ^ 63) \<le> i \<Longrightarrow> i < 2 ^ 63 \<Longrightarrow> sint (word_of_int i :: i64) = i"
  by (simp add: signed_of_int signed_take_bit_int_eq_self)

lemma sint_div_len:
  assumes "1 \<le> m" and "m \<le> 4" and "0 \<le> sint a"
  shows "sint (div_len a (word_of_int m)) = sint a div m"
proof -
  have m: "sint (word_of_int m :: i64) = m" using assms by (simp add: sint_of_small)
  have "sint a div m \<le> sint a" using zdiv_mono2 [of "sint a" 1 m] assms by simp
  with assms i64_bounds [of a] have "0 \<le> sint a div m" "sint a div m < 2 ^ 63"
    by (simp_all add: pos_imp_zdiv_nonneg_iff)
  then show ?thesis unfolding div_len_def m by (simp add: sint_of_small)
qed

lemma sint_text_length:
  assumes "1 \<le> m" and "m \<le> 4"
  shows "sint (text_length b (word_of_int m)) =
    (if sint b \<le> 255 then 255 div m else if sint b \<le> 65535 then 65535 div m
     else if sint b \<le> 16777215 then 16777215 div m else 4294967295)"
  using sint_div_len [OF assms, of 255] sint_div_len [OF assms, of 65535] sint_div_len [OF assms, of 16777215]
  by (simp add: text_length_def word_sle_eq)

lemma string_base_simps:
  "q \<in> set string_types \<Longrightarrow> \<not> (q \<in> {QBinary, QVarBinary, QBlob} \<and> c \<noteq> Collation_binary) \<Longrightarrow>
   string_base q c \<in> set string_types \<and>
   (string_base q c \<in> {QBinary, QVarBinary, QBlob} \<longleftrightarrow> c = Collation_binary) \<and>
   (string_base q c \<in> {QVarChar, QVarBinary} \<longleftrightarrow> q \<in> {QVarChar, QVarBinary})"
  by (auto simp: string_types_def string_base_def)

lemma sint_charlen_mult:
  fixes n :: i64
  assumes "c \<in> known_collations" and "0 \<le> sint n" and "sint n < 2 ^ 61"
  shows "sint (n * word_of_int (charlen c)) = sint n * charlen c"
proof -
  note len = charset_length_known [OF assms(1)]
  then have m: "sint (word_of_int (charlen c) :: i64) = charlen c" by (simp add: sint_of_small)
  have "sint n * charlen c \<le> sint n * 4" "0 \<le> sint n * charlen c"
    using len assms by (simp_all add: mult_left_mono)
  with assms show ?thesis using sint_mult_eq [of n "word_of_int (charlen c)"] m by simp
qed

lemma CreateString_ok:
  assumes c: "c \<in> known_collations" and t: "CreateString q n c = Inr t"
    and small: "q \<in> {QVarChar, QVarBinary} \<Longrightarrow> sint n < 2 ^ 61"
  shows "type_ok t"
proof -
  note len = charset_length_known [OF c]
  from t have q: "q \<in> set string_types" and n: "0 \<le> sint n" and
    bin: "\<not> (q \<in> {QBinary, QVarBinary, QBlob} \<and> c \<noteq> Collation_binary)"
    by (auto simp: CreateString_def word_sless_alt split: if_splits)
  define b where "b = string_base q c"
  have b: "b \<in> set string_types" "b \<in> {QBinary, QVarBinary, QBlob} \<longleftrightarrow> c = Collation_binary"
    "b \<in> {QVarChar, QVarBinary} \<longleftrightarrow> q \<in> {QVarChar, QVarBinary}"
    using string_base_simps [OF q bin] by (simp_all add: b_def)
  consider "b \<in> {QChar, QBinary}" | "b \<in> {QVarChar, QVarBinary}" | "b \<in> {QText, QBlob}"
    using b(1) by (auto simp: string_types_def)
  then show ?thesis
  proof cases
    case 1
    with t q n bin have "t = StringT b n c" "sint n \<le> 255"
      by (auto simp: CreateString_def len(1) b_def [symmetric] word_sless_alt split: if_splits)
    with 1 n b c show ?thesis by (auto simp: type_ok_def string_ok_def)
  next
    case 2
    with b(3) small n have "sint (n * word_of_int (charlen c)) = sint n * charlen c"
      by (intro sint_charlen_mult [OF c]) auto
    with 2 t q n bin have "t = StringT b n c" "sint n * charlen c \<le> 65535"
      by (auto simp: CreateString_def len(1) b_def [symmetric] word_sless_alt split: if_splits)
    with 2 n b c show ?thesis by (auto simp: type_ok_def string_ok_def)
  next
    case 3
    with t q n bin have "t = StringT b (text_length (n * word_of_int (charlen c)) (word_of_int (charlen c))) c"
      by (auto simp: CreateString_def len(1) b_def [symmetric] word_sless_alt split: if_splits)
    with 3 b c len show ?thesis
      by (auto simp: type_ok_def string_ok_def sint_text_length pos_imp_zdiv_nonneg_iff)
  qed
qed

lemma if_resultE: "(if P then a else b) = r \<Longrightarrow> (a = r \<Longrightarrow> Q) \<Longrightarrow> (b = r \<Longrightarrow> Q) \<Longrightarrow> Q"
  by (cases P) auto

lemma bindE_InrE: "bindE r f = Inr y \<Longrightarrow> (\<And>x. r = Inr x \<Longrightarrow> f x = Inr y \<Longrightarrow> Q) \<Longrightarrow> Q"
  by (cases r) auto

lemma bindE_InlE:
  "bindE r f = Inl e \<Longrightarrow> (r = Inl e \<Longrightarrow> Q) \<Longrightarrow> (\<And>x. r = Inr x \<Longrightarrow> f x = Inl e \<Longrightarrow> Q) \<Longrightarrow> Q"
  by (cases r) auto

lemma more_known: "Collation_binary \<in> known_collations" "''utf8mb3_general_ci'' \<in> known_collations"
  by (simp_all add: known_collations_def Collation_binary_def collation_consts_defs)

lemma ct_collation_known: "ct_collation ct = Inr c \<Longrightarrow> c \<in> known_collations"
  using ParseCollation_parsed_ok [of "Some (ct_Charset ct)" "Some (ct_Collate ct)" False]
  by (auto simp: ct_collation_def parsed_ok_def)

lemma CreateTextOf_ok: "c \<in> known_collations \<Longrightarrow> CreateTextOf m c = Inr t \<Longrightarrow> type_ok t"
  unfolding CreateTextOf_def by (elim bindE_InrE) (rule CreateString_ok, auto)

lemma CreateDecimalType_ok: "CreateDecimalType addr p s = Inr t \<Longrightarrow> type_ok t"
  by (auto simp: CreateDecimalType_def type_ok_def word_less_nat_alt word_le_nat_alt unat_gt_0 Suc_le_eq not_less split: if_splits)

lemma CreateBitType_ok: "CreateBitType n = Inr b \<Longrightarrow> type_ok (BitT b)"
  by (auto simp: CreateBitType_def type_ok_def not_less word_neq_0_conv split: if_splits)

lemma CreateSetType_ok: "CreateSetType vs c = Inr s \<Longrightarrow> type_ok (SetT s)"
  using CreateSetType_repr [of vs c s] by (cases vs) (auto simp: CreateSetType_def type_ok_def set_repr_def)

lemma string_ok_length:
  assumes "string_ok q n c"
  shows "c \<in> known_collations" and "0 \<le> sint n" and "sint n \<le> 4294967295"
proof -
  show c: "c \<in> known_collations" and n: "0 \<le> sint n" using assms by (simp_all add: string_ok_def)
  have m: "1 \<le> charlen c" by (rule charset_length_known(2) [OF c])
  have le: "k div charlen c \<le> k" if "0 \<le> k" for k using zdiv_mono2 [of k 1 "charlen c"] m that by simp
  have tx: "k div charlen c \<le> 4294967295" if "k = 255 \<or> k = 65535 \<or> k = 16777215" for k
    by (rule order_trans [OF le]) (use that in auto)
  have var: "sint n \<le> sint n * charlen c" using n m mult_left_mono [of 1 "charlen c" "sint n"] by simp
  from assms consider "sint n \<le> 255" | "sint n * charlen c \<le> 65535"
    | k where "k = 255 \<or> k = 65535 \<or> k = 16777215" "sint n = k div charlen c" | "sint n = 4294967295"
    unfolding string_ok_def string_types_def by (elim conjE) (simp, blast)
  then show "sint n \<le> 4294967295"
  proof cases
    case 2
    then show ?thesis using var by linarith
  next
    case (3 k)
    then show ?thesis using tx by simp
  qed simp_all
qed

text \<open>One lemma for each way a column definition ends.\<close>

lemma CreateBlob_ok: "CreateBinary QBlob n = Inr t \<Longrightarrow> type_ok t"
  unfolding CreateBinary_def by (rule CreateString_ok [OF more_known(1)]) auto

lemma CreateVar_ok: "c \<in> known_collations \<Longrightarrow> CreateString q n c = Inr t \<Longrightarrow> sint n < 2 ^ 61 \<Longrightarrow> type_ok t"
  by (rule CreateString_ok)

lemma CreateFixed_ok:
  "c \<in> known_collations \<Longrightarrow> CreateString q n c = Inr t \<Longrightarrow> q \<noteq> QVarChar \<and> q \<noteq> QVarBinary \<Longrightarrow> type_ok t"
  by (rule CreateString_ok) auto

lemma CreateBit_leaf: "Inr (BitT b) = (Inr t :: sql_error + sql_type) \<Longrightarrow> CreateBitType n = Inr b \<Longrightarrow> type_ok t"
  by (auto dest: CreateBitType_ok)

lemma CreateEnum_leaf: "Inr (EnumT e) = (Inr t :: sql_error + sql_type) \<Longrightarrow> CreateEnumType vs c = Inr e \<Longrightarrow> type_ok t"
  by (auto simp: type_ok_def dest: CreateEnumType_ok)

lemma CreateSet_leaf: "Inr (SetT s) = (Inr t :: sql_error + sql_type) \<Longrightarrow> CreateSetType vs c = Inr s \<Longrightarrow> type_ok t"
  by (auto dest: CreateSetType_ok)

lemma const_leaf:
  "Inr u = (Inr t :: sql_error + sql_type) \<Longrightarrow> u = YearT \<or> u = TimeT \<or> u = JsonT \<or>
     (\<exists>q. u = NumberT q \<and> q \<in> set number_types) \<or> (\<exists>q. u = DatetimeT q \<and> q \<in> {QDate, QTimestamp, QDatetime}) \<Longrightarrow> type_ok t"
  by (auto simp: type_ok_def)

lemma error_leaf: "Inl e = (Inr t :: sql_error + sql_type) \<Longrightarrow> type_ok t"
  by simp

lemma ct_length_small:
  assumes "\<forall>s v. ct_Length ct = Some s \<and> ParseInt s 64 = Inr v \<longrightarrow> v < 2 ^ 61"
    and "ct_required w (ct_Length ct) = Inr v"
  shows "sint (word_of_int v :: i64) < 2 ^ 61"
  using assms ParseInt_range [of _ 64 v] by (auto simp: ct_required_def sint_of_small split: option.splits)

section \<open>From a type to its name and back\<close>

lemma known_utf8: "''utf8'' \<notin> set known_charsets"
  by (simp add: known_charsets_def CharacterSet_consts_def)

lemma utf8_name_prefix: "c \<in> set Collation_consts_utf8mb3 \<Longrightarrow> cs_prefix (utf8_name c) = ''utf8''"
proof -
  have "list_all (\<lambda>c. cs_prefix (utf8_name c) = ''utf8'') Collation_consts_utf8mb3"
    by (simp add: Collation_consts_utf8mb3_def cs_prefix_def utf8_name_def)
  then show "c \<in> set Collation_consts_utf8mb3 \<Longrightarrow> cs_prefix (utf8_name c) = ''utf8''" by (simp add: list_all_iff)
qed

lemma collations_self:
  assumes "c \<in> known_collations"
  shows "map_of collations c = Some c"
proof -
  have "c \<notin> set (map utf8_name Collation_consts_utf8mb3)"
    using prefix_known [OF assms] known_utf8 utf8_name_prefix by force
  then have "map_of (map (\<lambda>c. (utf8_name c, c)) Collation_consts_utf8mb3) c = None"
    by (simp add: map_of_eq_None_iff image_image)
  with assms show ?thesis
    unfolding collations_shape map_of_append known_collations_def
    by (auto simp: map_of_graph map_add_def)
qed

lemma ParseCharacterSet_self: "cs \<in> set known_charsets \<Longrightarrow> ParseCharacterSet cs = Inr cs"
  using known_utf8 unfolding ParseCharacterSet_def characterSets_shape map_of_append known_charsets_def
  by (auto simp: map_of_graph map_add_def split: option.splits)

lemma binary_prefix: "c \<in> known_collations \<Longrightarrow> cs_prefix c = ''binary'' \<longleftrightarrow> c = Collation_binary"
proof -
  have "list_all (\<lambda>c. cs_prefix c = ''binary'' \<longleftrightarrow> c = Collation_binary)
      (Collation_consts_legacy @ Collation_consts_utf8mb3 @ Collation_consts_utf8mb4)"
    by (simp add: collation_consts_defs cs_prefix_def Collation_binary_def)
  then show "c \<in> known_collations \<Longrightarrow> cs_prefix c = ''binary'' \<longleftrightarrow> c = Collation_binary"
    by (auto simp: list_all_iff known_collations_def)
qed

text \<open>The column definition the parser reads from the name of a string type, and how it is written.\<close>

definition column_of :: "query_type \<Rightarrow> i64 \<Rightarrow> Collation \<Rightarrow> ColumnType" where
  "column_of q n c = \<lparr>
     ct_Type = string_word q (n * word_of_int (charlen c)),
     ct_Length = (if string_sized q then Some (Itoa (sint n)) else None), ct_Scale = None, ct_Unsigned = False,
     ct_Charset = (if c = Collation_binary \<or> cs_prefix c = cs_prefix Collation_Default then [] else cs_prefix c),
     ct_Collate = (if c = Collation_binary \<or> c = Collation_Default then [] else c), ct_EnumValues = []\<rparr>"

definition column_text :: "ColumnType \<Rightarrow> string" where
  "column_text ct = ct_Type ct @
     (case ct_Length ct of None \<Rightarrow> [] | Some k \<Rightarrow> ''('' @ k @ '')'') @
     (if ct_Charset ct = [] then [] else '' CHARACTER SET '' @ ct_Charset ct) @
     (if ct_Collate ct = [] then [] else '' COLLATE '' @ ct_Collate ct)"

lemma column_of_name:
  assumes "c \<in> known_collations"
  shows "StringString q n c = Inr (column_text (column_of q n c))"
proof -
  have "cs_prefix c \<noteq> []" "c \<noteq> []"
    using prefix_known [OF assms] by (auto simp: known_charsets_def CharacterSet_consts_def cs_prefix_def)
  moreover note CharacterSet_of_known [OF assms] CharacterSet_of_known [OF Default_known]
    charset_length_known(1) [OF assms] binary_prefix [OF assms]
  ultimately show ?thesis
    by (auto simp: StringString_def MaxByteLength_def column_of_def column_text_def Let_def)
qed

lemma column_of_collation:
  assumes "c \<in> known_collations" and "c \<noteq> Collation_binary"
  shows "ct_collation (column_of q n c) = Inr c"
proof -
  have "cs_prefix c \<noteq> []" "c \<noteq> []"
    using prefix_known [OF assms(1)] by (auto simp: known_charsets_def CharacterSet_consts_def cs_prefix_def)
  with assms show ?thesis
    by (auto simp: ct_collation_def ParseCollation_def column_of_def absent_def collations_self
        ParseCharacterSet_self prefix_known WorksWithCharacterSet_def CharacterSet_of_known)
qed

lemma type_words:
  "ToLower ''CHAR'' = ''char''" "ToLower ''BINARY'' = ''binary''" "ToLower ''VARCHAR'' = ''varchar''"
  "ToLower ''VARBINARY'' = ''varbinary''" "ToLower ''TINYTEXT'' = ''tinytext''" "ToLower ''TEXT'' = ''text''"
  "ToLower ''MEDIUMTEXT'' = ''mediumtext''" "ToLower ''LONGTEXT'' = ''longtext''" "ToLower ''TINYBLOB'' = ''tinyblob''"
  "ToLower ''BLOB'' = ''blob''" "ToLower ''MEDIUMBLOB'' = ''mediumblob''" "ToLower ''LONGBLOB'' = ''longblob''"
  by code_simp+

lemma ct_number_Itoa: "ct_number (Some (Itoa (sint n))) 64 d = Inr (sint n)" for n :: i64
  using i64_bounds [of n] by (simp add: ct_number_def ParseInt_Itoa)

lemma ct_required_Itoa: "ct_required w (Some (Itoa (sint n))) = Inr (sint n)" for n :: i64
  using i64_bounds [of n] by (simp add: ct_required_def ParseInt_Itoa)

lemma string_base_idem [simp]: "string_base (string_base q c) c = string_base q c"
  by (auto simp: string_base_def split: query_type.splits)

lemma CreateString_base:
  assumes "q \<in> set string_types" and "\<not> (q \<in> {QBinary, QVarBinary, QBlob} \<and> c \<noteq> Collation_binary)"
  shows "CreateString (string_base q c) n c = CreateString q n c"
proof -
  note b = string_base_simps [OF assms]
  then have "\<not> (string_base q c \<in> {QBinary, QVarBinary, QBlob} \<and> c \<noteq> Collation_binary)" by simp
  with b assms show ?thesis unfolding CreateString_def string_base_idem by (simp only: simp_thms if_False if_True)
qed

text \<open>The kinds of TEXT and BLOB: the number of bytes, and the length in characters of \<open>m\<close> bytes.\<close>

definition lob_len :: "int \<Rightarrow> int \<Rightarrow> i64" where
  "lob_len sz m = (if sz = 4294967295 then 4294967295 else div_len (word_of_int sz) (word_of_int m))"

definition lob_sizes :: "int list" where
  "lob_sizes = [255, 65535, 16777215, 4294967295]"

lemma text_length_lob: "\<exists>sz \<in> set lob_sizes. text_length b (word_of_int m) = lob_len sz m"
  by (simp add: text_length_def lob_sizes_def lob_len_def)

lemma lob_len_check:
  "list_all (\<lambda>m. list_all (\<lambda>sz.
      lob_size (lob_len sz m * word_of_int m) =
        (if sz = 255 then ''TINY'' else if sz = 65535 then [] else if sz = 16777215 then ''MEDIUM'' else ''LONG'') \<and>
      div_len (word_of_int sz) (word_of_int m) \<le>s 4294967295 \<and> 0 \<le>s div_len (word_of_int sz) (word_of_int m) \<and>
      text_length (div_len (word_of_int sz) (word_of_int m) * word_of_int m) (word_of_int m) = lob_len sz m)
    lob_sizes) [1, 2, 3, 4]"
  by code_simp

lemma lob_len_facts:
  assumes "c \<in> known_collations" and "sz \<in> set lob_sizes"
  defines "m \<equiv> word_of_int (charlen c) :: i64"
  shows "lob_size (lob_len sz (charlen c) * m) =
      (if sz = 255 then ''TINY'' else if sz = 65535 then [] else if sz = 16777215 then ''MEDIUM'' else ''LONG'')"
    and "\<not> 4294967295 <s div_len (word_of_int sz) m" and "\<not> div_len (word_of_int sz) m <s 0"
    and "text_length (div_len (word_of_int sz) m * m) m = lob_len sz (charlen c)"
proof -
  have "charlen c = 1 \<or> charlen c = 2 \<or> charlen c = 3 \<or> charlen c = 4"
    using charset_length_known(2,3) [OF assms(1)] by arith
  then have "charlen c \<in> set [1, 2, 3, 4]" by simp
  with lob_len_check assms(2) show
    "lob_size (lob_len sz (charlen c) * m) =
      (if sz = 255 then ''TINY'' else if sz = 65535 then [] else if sz = 16777215 then ''MEDIUM'' else ''LONG'')"
    "\<not> 4294967295 <s div_len (word_of_int sz) m" "\<not> div_len (word_of_int sz) m <s 0"
    "text_length (div_len (word_of_int sz) m * m) m = lob_len sz (charlen c)"
    unfolding list_all_iff m_def signed.not_less by blast+
qed

lemma CreateTextOf_lob:
  assumes "c \<in> known_collations" and "c \<noteq> Collation_binary" and "sz \<in> set lob_sizes"
  shows "CreateTextOf (word_of_int sz) c = Inr (StringT QText (lob_len sz (charlen c)) c)"
  using assms(2) lob_len_facts [OF assms(1,3)]
  by (simp add: CreateTextOf_def CreateString_def charset_length_known(1) [OF assms(1)] string_types_def string_base_def)

lemma charlen_binary: "charlen Collation_binary = 1"
proof -
  have "CharacterSet_of Collation_binary = Inr ''binary''"
    unfolding CharacterSet_of_known [OF more_known(1)] by (simp add: cs_prefix_def Collation_binary_def)
  moreover have "MaxLength ''binary'' = Inr 1"
    by (simp add: MaxLength_def must_lookup_def characterSetMaxLengths_def)
  ultimately show ?thesis by (simp add: charlen_def charset_length_def)
qed

lemma CreateBinary_lob:
  assumes "sz \<in> set lob_sizes"
  shows "CreateBinary QBlob (word_of_int sz) = Inr (StringT QBlob (lob_len sz 1) Collation_binary)"
proof -
  have "charset_length Collation_binary = Inr 1"
    using charset_length_known(1) [OF more_known(1)] by (simp add: charlen_binary)
  with assms show ?thesis
    by (auto simp: CreateBinary_def CreateString_def string_types_def string_base_def lob_sizes_def lob_len_def
        text_length_def div_len_def word_sless_alt)
qed

text \<open>What \<^verbatim>\<open>CreateString\<close> can return.\<close>

lemma CreateString_cases:
  assumes c: "c \<in> known_collations" and t: "CreateString q n c = Inr t"
  obtains (sized) b where "string_sized b" "t = StringT b n c" "b \<in> {QBinary, QVarBinary} \<longleftrightarrow> c = Collation_binary"
      "CreateString b n c = Inr t"
  | (chars) sz where "c \<noteq> Collation_binary" "sz \<in> set lob_sizes" "t = StringT QText (lob_len sz (charlen c)) c"
  | (bytes) sz where "c = Collation_binary" "sz \<in> set lob_sizes" "t = StringT QBlob (lob_len sz 1) c"
proof -
  note len = charset_length_known [OF c]
  from t have q: "q \<in> set string_types" and n: "\<not> n <s 0" and
    bin: "\<not> (q \<in> {QBinary, QVarBinary, QBlob} \<and> c \<noteq> Collation_binary)"
    by (auto simp: CreateString_def split: if_splits)
  define b where "b = string_base q c"
  have b: "b \<in> set string_types" "b \<in> {QBinary, QVarBinary, QBlob} \<longleftrightarrow> c = Collation_binary"
    using string_base_simps [OF q bin] by (simp_all add: b_def)
  have tb: "CreateString b n c = Inr t" unfolding b_def CreateString_base [OF q bin] by (rule t)
  show thesis
  proof (cases "string_sized b")
    case True
    with t q n bin have "t = StringT b n c"
      by (auto simp: CreateString_def len(1) b_def [symmetric] string_sized_def split: if_splits)
    with True b tb show ?thesis by (intro sized) (auto simp: string_sized_def)
  next
    case False
    with b have b': "b = (if c = Collation_binary then QBlob else QText)"
      by (auto simp: string_sized_def string_types_def)
    obtain sz where sz: "sz \<in> set lob_sizes"
      "text_length (n * word_of_int (charlen c)) (word_of_int (charlen c)) = lob_len sz (charlen c)"
      using text_length_lob by blast
    with False t q n bin have "t = StringT b (lob_len sz (charlen c)) c"
      by (auto simp: CreateString_def len(1) b_def [symmetric] string_sized_def split: if_splits)
    with sz b' show ?thesis by (cases "c = Collation_binary") (auto simp: charlen_binary intro: chars bytes)
  qed
qed

text \<open>The byte length is computed with wrap-around: \<^verbatim>\<open>VARCHAR(4611686018427387904)\<close> of a four-byte character set passes the
  check.\<close>

lemma charlen_Default: "charlen Collation_Default = 4"
proof -
  have "CharacterSet_of Collation_Default = Inr ''utf8mb4''"
    unfolding CharacterSet_of_known [OF Default_known] by (simp add: cs_prefix_def Collation_Default_def)
  moreover have "MaxLength ''utf8mb4'' = Inr 4"
    by (simp add: MaxLength_def must_lookup_def characterSetMaxLengths_def)
  ultimately show ?thesis by (simp add: charlen_def charset_length_def)
qed

lemma varchar_length_wraps:
  "CreateString QVarChar 4611686018427387904 Collation_Default =
     Inr (StringT QVarChar 4611686018427387904 Collation_Default) \<and>
   \<not> type_ok (StringT QVarChar 4611686018427387904 Collation_Default)"
proof -
  have "charset_length Collation_Default = Inr 4"
    using charset_length_known(1) [OF Default_known] by (simp add: charlen_Default)
  moreover have "Collation_Default \<noteq> Collation_binary" by (simp add: Collation_Default_def Collation_binary_def)
  ultimately show ?thesis
    by (simp add: CreateString_def string_types_def string_base_def word_sless_alt type_ok_def string_ok_def charlen_Default)
qed

section \<open>Properties\<close>



text \<open>C38. The name of a string type determines the type: a column definition with the word, the length, the
  character set and the collation that the name shows is turned into the same type again.\<close>

theorem string_type_roundtrip:
  assumes "c \<in> known_collations" and "CreateString q n c = Inr t"
  shows "\<exists>b k. t = StringT b k c \<and> StringString b k c = Inr (column_text (column_of b k c)) \<and>
    ColumnTypeToType addr (column_of b k c) = Inr t"
  using assms
proof (cases rule: CreateString_cases)
  case (sized b)
  note col = column_of_collation [OF assms(1), of b n]
  have "b = QChar \<or> b = QBinary \<or> b = QVarChar \<or> b = QVarBinary" using sized(1) by (auto simp: string_sized_def)
  then have "ColumnTypeToType addr (column_of b n c) = CreateString b n c"
    using sized(3) col
    by (elim disjE) (simp_all add: ColumnTypeToType_def column_of_def string_word_def string_sized_def type_words
        ct_number_Itoa ct_required_Itoa)
  with sized column_of_name [OF assms(1)] show ?thesis by auto
next
  case (chars sz)
  note col = column_of_collation [OF assms(1) chars(1), of QText "lob_len sz (charlen c)"]
  have "ColumnTypeToType addr (column_of QText (lob_len sz (charlen c)) c) = CreateTextOf (word_of_int sz) c"
    using chars(2) col lob_len_facts(1) [OF assms(1) chars(2)]
    by (auto simp: ColumnTypeToType_def column_of_def string_word_def string_sized_def type_words lob_sizes_def)
  with chars column_of_name [OF assms(1)] CreateTextOf_lob [OF assms(1) chars(1,2)] show ?thesis by auto
next
  case (bytes sz)
  have "ColumnTypeToType addr (column_of QBlob (lob_len sz 1) c) = CreateBinary QBlob (word_of_int sz)"
    using bytes(1,2) lob_len_facts(1) [OF more_known(1) bytes(2)]
    by (auto simp: ColumnTypeToType_def column_of_def string_word_def string_sized_def type_words lob_sizes_def charlen_binary)
  with bytes column_of_name [OF assms(1)] CreateBinary_lob [OF bytes(2)] show ?thesis by auto
qed

theorem string_type_roundtrip_witness:
  "\<exists>t. CreateString QText 1000 Collation_Default = Inr t \<and> t = StringT QText 16383 Collation_Default \<and>
     StringString QText 16383 Collation_Default = Inr ''TEXT''"
proof -
  have len: "charset_length Collation_Default = Inr 4"
    using charset_length_known(1) [OF Default_known] by (simp add: charlen_Default)
  have ne: "Collation_Default \<noteq> Collation_binary" by (simp add: Collation_Default_def Collation_binary_def)
  have "div_len 65535 4 = 16383" by code_simp
  with len ne have t: "CreateString QText 1000 Collation_Default = Inr (StringT QText 16383 Collation_Default)"
    by (simp add: CreateString_def string_types_def string_base_def text_length_def word_sless_alt word_sle_eq)
  have "column_text (column_of QText 16383 Collation_Default) = ''TEXT''"
    by (simp add: column_text_def column_of_def string_word_def string_sized_def charlen_Default lob_size_def word_sle_eq)
  with string_type_roundtrip [OF Default_known t] t show ?thesis by auto
qed

end
