(* ===== verification/Type_Values.thy ===== *)
theory Type_Values
  imports Sql_Types "HOL-Library.Char_ord" "HOL-Library.List_Lexorder"
begin

text \<open>
  The values of number and string types: conversion, comparison and rendering (\<^verbatim>\<open>sql/numbertype.go\<close>,
  \<^verbatim>\<open>sql/stringtype.go\<close>), and the dispatch of \<^verbatim>\<open>Type.Convert\<close> and \<^verbatim>\<open>Type.Compare\<close> on the type. The casts of
  \<^verbatim>\<open>github.com/spf13/cast\<close> and the decimals of \<^verbatim>\<open>github.com/shopspring/decimal\<close> are arguments.
\<close>

unbundle bit_operations_syntax

section \<open>The libraries\<close>

text \<open>
  The functions of the two packages that the conversions call: the casts with an error, and of a decimal (coefficient
  and exponent) its integer part, its nearest float and the rendering of zero with a number of fraction digits.
  \<open>FormatTime\<close> is \<^verbatim>\<open>Time.Format\<close> with the layout of timestamps, which depends on the location behind the time,
  \<open>FormatFloat\<close> the shortest decimal rendering.
\<close>

record castlib =
  ToInt64E :: "val \<Rightarrow> sql_error + i64"
  ToUint64E :: "val \<Rightarrow> sql_error + u64"
  ToFloat64E :: "val \<Rightarrow> sql_error + 64 word"
  ToStringE :: "val \<Rightarrow> sql_error + string"
  IntPart :: "int \<Rightarrow> int \<Rightarrow> i64"
  DecFloat64 :: "int \<Rightarrow> int \<Rightarrow> 64 word"
  DecZero :: "nat \<Rightarrow> string"
  FormatTime :: "64 word \<Rightarrow> 64 word \<Rightarrow> nat \<Rightarrow> string"
  FormatFloat :: "64 word \<Rightarrow> string"

text \<open>The integer a value of one of Go's integer types is.\<close>

definition val_int :: "val \<Rightarrow> int option" where
  "val_int v = (case v of
     VInt x \<Rightarrow> Some (sint x) | VInt8 x \<Rightarrow> Some (sint x) | VInt16 x \<Rightarrow> Some (sint x)
   | VInt32 x \<Rightarrow> Some (sint x) | VInt64 x \<Rightarrow> Some (sint x)
   | VUint x \<Rightarrow> Some (uint x) | VUint8 x \<Rightarrow> Some (uint x) | VUint16 x \<Rightarrow> Some (uint x)
   | VUint32 x \<Rightarrow> Some (uint x) | VUint64 x \<Rightarrow> Some (uint x) | _ \<Rightarrow> None)"

abbreviation errNegativeNotAllowed :: sql_error where
  "errNegativeNotAllowed \<equiv> ErrGeneric ''unable to cast negative value''"

text \<open>
  What the package documents for integers and strings: the conversion between integer types is Go's, except that a
  negative number has no unsigned one, and a string is itself.
\<close>

definition cast_ok :: "castlib \<Rightarrow> bool" where
  "cast_ok L \<longleftrightarrow>
     (\<forall>v n. val_int v = Some n \<longrightarrow> ToInt64E L v = Inr (word_of_int n) \<and>
        ToUint64E L v = (if n < 0 then Inl errNegativeNotAllowed else Inr (word_of_int n))) \<and>
     (\<forall>s. ToStringE L (VString s) = Inr s)"

lemma cast_okD:
  "cast_ok L \<Longrightarrow> val_int v = Some n \<Longrightarrow> ToInt64E L v = Inr (word_of_int n)"
  "cast_ok L \<Longrightarrow> val_int v = Some n \<Longrightarrow>
     ToUint64E L v = (if n < 0 then Inl errNegativeNotAllowed else Inr (word_of_int n))"
  "cast_ok L \<Longrightarrow> ToStringE L (VString s) = Inr s"
  by (simp_all add: cast_ok_def)

section \<open>Numbers\<close>

definition Unix :: "64 word \<Rightarrow> 64 word \<Rightarrow> i64" where
  "Unix wall ext = (if bit wall 63 then 59453308800 + drop_bit 31 (push_bit 1 wall) else ext) - 62135596800"

definition time_seconds :: "val \<Rightarrow> val" where
  "time_seconds v = (case v of VTime w e l \<Rightarrow> VInt64 (Unix w e) | _ \<Rightarrow> v)"

definition decimal_int :: "castlib \<Rightarrow> val \<Rightarrow> val" where
  "decimal_int L v = (case v of VDecimal a c e \<Rightarrow> VInt64 (IntPart L c e) | _ \<Rightarrow> v)"

definition convert_signed :: "castlib \<Rightarrow> val \<Rightarrow> int \<Rightarrow> int \<Rightarrow> (i64 \<Rightarrow> val) \<Rightarrow> sql_error + val" where
  "convert_signed L v lo hi f = bindE (ToInt64E L (decimal_int L v)) (\<lambda>num.
     if sint num > hi \<or> sint num < lo then Inl (ErrOutOfRange []) else Inr (f num))"

definition convert_unsigned :: "castlib \<Rightarrow> val \<Rightarrow> u64 \<Rightarrow> (u64 \<Rightarrow> val) \<Rightarrow> sql_error + val" where
  "convert_unsigned L v hi f = bindE (ToUint64E L (decimal_int L v)) (\<lambda>num.
     if num > hi then Inl (ErrOutOfRange []) else Inr (f num))"

definition convert_int64 :: "castlib \<Rightarrow> val \<Rightarrow> sql_error + val" where
  "convert_int64 L v = (case v of
     VUint64 u \<Rightarrow> if u > 9223372036854775807 then Inl (ErrOutOfRange []) else bindE (ToInt64E L v) (\<lambda>num. Inr (VInt64 num))
   | VDecimal a c e \<Rightarrow> Inr (VInt64 (IntPart L c e))
   | _ \<Rightarrow> bindE (ToInt64E L v) (\<lambda>num. Inr (VInt64 num)))"

definition NumberConvert :: "castlib \<Rightarrow> query_type \<Rightarrow> val \<Rightarrow> sql_error + val" where
  "NumberConvert L q v0 =
     (if v0 = VNil then Inr VNil
      else
        let v = time_seconds v0 in
        case q of
          QInt8 \<Rightarrow> convert_signed L v (-128) 127 (\<lambda>n. VInt8 (ucast n))
        | QUint8 \<Rightarrow> convert_unsigned L v 255 (\<lambda>n. VUint8 (ucast n))
        | QInt16 \<Rightarrow> convert_signed L v (-32768) 32767 (\<lambda>n. VInt16 (ucast n))
        | QUint16 \<Rightarrow> convert_unsigned L v 65535 (\<lambda>n. VUint16 (ucast n))
        | QInt24 \<Rightarrow> convert_signed L v (-8388608) 8388607 (\<lambda>n. VInt32 (ucast n))
        | QUint24 \<Rightarrow> convert_unsigned L v 16777215 (\<lambda>n. VUint32 (ucast n))
        | QInt32 \<Rightarrow> convert_signed L v (-2147483648) 2147483647 (\<lambda>n. VInt32 (ucast n))
        | QUint32 \<Rightarrow> convert_unsigned L v 4294967295 (\<lambda>n. VUint32 (ucast n))
        | QInt64 \<Rightarrow> convert_int64 L v
        | QUint64 \<Rightarrow> bindE (ToUint64E L (decimal_int L v)) (\<lambda>num. Inr (VUint64 num))
        | QFloat32 \<Rightarrow> (case v of
              VDecimal a c e \<Rightarrow> Inr (VFloat32 (f32_of_f64 (DecFloat64 L c e)))
            | _ \<Rightarrow> bindE (ToFloat64E L v) (\<lambda>num.
                if f64_less 0x47EFFFFFE0000000 num \<or> f64_less num 0xC7EFFFFFE0000000 then Inl (ErrOutOfRange [])
                else Inr (VFloat32 (f32_of_f64 num))))
        | QFloat64 \<Rightarrow> (case v of
              VDecimal a c e \<Rightarrow> Inr (VFloat64 (DecFloat64 L c e))
            | _ \<Rightarrow> bindE (ToFloat64E L v) (\<lambda>num. Inr (VFloat64 num)))
        | _ \<Rightarrow> Inl ErrInvalidType)"

definition compareFloats :: "castlib \<Rightarrow> val \<Rightarrow> val \<Rightarrow> sql_error + int" where
  "compareFloats L a b =
     (if fst (compareNulls a b) then Inr (snd (compareNulls a b))
      else bindE (ToFloat64E L a) (\<lambda>ca. bindE (ToFloat64E L b) (\<lambda>cb.
        Inr (if f64_eq ca cb then 0 else if f64_less ca cb then -1 else 1))))"

definition compareSignedInts :: "castlib \<Rightarrow> val \<Rightarrow> val \<Rightarrow> sql_error + int" where
  "compareSignedInts L a b =
     (if fst (compareNulls a b) then Inr (snd (compareNulls a b))
      else bindE (ToInt64E L a) (\<lambda>ca. bindE (ToInt64E L b) (\<lambda>cb.
        Inr (if ca = cb then 0 else if ca <s cb then -1 else 1))))"

definition compareUnsignedInts :: "castlib \<Rightarrow> val \<Rightarrow> val \<Rightarrow> sql_error + int" where
  "compareUnsignedInts L a b =
     (if fst (compareNulls a b) then Inr (snd (compareNulls a b))
      else bindE (ToUint64E L a) (\<lambda>ca. bindE (ToUint64E L b) (\<lambda>cb.
        Inr (if ca = cb then 0 else if ca < cb then -1 else 1))))"

definition NumberCompare :: "castlib \<Rightarrow> query_type \<Rightarrow> val \<Rightarrow> val \<Rightarrow> sql_error + int" where
  "NumberCompare L q a b =
     (if q \<in> {QUint8, QUint16, QUint24, QUint32, QUint64} then compareUnsignedInts L a b
      else if q \<in> {QFloat32, QFloat64} then compareFloats L a b
      else compareSignedInts L a b)"

text \<open>The casts without an error give zero then. A value on the wire is its type and its text.\<close>

definition or_zero :: "sql_error + 'w :: zero \<Rightarrow> 'w" where
  "or_zero r = (case r of Inl _ \<Rightarrow> 0 | Inr x \<Rightarrow> x)"

definition NumberSQL :: "castlib \<Rightarrow> query_type \<Rightarrow> val \<Rightarrow> sql_error + query_type \<times> string" where
  "NumberSQL L q v =
     (if v = VNil then Inr (QNull, [])
      else if q \<in> {QInt8, QInt16, QInt32, QInt64} then Inr (q, Itoa (sint (or_zero (ToInt64E L v))))
      else if q \<in> {QUint8, QUint16, QInt24, QUint24, QUint32, QUint64} then Inr (q, Itoa (uint (or_zero (ToUint64E L v))))
      else if q \<in> {QFloat32, QFloat64} then Inr (q, FormatFloat L (or_zero (ToFloat64E L v)))
      else Inl (Panic ''ErrInvalidBaseType''))"

definition NumberIsFloat :: "query_type \<Rightarrow> bool" where
  "NumberIsFloat q \<longleftrightarrow> q \<in> {QFloat32, QFloat64}"

definition NumberIsSigned :: "query_type \<Rightarrow> bool" where
  "NumberIsSigned q \<longleftrightarrow> q \<in> {QInt8, QInt16, QInt24, QInt32, QInt64, QFloat32, QFloat64}"

section \<open>Strings\<close>

definition string_finish :: "query_type \<Rightarrow> i64 \<Rightarrow> string \<Rightarrow> val" where
  "string_finish q n s =
     VString (if q = QBinary then s @ replicate (nat (sint n - int (length s))) (char_of (0 :: nat)) else s)"

definition StringConvert :: "castlib \<Rightarrow> query_type \<Rightarrow> i64 \<Rightarrow> Collation \<Rightarrow> val \<Rightarrow> sql_error + val" where
  "StringConvert L q n c v =
     (if v = VNil then Inr VNil
      else
        case ToStringE L (case v of VTime w e l \<Rightarrow> VString (FormatTime L w e l) | _ \<Rightarrow> v) of
          Inl err \<Rightarrow> Inl (ErrConvertToSQL [])
        | Inr s \<Rightarrow>
            if q = QText then
              bindE (MaxByteLength n c) (\<lambda>m.
                if int (length s) > sint m then Inl ErrLengthBeyondLimit else Inr (string_finish q n s))
            else
              bindE (charset_length c) (\<lambda>m.
                if int (length s) > sint n then Inl ErrLengthBeyondLimit else Inr (string_finish q n s)))"

definition string_operand :: "castlib \<Rightarrow> query_type \<Rightarrow> i64 \<Rightarrow> Collation \<Rightarrow> val \<Rightarrow> sql_error + string" where
  "string_operand L q n c v = (case v of
     VString s \<Rightarrow> Inr s
   | _ \<Rightarrow> bindE (StringConvert L q n c v) (\<lambda>w.
       case w of VString s \<Rightarrow> Inr s | _ \<Rightarrow> Inl (Panic ''interface conversion'')))"

definition StringCompare :: "castlib \<Rightarrow> query_type \<Rightarrow> i64 \<Rightarrow> Collation \<Rightarrow> val \<Rightarrow> val \<Rightarrow> sql_error + int" where
  "StringCompare L q n c a b =
     (if fst (compareNulls a b) then Inr (snd (compareNulls a b))
      else bindE (string_operand L q n c a) (\<lambda>as. bindE (string_operand L q n c b) (\<lambda>bs. Inr (compare_by as bs))))"

definition StringSQL :: "castlib \<Rightarrow> query_type \<Rightarrow> i64 \<Rightarrow> Collation \<Rightarrow> val \<Rightarrow> sql_error + query_type \<times> string" where
  "StringSQL L q n c v =
     (if v = VNil then Inr (QNull, [])
      else bindE (StringConvert L q n c v) (\<lambda>w.
        case w of VString s \<Rightarrow> Inr (q, s) | _ \<Rightarrow> Inl (Panic ''interface conversion'')))"

section \<open>Dispatch\<close>

text \<open>
  \<^verbatim>\<open>Type.Convert\<close> and \<^verbatim>\<open>Type.Compare\<close> for the types modelled here; \<open>oconv\<close> and \<open>ocomp\<close> are those methods of the
  other types, and \<open>year\<close> is \<^verbatim>\<open>Time.Year\<close>.
\<close>

record typelib =
  lib :: castlib
  oconv :: "sql_type \<Rightarrow> val \<Rightarrow> sql_error + val"
  ocomp :: "sql_type \<Rightarrow> val \<Rightarrow> val \<Rightarrow> sql_error + int"
  year :: "64 word \<Rightarrow> 64 word \<Rightarrow> nat \<Rightarrow> int"

definition TypeConvert :: "typelib \<Rightarrow> sql_type \<Rightarrow> val \<Rightarrow> sql_error + val" where
  "TypeConvert T t v = (case t of
     NumberT q \<Rightarrow> NumberConvert (lib T) q v
   | StringT q n c \<Rightarrow> StringConvert (lib T) q n c v
   | BitT b \<Rightarrow> BitConvert b v
   | EnumT e \<Rightarrow> EnumConvert e v
   | SetT s \<Rightarrow> SetConvert s v
   | YearT \<Rightarrow> YearConvert (year T) v
   | _ \<Rightarrow> oconv T t v)"

definition TypeCompare :: "typelib \<Rightarrow> sql_type \<Rightarrow> val \<Rightarrow> val \<Rightarrow> sql_error + int" where
  "TypeCompare T t a b = (case t of
     NumberT q \<Rightarrow> NumberCompare (lib T) q a b
   | StringT q n c \<Rightarrow> StringCompare (lib T) q n c a b
   | BitT s \<Rightarrow> BitCompare s a b
   | EnumT e \<Rightarrow> EnumCompare e a b
   | SetT s \<Rightarrow> SetCompare s a b
   | YearT \<Rightarrow> YearCompare (year T) a b
   | _ \<Rightarrow> ocomp T t a b)"

section \<open>Ranges\<close>

text \<open>The numbers an integer type holds, and the value that stands for a number.\<close>

definition int_range :: "query_type \<Rightarrow> (int \<times> int) option" where
  "int_range q = (case q of
     QInt8 \<Rightarrow> Some (- (2 ^ 7), 2 ^ 7) | QUint8 \<Rightarrow> Some (0, 2 ^ 8)
   | QInt16 \<Rightarrow> Some (- (2 ^ 15), 2 ^ 15) | QUint16 \<Rightarrow> Some (0, 2 ^ 16)
   | QInt24 \<Rightarrow> Some (- (2 ^ 23), 2 ^ 23) | QUint24 \<Rightarrow> Some (0, 2 ^ 24)
   | QInt32 \<Rightarrow> Some (- (2 ^ 31), 2 ^ 31) | QUint32 \<Rightarrow> Some (0, 2 ^ 32)
   | QInt64 \<Rightarrow> Some (- (2 ^ 63), 2 ^ 63) | QUint64 \<Rightarrow> Some (0, 2 ^ 64) | _ \<Rightarrow> None)"

definition int_val :: "query_type \<Rightarrow> int \<Rightarrow> val" where
  "int_val q n = (case q of
     QInt8 \<Rightarrow> VInt8 (word_of_int n) | QUint8 \<Rightarrow> VUint8 (word_of_int n)
   | QInt16 \<Rightarrow> VInt16 (word_of_int n) | QUint16 \<Rightarrow> VUint16 (word_of_int n)
   | QInt24 \<Rightarrow> VInt32 (word_of_int n) | QUint24 \<Rightarrow> VUint32 (word_of_int n)
   | QInt32 \<Rightarrow> VInt32 (word_of_int n) | QUint32 \<Rightarrow> VUint32 (word_of_int n)
   | QInt64 \<Rightarrow> VInt64 (word_of_int n) | QUint64 \<Rightarrow> VUint64 (word_of_int n) | _ \<Rightarrow> VNil)"

definition in_range :: "query_type \<Rightarrow> int \<Rightarrow> bool" where
  "in_range q n = (case int_range q of Some (lo, hi) \<Rightarrow> lo \<le> n \<and> n < hi | None \<Rightarrow> False)"

definition unsigned_type :: "query_type \<Rightarrow> bool" where
  "unsigned_type q \<longleftrightarrow> q \<in> {QUint8, QUint16, QUint24, QUint32, QUint64}"

lemma sint_small_word: "- (2 ^ (LENGTH('a) - 1)) \<le> i \<Longrightarrow> i < 2 ^ (LENGTH('a) - 1) \<Longrightarrow> sint (word_of_int i :: 'a::len word) = i"
  by (simp add: signed_of_int signed_take_bit_int_eq_self)

lemma uint_small_word: "0 \<le> i \<Longrightarrow> i < 2 ^ LENGTH('a) \<Longrightarrow> uint (word_of_int i :: 'a::len word) = i"
  by (simp add: unsigned_of_int take_bit_int_eq_self)

lemma ucast_word_of_int: "LENGTH('a) \<le> 64 \<Longrightarrow> (ucast (word_of_int n :: 64 word) :: 'a::len word) = word_of_int n"
  by (simp add: unsigned_of_int word_of_int_eq_iff min_def)

lemma int_val_ne [simp]: "int_range q \<noteq> None \<Longrightarrow> int_val q n \<noteq> VNil"
  by (cases q) (simp_all add: int_range_def int_val_def)

lemma val_int_int_val:
  assumes "in_range q n"
  shows "val_int (int_val q n) = Some n"
  using assms by (cases q) (simp_all add: in_range_def int_range_def int_val_def val_int_def sint_small_word uint_small_word)

lemma val_int_input:
  "val_int v = Some n \<Longrightarrow> v \<noteq> VNil \<and> time_seconds v = v \<and> decimal_int L v = v"
  by (cases v) (simp_all add: val_int_def time_seconds_def decimal_int_def)

lemma word_bounds:
  fixes x :: "'a::len word"
  assumes "LENGTH('a) \<le> 64"
  shows "- 9223372036854775808 \<le> sint x" and "sint x < 18446744073709551616"
    and "- 9223372036854775808 \<le> uint x" and "uint x < 18446744073709551616"
proof -
  have "(2 :: int) ^ (LENGTH('a) - 1) \<le> 9223372036854775808"
    using power_increasing [of "LENGTH('a) - 1" 63 "2 :: int"] assms by simp
  moreover have "(2 :: int) ^ LENGTH('a) \<le> 18446744073709551616"
    using power_increasing [of "LENGTH('a)" 64 "2 :: int"] assms by simp
  ultimately show "- 9223372036854775808 \<le> sint x" "sint x < 18446744073709551616"
    "- 9223372036854775808 \<le> uint x" "uint x < 18446744073709551616"
    using sint_ge [of x] sint_lt [of x] uint_lt2p [of x] uint_ge_0 [of x] by linarith+
qed

lemma val_int_bounds: "val_int v = Some n \<Longrightarrow> - (2 ^ 63) \<le> n \<and> n < 2 ^ 64"
  by (cases v) (auto simp: val_int_def word_bounds)

lemma convert_int64_int:
  assumes "cast_ok L" and "val_int v = Some n" and "n < 2 ^ 63 \<or> (\<exists>u. v = VUint64 u)"
  shows "convert_int64 L v = (if n < 2 ^ 63 then Inr (VInt64 (word_of_int n)) else Inl (ErrOutOfRange []))"
proof (cases "\<exists>u. v = VUint64 u")
  case True
  then obtain u where "v = VUint64 u" ..
  with cast_okD(1) [OF assms(1,2)] assms(2) show ?thesis
    by (auto simp: convert_int64_def val_int_def word_less_def)
next
  case False
  with assms(2) have "convert_int64 L v = bindE (ToInt64E L v) (\<lambda>num. Inr (VInt64 num))"
    by (auto simp: convert_int64_def val_int_def split: val.splits)
  with False assms(3) cast_okD(1) [OF assms(1,2)] show ?thesis by simp
qed

lemma convert_signed_int:
  assumes "cast_ok L" and "val_int v = Some n" and "n < 2 ^ 63"
  shows "convert_signed L v lo hi f =
    (if lo \<le> n \<and> n \<le> hi then Inr (f (word_of_int n)) else Inl (ErrOutOfRange []))"
  using assms val_int_bounds [OF assms(2)] val_int_input [OF assms(2)]
  by (auto simp: convert_signed_def cast_okD(1) sint_of_small)

lemma convert_unsigned_int:
  assumes "cast_ok L" and "val_int v = Some n"
  shows "convert_unsigned L v hi f =
    (if n < 0 then Inl errNegativeNotAllowed
     else if n \<le> uint hi then Inr (f (word_of_int n)) else Inl (ErrOutOfRange []))"
  using assms val_int_bounds [OF assms(2)] val_int_input [OF assms(2)]
  by (auto simp: convert_unsigned_def cast_okD(2) word_less_def uint_small_word)

lemma NumberConvert_int:
  assumes L: "cast_ok L" and v: "val_int v = Some n" and q: "int_range q \<noteq> None"
    and ok: "n < 2 ^ 63 \<or> unsigned_type q \<or> q = QInt64 \<and> (\<exists>u. v = VUint64 u)"
  shows "NumberConvert L q v = (if in_range q n then Inr (int_val q n)
    else Inl (if n < 0 \<and> unsigned_type q then errNegativeNotAllowed else ErrOutOfRange []))"
proof -
  note inp = val_int_input [OF v, of L] and b = val_int_bounds [OF v]
  note conv = convert_signed_int [OF L v] convert_unsigned_int [OF L v] cast_okD(1,2) [OF L v] convert_int64_int [OF L v]
  show ?thesis
    using q ok b by (cases q) (simp_all add: NumberConvert_def [of _ _ v] inp conv in_range_def int_range_def int_val_def
      unsigned_type_def ucast_word_of_int)
qed

section \<open>Strings that fit\<close>

lemma MaxByteLength_ok:
  assumes "c \<in> known_collations" and "0 \<le> sint n" and "sint n < 2 ^ 61"
  shows "\<exists>m. MaxByteLength n c = Inr m \<and> sint m = sint n * charlen c"
  using charset_length_known(1) [OF assms(1)] sint_charlen_mult [OF assms] by (simp add: MaxByteLength_def)

lemma StringConvert_string:
  assumes L: "cast_ok L" and c: "c \<in> known_collations" and n: "0 \<le> sint n" "sint n < 2 ^ 61"
  shows "StringConvert L q n c (VString s) =
    (if int (length s) \<le> (if q = QText then sint n * charlen c else sint n) then Inr (string_finish q n s)
     else Inl ErrLengthBeyondLimit)"
proof -
  obtain m where "MaxByteLength n c = Inr m" "sint m = sint n * charlen c"
    using MaxByteLength_ok [OF c n] by blast
  then show ?thesis using cast_okD(3) [OF L] charset_length_known(1) [OF c] by (simp add: StringConvert_def)
qed

text \<open>A value that converts does so like the string that it is cast to.\<close>

lemma StringConvert_via_string:
  assumes "cast_ok L" and "v \<noteq> VNil" and "StringConvert L q n c v = Inr w"
  shows "\<exists>s. StringConvert L q n c (VString s) = Inr w \<and> w = string_finish q n s"
  using assms by (auto simp: StringConvert_def cast_okD(3) bindE_eq_Inr_iff split: sum.splits if_splits)

lemma string_finish_length:
  "int (length s) \<le> sint n \<Longrightarrow> string_finish q n s = VString s' \<Longrightarrow>
   length s \<le> length s' \<and> (q = QBinary \<longrightarrow> int (length s') = sint n) \<and> (q \<noteq> QBinary \<longrightarrow> s' = s)"
  by (auto simp: string_finish_def)

section \<open>Properties\<close>


text \<open>A cast library for the witnesses: integers as documented, nothing else.\<close>

definition int_cast :: castlib where
  "int_cast = \<lparr>
     ToInt64E = (\<lambda>v. case val_int v of Some n \<Rightarrow> Inr (word_of_int n) | None \<Rightarrow> Inl (ErrGeneric ''unable to cast'')),
     ToUint64E = (\<lambda>v. case val_int v of Some n \<Rightarrow> if n < 0 then Inl errNegativeNotAllowed else Inr (word_of_int n)
       | None \<Rightarrow> Inl (ErrGeneric ''unable to cast'')),
     ToFloat64E = (\<lambda>v. Inl (ErrGeneric ''unable to cast'')),
     ToStringE = (\<lambda>v. case v of VString s \<Rightarrow> Inr s | VBytes s \<Rightarrow> Inr s | _ \<Rightarrow> Inl (ErrGeneric ''unable to cast'')),
     IntPart = (\<lambda>c e. 0), DecFloat64 = (\<lambda>c e. 0), DecZero = (\<lambda>n. ''0''), FormatTime = (\<lambda>w e l. []), FormatFloat = (\<lambda>x. [])\<rparr>"

lemma int_cast_ok: "cast_ok int_cast"
  by (simp add: cast_ok_def int_cast_def)


text \<open>Outside of that the numbers change silently: the largest \<^verbatim>\<open>uint64\<close> becomes -1 in every signed type but BIGINT, the
  largest \<^verbatim>\<open>uint\<close> also in BIGINT, and a negative MEDIUMINT is sent to the client as 0.\<close>

lemma number_convert_wraps:
  assumes "cast_ok L"
  shows "(q \<in> {QInt8, QInt16, QInt24, QInt32} \<longrightarrow> NumberConvert L q (VUint64 (-1)) = Inr (int_val q (-1))) \<and>
    NumberConvert L QInt64 (VUint (-1)) = Inr (VInt64 (-1)) \<and>
    (in_range QInt24 n \<and> n < 0 \<longrightarrow> NumberSQL L QInt24 (int_val QInt24 n) = Inr (QInt24, ''0''))"
proof -
  have v: "val_int (VUint64 (-1)) = Some (2 ^ 64 - 1)" "val_int (VUint (-1)) = Some (2 ^ 64 - 1)"
    by (simp_all add: val_int_def unsigned_minus_1_eq_mask mask_eq_exp_minus_1)
  have "word_of_int (2 ^ 64 - 1) = (-1 :: 64 word)" by simp
  with cast_okD(1) [OF assms v(1)] cast_okD(1) [OF assms v(2)]
  have c: "ToInt64E L (VUint64 (-1)) = Inr (-1)" "ToInt64E L (VUint (-1)) = Inr (-1)" by simp_all
  have "NumberSQL L QInt24 (int_val QInt24 n) = Inr (QInt24, ''0'')" if "in_range QInt24 n" "n < 0"
  proof -
    have "Itoa 0 = ''0''" by code_simp
    then show ?thesis using that cast_okD(2) [OF assms val_int_int_val [OF that(1)]]
      by (simp add: NumberSQL_def or_zero_def int_range_def)
  qed
  moreover have "(ucast (-1 :: 64 word) :: 8 word) = -1" "(ucast (-1 :: 64 word) :: 16 word) = -1"
    "(ucast (-1 :: 64 word) :: 32 word) = -1"
    using ucast_word_of_int [where 'a = 8, of "-1"] ucast_word_of_int [where 'a = 16, of "-1"]
      ucast_word_of_int [where 'a = 32, of "-1"] by simp_all
  ultimately show ?thesis using c
    by (auto simp: NumberConvert_def time_seconds_def decimal_int_def convert_signed_def convert_int64_def int_val_def)
qed

text \<open>C40. What a string type converts to has at most its length in bytes (TEXT: the length times the bytes of a character),
  BINARY exactly its length, and is unchanged by another conversion and on its way to the client.\<close>

theorem string_convert_fits:
  assumes "cast_ok L" and "type_ok (StringT q n c)" and "v \<noteq> VNil" and "StringConvert L q n c v = Inr w"
  shows "\<exists>s. w = VString s \<and> int (length s) \<le> (if q = QText then sint n * charlen c else sint n) \<and>
    (q = QBinary \<longrightarrow> int (length s) = sint n) \<and> StringConvert L q n c (VString s) = Inr (VString s) \<and>
    StringSQL L q n c v = Inr (q, s)"
proof -
  from assms(2) have ok: "string_ok q n c" by (simp add: type_ok_def)
  note c = string_ok_length(1) [OF ok] and n = string_ok_length(2,3) [OF ok]
  from n have n': "sint n < 2 ^ 61" by simp
  note conv = StringConvert_string [OF assms(1) c n(1) n']
  obtain s where s: "StringConvert L q n c (VString s) = Inr w" "w = string_finish q n s"
    using StringConvert_via_string [OF assms(1,3,4)] by blast
  from s have fit: "int (length s) \<le> (if q = QText then sint n * charlen c else sint n)"
    by (auto simp: conv split: if_splits)
  obtain s' where s': "w = VString s'" using s(2) by (simp add: string_finish_def)
  have "int (length s') \<le> (if q = QText then sint n * charlen c else sint n)" "q = QBinary \<longrightarrow> int (length s') = sint n"
    "string_finish q n s' = VString s'"
    using fit s' s(2) by (auto simp: string_finish_def split: if_splits)
  moreover have "StringSQL L q n c v = Inr (q, s')" using assms(3,4) s' by (simp add: StringSQL_def)
  ultimately show ?thesis using s' conv [of q s'] by auto
qed

theorem string_convert_fits_witness:
  "\<exists>s. StringConvert int_cast QBinary 3 Collation_binary (VString ''a'') = Inr (VString s) \<and> length s = 3"
proof -
  have ok: "type_ok (StringT QBinary 3 Collation_binary)"
    by (simp add: type_ok_def string_ok_def string_types_def more_known)
  have "StringConvert int_cast QBinary 3 Collation_binary (VString ''a'') = Inr (string_finish QBinary 3 ''a'')"
    using StringConvert_string [OF int_cast_ok more_known(1), of 3 QBinary "''a''"] by simp
  from string_convert_fits [OF int_cast_ok ok _ this] this show ?thesis by auto
qed

end
