(* ===== verification/Logic_Exprs.thy ===== *)
theory Logic_Exprs
  imports Go_Float
begin

text \<open>
  The expressions of \<^verbatim>\<open>sql/expression\<close> and \<^verbatim>\<open>sql/expression/function\<close> that deal with truth values and NULL: AND,
  OR, NOT, IS NULL, IS TRUE, BETWEEN, IN, CASE, IF, IFNULL, NULLIF and COALESCE, with \<^verbatim>\<open>ConvertToBool\<close>
  (\<^verbatim>\<open>sql/type.go\<close>) and \<^verbatim>\<open>EvaluateCondition\<close> (\<^verbatim>\<open>sql/core.go\<close>).

  An expression is what its \<^verbatim>\<open>Eval\<close> does to a row. The methods of a type that an expression calls
  (\<^verbatim>\<open>Convert\<close>, \<^verbatim>\<open>Compare\<close>) are arguments, and so is \<^verbatim>\<open>strconv.ParseFloat\<close>, with the bit pattern of the number
  or \<open>None\<close> for an error.
\<close>

unbundle bit_operations_syntax

type_synonym expr = "row \<Rightarrow> sql_error + val"
type_synonym parse_float = "string \<Rightarrow> 64 word option"

section \<open>Truth values\<close>

text \<open>
  \<^verbatim>\<open>Time.UnixNano\<close>. The seconds are in \<^verbatim>\<open>ext\<close>, or in \<^verbatim>\<open>wall\<close> if its top bit says that \<^verbatim>\<open>ext\<close> is a monotonic clock
  reading; the lower 30 bits of \<^verbatim>\<open>wall\<close> are nanoseconds. Both count from year 1 and 1885, not from 1970.
\<close>

definition UnixNano :: "64 word \<Rightarrow> 64 word \<Rightarrow> i64" where
  "UnixNano wall ext =
     (let sec = (if bit wall 63 then 59453308800 + drop_bit 31 (push_bit 1 wall) else ext) - 62135596800 in
      sec * 1000000000 + (wall AND 0x3FFFFFFF))"

definition ConvertToBool :: "parse_float \<Rightarrow> val \<Rightarrow> sql_error + bool" where
  "ConvertToBool ParseFloat v = (case v of
     VBool b \<Rightarrow> Inr b
   | VInt x \<Rightarrow> Inr (x \<noteq> 0) | VInt64 x \<Rightarrow> Inr (x \<noteq> 0) | VInt32 x \<Rightarrow> Inr (x \<noteq> 0)
   | VInt16 x \<Rightarrow> Inr (x \<noteq> 0) | VInt8 x \<Rightarrow> Inr (x \<noteq> 0)
   | VUint x \<Rightarrow> Inr (x \<noteq> 0) | VUint64 x \<Rightarrow> Inr (x \<noteq> 0) | VUint32 x \<Rightarrow> Inr (x \<noteq> 0)
   | VUint16 x \<Rightarrow> Inr (x \<noteq> 0) | VUint8 x \<Rightarrow> Inr (x \<noteq> 0)
   | VDuration x \<Rightarrow> Inr (x \<noteq> 0)
   | VTime w e l \<Rightarrow> Inr (UnixNano w e \<noteq> 0)
   | VFloat32 x \<Rightarrow> Inr (\<not> f64_eq (f64_of_f32 x) 0)
   | VFloat64 x \<Rightarrow> Inr (\<not> f64_eq x 0)
   | VString s \<Rightarrow> (case ParseFloat s of None \<Rightarrow> Inr False | Some x \<Rightarrow> Inr (\<not> f64_eq x 0))
   | VNil \<Rightarrow> Inl (ErrGeneric ''unable to cast nil to bool'')
   | _ \<Rightarrow> Inl (ErrGeneric ''unable to cast to bool''))"

text \<open>\<^verbatim>\<open>int(math.Round(x))\<close>: rounding half away from zero, and the smallest integer if that is no \<^verbatim>\<open>int\<close>.\<close>

definition f64_round_to_int :: "64 word \<Rightarrow> i64" where
  "f64_round_to_int x =
     (let n = (2 * (f64_man x * 2 ^ f64_pow x) + 2 ^ 1074) div (2 * 2 ^ 1074); r = (if f64_neg x then - n else n) in
      if f64_finite x \<and> - (2 ^ 63) \<le> r \<and> r < 2 ^ 63 then word_of_int r else 0x8000000000000000)"

definition EvaluateCondition :: "parse_float \<Rightarrow> expr \<Rightarrow> row \<Rightarrow> sql_error + bool" where
  "EvaluateCondition ParseFloat cond row = bindE (cond row) (\<lambda>v. case v of
     VBool b \<Rightarrow> Inr b
   | VInt x \<Rightarrow> Inr (x \<noteq> 0) | VInt64 x \<Rightarrow> Inr (x \<noteq> 0) | VInt32 x \<Rightarrow> Inr (x \<noteq> 0)
   | VInt16 x \<Rightarrow> Inr (x \<noteq> 0) | VInt8 x \<Rightarrow> Inr (x \<noteq> 0)
   | VUint x \<Rightarrow> Inr (x \<noteq> 0) | VUint64 x \<Rightarrow> Inr (x \<noteq> 0) | VUint32 x \<Rightarrow> Inr (x \<noteq> 0)
   | VUint16 x \<Rightarrow> Inr (x \<noteq> 0) | VUint8 x \<Rightarrow> Inr (x \<noteq> 0)
   | VDuration x \<Rightarrow> Inr (x \<noteq> 0)
   | VTime w e l \<Rightarrow> Inr (UnixNano w e \<noteq> 0)
   | VFloat64 x \<Rightarrow> Inr (f64_round_to_int x \<noteq> 0)
   | VFloat32 x \<Rightarrow> Inr (f64_round_to_int (f64_of_f32 x) \<noteq> 0)
   | VString s \<Rightarrow> (case ParseFloat s of None \<Rightarrow> Inr False | Some x \<Rightarrow> Inr (f64_to_i64 x \<noteq> 0))
   | _ \<Rightarrow> Inr False)"

section \<open>Logic\<close>

text \<open>\<^verbatim>\<open>err == nil && b == false\<close> and \<^verbatim>\<open>err == nil && b\<close> after \<^verbatim>\<open>ConvertToBool\<close> of a value that is not nil.\<close>

definition is_false :: "parse_float \<Rightarrow> val \<Rightarrow> bool" where
  "is_false pf v \<longleftrightarrow> v \<noteq> VNil \<and> ConvertToBool pf v = Inr False"

definition is_true :: "parse_float \<Rightarrow> val \<Rightarrow> bool" where
  "is_true pf v \<longleftrightarrow> v \<noteq> VNil \<and> ConvertToBool pf v = Inr True"

definition And :: "parse_float \<Rightarrow> expr \<Rightarrow> expr \<Rightarrow> expr" where
  "And pf left right row = bindE (left row) (\<lambda>lval.
     if is_false pf lval then Inr (VBool False)
     else bindE (right row) (\<lambda>rval.
       if is_false pf rval then Inr (VBool False)
       else if lval = VNil \<or> rval = VNil then Inr VNil
       else Inr (VBool True)))"

definition Or :: "parse_float \<Rightarrow> expr \<Rightarrow> expr \<Rightarrow> expr" where
  "Or pf left right row = bindE (left row) (\<lambda>lval.
     if is_true pf lval then Inr (VBool True)
     else if lval = VBool True then Inr (VBool True)
     else bindE (right row) (\<lambda>rval.
       if is_true pf rval then Inr (VBool True)
       else if lval = VNil \<and> rval = VNil then Inr VNil
       else Inr (VBool (rval = VBool True))))"

definition Not :: "parse_float \<Rightarrow> expr \<Rightarrow> expr" where
  "Not pf child row = bindE (child row) (\<lambda>v.
     if v = VNil then Inr VNil
     else case v of
       VBool b \<Rightarrow> Inr (VBool (\<not> b))
     | _ \<Rightarrow> bindE (ConvertToBool pf v) (\<lambda>b. Inr (VBool (\<not> b))))"

fun JoinAnd :: "parse_float \<Rightarrow> expr list \<Rightarrow> expr option" where
  "JoinAnd pf [] = None"
| "JoinAnd pf [e] = Some e"
| "JoinAnd pf (e1 # e2 # es) = Some (foldl (And pf) (And pf e1 e2) es)"

definition IsNull :: "expr \<Rightarrow> expr" where
  "IsNull child row = bindE (child row) (\<lambda>v. Inr (VBool (v = VNil)))"

definition IsTrue :: "parse_float \<Rightarrow> bool \<Rightarrow> expr \<Rightarrow> expr" where
  "IsTrue pf invert child row = bindE (child row) (\<lambda>v.
     if v = VNil then Inr (VBool False)
     else bindE (ConvertToBool pf v) (\<lambda>b. Inr (VBool (if invert then \<not> b else b))))"

section \<open>BETWEEN and IN\<close>

text \<open>\<open>conv\<close> and \<open>cmp\<close> are \<^verbatim>\<open>Convert\<close> and \<^verbatim>\<open>Compare\<close> of the promoted type of the left side.\<close>

definition Between :: "(val \<Rightarrow> sql_error + val) \<Rightarrow> (val \<Rightarrow> val \<Rightarrow> sql_error + int) \<Rightarrow> expr \<Rightarrow> expr \<Rightarrow> expr \<Rightarrow> expr" where
  "Between conv cmp e_val e_lower e_upper row =
     bindE (e_val row) (\<lambda>v. if v = VNil then Inr VNil else
     bindE (conv v) (\<lambda>v.
     bindE (e_lower row) (\<lambda>lower. if lower = VNil then Inr VNil else
     bindE (conv lower) (\<lambda>lower.
     bindE (e_upper row) (\<lambda>upper. if upper = VNil then Inr VNil else
     bindE (conv upper) (\<lambda>upper.
     bindE (cmp v lower) (\<lambda>cmpLower.
     bindE (cmp v upper) (\<lambda>cmpUpper.
     Inr (VBool (cmpLower \<ge> 0 \<and> cmpUpper \<le> 0))))))))))"

text \<open>The elements of the tuple in turn; \<open>rightNull\<close> tells whether one of them was NULL.\<close>

fun in_loop :: "(val \<Rightarrow> sql_error + val) \<Rightarrow> (val \<Rightarrow> val \<Rightarrow> sql_error + int) \<Rightarrow> val \<Rightarrow> expr list \<Rightarrow> bool \<Rightarrow> expr" where
  "in_loop conv cmp left [] rightNull row = Inr (if rightNull then VNil else VBool False)"
| "in_loop conv cmp left (el # els) rightNull row =
     bindE (el row) (\<lambda>right.
       if \<not> rightNull \<and> right = VNil then in_loop conv cmp left els True row
       else bindE (conv right) (\<lambda>right.
         bindE (cmp left right) (\<lambda>c.
           if c = 0 then Inr (VBool True) else in_loop conv cmp left els rightNull row)))"

text \<open>The tuple has the number of columns of every element with it.\<close>

definition InTuple :: "(val \<Rightarrow> sql_error + val) \<Rightarrow> (val \<Rightarrow> val \<Rightarrow> sql_error + int) \<Rightarrow> nat \<Rightarrow> expr \<Rightarrow> (nat \<times> expr) list \<Rightarrow> expr" where
  "InTuple conv cmp leftElems e_left right row =
     bindE (e_left row) (\<lambda>left. if left = VNil then Inr VNil else
     bindE (conv left) (\<lambda>left.
     case find (\<lambda>(n, el). n \<noteq> leftElems) right of
       Some (n, el) \<Rightarrow> Inl (ErrNew ''ErrInvalidOperandColumns'' [])
     | None \<Rightarrow> in_loop conv cmp left (map snd right) False row))"

definition NotInTuple where
  "NotInTuple pf conv cmp leftElems e_left right = Not pf (InTuple conv cmp leftElems e_left right)"

section \<open>CASE, IF and friends\<close>

text \<open>
  \<open>equals v e\<close> is the expression \<^verbatim>\<open>NewEquals(NewLiteral(v, type), e)\<close>. A CASE without an expression has
  \<open>expr = None\<close>.
\<close>

fun case_branches :: "parse_float \<Rightarrow> (val \<Rightarrow> expr \<Rightarrow> expr) \<Rightarrow> val \<Rightarrow> (expr \<times> expr) list \<Rightarrow> expr option \<Rightarrow> expr" where
  "case_branches pf equals v [] els row = (case els of Some e \<Rightarrow> e row | None \<Rightarrow> Inr VNil)"
| "case_branches pf equals v ((cond, value_expr) # bs) els row =
     bindE (EvaluateCondition pf (if v \<noteq> VNil then equals v cond else cond) row) (\<lambda>ok.
       if ok then value_expr row else case_branches pf equals v bs els row)"

definition Case :: "parse_float \<Rightarrow> (val \<Rightarrow> expr \<Rightarrow> expr) \<Rightarrow> expr option \<Rightarrow> (expr \<times> expr) list \<Rightarrow> expr option \<Rightarrow> expr" where
  "Case pf equals e bs els row =
     (case e of
        None \<Rightarrow> case_branches pf equals VNil bs els row
      | Some e \<Rightarrow> bindE (e row) (\<lambda>v. case_branches pf equals v bs els row))"

definition If :: "parse_float \<Rightarrow> expr \<Rightarrow> expr \<Rightarrow> expr \<Rightarrow> expr" where
  "If pf e ifTrue ifFalse row = bindE (e row) (\<lambda>v.
     bindE (if v = VNil then Inr False else ConvertToBool pf v) (\<lambda>asBool.
       if asBool then ifTrue row else ifFalse row))"

definition IfNull :: "expr \<Rightarrow> expr \<Rightarrow> expr" where
  "IfNull left right row = bindE (left row) (\<lambda>v. if v \<noteq> VNil then Inr v else right row)"

text \<open>\<open>bothNull\<close>: both arguments have the NULL type. \<open>equals\<close> is the comparison of the two.\<close>

definition NullIf :: "bool \<Rightarrow> expr \<Rightarrow> expr \<Rightarrow> expr" where
  "NullIf bothNull equals left row =
     (if bothNull then Inr VNullType
      else bindE (equals row) (\<lambda>v. if v = VBool True then Inr VNullType else left row))"

fun Coalesce :: "expr option list \<Rightarrow> expr" where
  "Coalesce [] row = Inr VNil"
| "Coalesce (None # args) row = Coalesce args row"
| "Coalesce (Some arg # args) row = bindE (arg row) (\<lambda>v. if v = VNil then Coalesce args row else Inr v)"

section \<open>Three-valued logic\<close>

text \<open>The truth value of a value, unknown for NULL; and Kleene's connectives.\<close>

type_synonym tvl = "bool option"

definition truth :: "parse_float \<Rightarrow> val \<Rightarrow> tvl" where
  "truth pf v = (if v = VNil then None else case ConvertToBool pf v of Inr b \<Rightarrow> Some b | Inl _ \<Rightarrow> None)"

definition convertible :: "parse_float \<Rightarrow> val \<Rightarrow> bool" where
  "convertible pf v \<longleftrightarrow> v = VNil \<or> (\<exists>b. ConvertToBool pf v = Inr b)"

definition tv :: "tvl \<Rightarrow> val" where
  "tv t = (case t of None \<Rightarrow> VNil | Some b \<Rightarrow> VBool b)"

fun kand :: "tvl \<Rightarrow> tvl \<Rightarrow> tvl" where
  "kand (Some False) _ = Some False"
| "kand _ (Some False) = Some False"
| "kand (Some True) (Some True) = Some True"
| "kand _ _ = None"

definition knot :: "tvl \<Rightarrow> tvl" where
  "knot = map_option HOL.Not"

definition kor :: "tvl \<Rightarrow> tvl \<Rightarrow> tvl" where
  "kor a b = knot (kand (knot a) (knot b))"

lemma truth_simps:
  "truth pf VNil = None" "truth pf (VBool b) = Some b"
  by (simp_all add: truth_def ConvertToBool_def)

lemma truth_cases:
  assumes "convertible pf v"
  obtains "v = VNil" "truth pf v = None" | b where "v \<noteq> VNil" "ConvertToBool pf v = Inr b" "truth pf v = Some b"
  using assms by (auto simp: convertible_def truth_def)

lemma is_false_truth: "convertible pf v \<Longrightarrow> is_false pf v \<longleftrightarrow> truth pf v = Some False"
  by (erule truth_cases) (auto simp: is_false_def)

lemma is_true_truth: "convertible pf v \<Longrightarrow> is_true pf v \<longleftrightarrow> truth pf v = Some True"
  by (erule truth_cases) (auto simp: is_true_def)

lemma truth_None: "convertible pf v \<Longrightarrow> truth pf v = None \<longleftrightarrow> v = VNil"
  by (erule truth_cases) auto

lemma And_kleene:
  assumes "left row = Inr a" and "right row = Inr b" and "convertible pf a" and "convertible pf b"
  shows "And pf left right row = Inr (tv (kand (truth pf a) (truth pf b)))"
  using assms is_false_truth [OF assms(3)] is_false_truth [OF assms(4)] truth_None [OF assms(3)] truth_None [OF assms(4)]
  by (cases "truth pf a" rule: option.exhaust [case_names None Some]; cases "truth pf b")
     (auto simp: And_def tv_def split: bool.splits)

lemma Not_kleene:
  assumes "child row = Inr a" and "convertible pf a"
  shows "Not pf child row = Inr (tv (knot (truth pf a)))"
  using assms(2)
proof (cases rule: truth_cases)
  case (2 b)
  with assms(1) show ?thesis
    by (cases a) (auto simp: Not_def knot_def tv_def ConvertToBool_def)
qed (use assms(1) in \<open>simp add: Not_def knot_def tv_def\<close>)

lemma Or_kleene:
  assumes "left row = Inr a" and "right row = Inr b" and "convertible pf a" and "convertible pf b"
  shows "Or pf left right row =
    Inr (if {truth pf a, truth pf b} = {None, Some False} then VBool False else tv (kor (truth pf a) (truth pf b)))"
  using assms is_true_truth [OF assms(3)] is_true_truth [OF assms(4)] truth_None [OF assms(3)] truth_None [OF assms(4)]
    truth_simps(2) [of pf True]
  by (cases "truth pf a"; cases "truth pf b")
     (auto simp: Or_def tv_def kor_def knot_def doubleton_eq_iff split: bool.splits)



text \<open>So a filter keeps rows it should drop: De Morgan's law fails.\<close>

lemma not_or_null_false:
  "EvaluateCondition pf (Not pf (Or pf (\<lambda>_. Inr VNil) (\<lambda>_. Inr (VBool False)))) row = Inr True"
  "EvaluateCondition pf (And pf (Not pf (\<lambda>_. Inr VNil)) (Not pf (\<lambda>_. Inr (VBool False)))) row = Inr False"
  by (simp_all add: EvaluateCondition_def Not_def Or_def And_def is_true_def is_false_def ConvertToBool_def)

text \<open>
  A condition and \<^verbatim>\<open>ConvertToBool\<close> disagree on fractions: 0.4 is false as a filter and true under IF or NOT.
\<close>

lemma fraction_condition:
  "EvaluateCondition pf (\<lambda>_. Inr (VFloat64 0x3FD999999999999A)) row = Inr False \<and>
   ConvertToBool pf (VFloat64 0x3FD999999999999A) = Inr True"
proof -
  have "f64_round_to_int 0x3FD999999999999A = 0 \<and> \<not> f64_eq 0x3FD999999999999A 0" by code_simp
  then show ?thesis by (simp add: EvaluateCondition_def ConvertToBool_def)
qed

section \<open>IN\<close>

text \<open>Evaluated elements; a NULL after the first one is compared, and is not equal.\<close>

lemma in_loop_elements:
  assumes "\<And>v. v \<in> set vs \<Longrightarrow> conv v = Inr (c v) \<and> cmp l (c v) = Inr (k v)" and "VNil \<in> set vs \<Longrightarrow> k VNil \<noteq> 0"
  shows "in_loop conv cmp l (map (\<lambda>v row. Inr v) vs) rightNull row =
    Inr (if \<exists>v \<in> set vs. v \<noteq> VNil \<and> k v = 0 then VBool True
         else if rightNull \<or> VNil \<in> set vs then VNil else VBool False)"
  using assms
proof (induction vs arbitrary: rightNull)
  case (Cons v vs)
  have IH: "in_loop conv cmp l (map (\<lambda>v row. Inr v) vs) rn row =
    Inr (if \<exists>v \<in> set vs. v \<noteq> VNil \<and> k v = 0 then VBool True
         else if rn \<or> VNil \<in> set vs then VNil else VBool False)" for rn
    using Cons.prems by (intro Cons.IH) auto
  have v: "conv v = Inr (c v)" "cmp l (c v) = Inr (k v)" using Cons.prems(1) [of v] by auto
  show ?case
  proof (cases "v = VNil")
    case True
    then have "k VNil \<noteq> 0" using Cons.prems(2) by simp
    with True v IH show ?thesis by auto
  next
    case False
    with v IH show ?thesis by auto
  qed
qed simp

text \<open>C36. IN is NULL for a NULL on the left; else it is TRUE if an element is equal, NULL if none is but one is NULL,
  and FALSE otherwise. This needs of the type only that NULL is never equal to a value.\<close>

theorem in_tuple_null_semantics:
  assumes "\<And>v. v \<in> set vs \<Longrightarrow> conv v = Inr (c v) \<and> cmp (c l) (c v) = Inr (k v)" and "conv l = Inr (c l)"
    and "VNil \<in> set vs \<Longrightarrow> l \<noteq> VNil \<Longrightarrow> k VNil \<noteq> 0"
  shows "InTuple conv cmp n (\<lambda>row. Inr l) (map (\<lambda>v. (n, \<lambda>row. Inr v)) vs) row =
    Inr (if l = VNil then VNil
         else if \<exists>v \<in> set vs. v \<noteq> VNil \<and> k v = 0 then VBool True
         else if VNil \<in> set vs then VNil else VBool False)"
proof -
  have "find (\<lambda>(m, el). m \<noteq> n) (map (\<lambda>v. (n, (\<lambda>row. Inr v) :: expr)) vs) = None"
    by (auto simp: find_None_iff)
  then show ?thesis
    using assms(2,3) in_loop_elements [of vs conv c cmp "c l" k False row, OF assms(1)]
    by (cases "l = VNil") (simp_all add: InTuple_def comp_def)
qed

text \<open>For witnesses: comparing numbers, NULL first.\<close>

definition compare_int64 :: "val \<Rightarrow> val \<Rightarrow> sql_error + int" where
  "compare_int64 a b = (if fst (compareNulls a b) then Inr (snd (compareNulls a b))
     else case (a, b) of (VInt64 x, VInt64 y) \<Rightarrow> Inr (compare_by (sint x) (sint y)) | _ \<Rightarrow> Inl ErrInvalidType)"

theorem in_tuple_null_semantics_witness:
  "InTuple Inr compare_int64 1 (\<lambda>row. Inr (VInt64 1)) (map (\<lambda>v. (1, \<lambda>row. Inr v)) [VInt64 2, VNil]) [] = Inr VNil"
proof -
  have "compare_int64 (VInt64 1) v = Inr (if v = VNil then 1 else -1)" if "v \<in> set [VInt64 2, VNil]" for v
    using that by (auto simp: compare_int64_def compareNulls_def compare_by_def)
  from in_tuple_null_semantics [of "[VInt64 2, VNil]" Inr "\<lambda>v. v" compare_int64 "VInt64 1", OF conjI [OF refl this]]
  show ?thesis by simp
qed

section \<open>CASE and NULLIF\<close>

text \<open>
  A CASE whose expression is NULL takes the branches for conditions: \<^verbatim>\<open>CASE NULL WHEN 1 THEN 'a' ELSE 'b' END\<close> is
  \<^verbatim>\<open>'a'\<close>.
\<close>

lemma case_null_expression: "Case pf equals (Some (\<lambda>row. Inr VNil)) bs els row = Case pf equals None bs els row"
  by (simp add: Case_def)

text \<open>NULLIF of equal arguments returns the NULL type, which is not NULL.\<close>

lemma nullif_not_null:
  assumes "equals row = Inr (VBool True)"
  shows "IsNull (NullIf False equals left) row = Inr (VBool False)"
    and "Coalesce [Some (NullIf False equals left), Some e] row = Inr VNullType"
  using assms by (simp_all add: IsNull_def NullIf_def)

end
