(* ===== verification/Comparison.thy ===== *)
theory Comparison
  imports Type_Values Logic_Exprs
begin

text \<open>
  The comparison operators (\<^verbatim>\<open>sql/expression/comparison.go\<close>) and the conversions they and \<^verbatim>\<open>CAST\<close> use
  (\<^verbatim>\<open>sql/expression/convert.go\<close>).
\<close>

unbundle bit_operations_syntax

section \<open>Parsing numbers of any base\<close>

text \<open>
  \<^verbatim>\<open>strconv.ParseInt(s, 0, 64)\<close>: a prefix gives the base, and underscores may separate digits. \<open>underscoreOK\<close>
  carries the last kind of character seen: the beginning, a digit (or the prefix), an underscore, anything else.
\<close>

datatype (plugins only: "code" "size") last_seen = AtStart | AtDigit | AtUnderscore | AtOther

definition hex_letter :: "char \<Rightarrow> bool" where
  "hex_letter c \<longleftrightarrow> 97 \<le> (of_char (ascii_lower c) :: nat) \<and> (of_char (ascii_lower c) :: nat) \<le> 102"

fun underscore_loop :: "bool \<Rightarrow> last_seen \<Rightarrow> string \<Rightarrow> bool" where
  "underscore_loop hex i [] \<longleftrightarrow> i \<noteq> AtUnderscore"
| "underscore_loop hex i (c # cs) =
     (if is_digit c \<or> hex \<and> hex_letter c then underscore_loop hex AtDigit cs
      else if c = CHR ''_'' then i = AtDigit \<and> underscore_loop hex AtUnderscore cs
      else i \<noteq> AtUnderscore \<and> underscore_loop hex AtOther cs)"

definition underscoreOK :: "string \<Rightarrow> bool" where
  "underscoreOK s =
     (let t = (if s \<noteq> [] \<and> (hd s = CHR ''-'' \<or> hd s = CHR ''+'') then tl s else s) in
      if length t \<ge> 2 \<and> hd t = CHR ''0'' \<and> ascii_lower (t ! 1) \<in> {CHR ''b'', CHR ''o'', CHR ''x''}
      then underscore_loop (ascii_lower (t ! 1) = CHR ''x'') AtDigit (drop 2 t)
      else underscore_loop False AtStart t)"

text \<open>The value of a digit of any base, an underscore aside.\<close>

definition any_digit :: "char \<Rightarrow> int option" where
  "any_digit c =
     (if is_digit c then Some (digit_val c)
      else let l = (of_char (ascii_lower c) :: int) in if 97 \<le> l \<and> l \<le> 122 then Some (l - 97 + 10) else None)"

fun base_loop :: "int \<Rightarrow> int \<Rightarrow> string \<Rightarrow> int option" where
  "base_loop base n [] = Some n"
| "base_loop base n (c # cs) =
     (if c = CHR ''_'' then base_loop base n cs
      else case any_digit c of
        None \<Rightarrow> None
      | Some d \<Rightarrow> if d \<ge> base then None else base_loop base (n * base + d) cs)"

definition base_prefix :: "string \<Rightarrow> int \<times> string" where
  "base_prefix s =
     (if hd s = CHR ''0'' then
        if length s \<ge> 3 \<and> ascii_lower (s ! 1) = CHR ''b'' then (2, drop 2 s)
        else if length s \<ge> 3 \<and> ascii_lower (s ! 1) = CHR ''o'' then (8, drop 2 s)
        else if length s \<ge> 3 \<and> ascii_lower (s ! 1) = CHR ''x'' then (16, drop 2 s)
        else (8, drop 1 s)
      else (10, s))"

definition ParseInt0 :: "string \<Rightarrow> i64 option" where
  "ParseInt0 s =
     (if s = [] then None
      else
        let neg = (hd s = CHR ''-''); t = (if hd s = CHR ''-'' \<or> hd s = CHR ''+'' then tl s else s) in
        if t = [] then None
        else case base_loop (fst (base_prefix t)) 0 (snd (base_prefix t)) of
          None \<Rightarrow> None
        | Some n \<Rightarrow>
            if CHR ''_'' \<in> set t \<and> \<not> underscoreOK t then None
            else if \<not> neg \<and> n \<ge> 2 ^ 63 \<or> neg \<and> n > 2 ^ 63 then None
            else Some (word_of_int (if neg then - n else n)))"

section \<open>Conversion\<close>

definition castSignedToUnsigned :: "val \<Rightarrow> u64" where
  "castSignedToUnsigned v = (case v of
     VInt x \<Rightarrow> x | VInt8 x \<Rightarrow> scast x | VInt16 x \<Rightarrow> scast x | VInt32 x \<Rightarrow> scast x | VInt64 x \<Rightarrow> x | _ \<Rightarrow> 0)"

text \<open>The error of a cast is its text.\<close>

definition handleUnsignedErrors :: "sql_error \<Rightarrow> val \<Rightarrow> sql_error + u64" where
  "handleUnsignedErrors err v =
     (if err = errNegativeNotAllowed then Inr (castSignedToUnsigned v)
      else case err of
        ErrGeneric s \<Rightarrow>
          if sublist ''strconv.ParseUint'' s then
            (case v of
               VString x \<Rightarrow> Inr (case ParseInt0 x of None \<Rightarrow> 0 | Some n \<Rightarrow> castSignedToUnsigned (VInt64 n))
             | _ \<Rightarrow> Inl (Panic ''interface conversion''))
          else Inr 0
      | _ \<Rightarrow> Inr 0)"

definition LongText :: sql_type where
  "LongText = StringT QText 4294967295 Collation_Default"

definition LongBlob :: sql_type where
  "LongBlob = StringT QBlob 4294967295 Collation_binary"

definition or_nil :: "sql_error + val \<Rightarrow> sql_error + val" where
  "or_nil r = (case r of Inl _ \<Rightarrow> Inr VNil | Inr v \<Rightarrow> Inr v)"

definition or_else :: "val \<Rightarrow> sql_error + val \<Rightarrow> sql_error + val" where
  "or_else z r = (case r of Inl _ \<Rightarrow> Inr z | Inr v \<Rightarrow> Inr v)"

definition time_or_string :: "val \<Rightarrow> bool" where
  "time_or_string v = (case v of VTime _ _ _ \<Rightarrow> True | VString _ \<Rightarrow> True | _ \<Rightarrow> False)"

text \<open>\<open>Unmarshal\<close> is the error of \<^verbatim>\<open>json.Unmarshal\<close>, if any.\<close>

definition convertValue :: "typelib \<Rightarrow> (string \<Rightarrow> sql_error option) \<Rightarrow> val \<Rightarrow> string \<Rightarrow> sql_error + val" where
  "convertValue T Unmarshal v castTo =
     (let c = ToLower castTo in
      if c = ''binary'' then or_nil (TypeConvert T LongBlob v)
      else if c = ''char'' \<or> c = ''nchar'' then or_nil (TypeConvert T LongText v)
      else if c = ''date'' then
        if time_or_string v then or_nil (TypeConvert T (DatetimeT QDate) v) else Inr VNil
      else if c = ''datetime'' then
        if time_or_string v then or_nil (TypeConvert T (DatetimeT QDatetime) v) else Inr VNil
      else if c = ''decimal'' then
        or_else (VString (DecZero (lib T) 10)) (TypeConvert T (DecimalT 0 65 10) v)
      else if c = ''double'' \<or> c = ''real'' then or_else (VFloat64 0) (TypeConvert T (NumberT QFloat64) v)
      else if c = ''json'' then
        bindE (ToStringE (lib T) v) (\<lambda>s. case Unmarshal s of Some e \<Rightarrow> Inl e | None \<Rightarrow> Inr (VBytes s))
      else if c = ''signed'' then or_else (VInt64 0) (TypeConvert T (NumberT QInt64) v)
      else if c = ''time'' then or_nil (TypeConvert T TimeT v)
      else if c = ''unsigned'' then
        (case TypeConvert T (NumberT QUint64) v of
           Inr num \<Rightarrow> Inr num
         | Inl err \<Rightarrow> map_sum id VUint64 (handleUnsignedErrors err v))
      else Inr VNil)"

definition ConvertType :: "nat \<Rightarrow> string \<Rightarrow> sql_type" where
  "ConvertType addr c =
     (if c = ''binary'' then LongBlob
      else if c = ''char'' \<or> c = ''nchar'' then LongText
      else if c = ''date'' then DatetimeT QDate
      else if c = ''datetime'' then DatetimeT QDatetime
      else if c = ''decimal'' then DecimalT addr 65 10
      else if c = ''double'' \<or> c = ''real'' then NumberT QFloat64
      else if c = ''json'' then JsonT
      else if c = ''signed'' then NumberT QInt64
      else if c = ''time'' then TimeT
      else if c = ''unsigned'' then NumberT QUint64
      else NullT)"

definition ConvertIsNullable :: "bool \<Rightarrow> string \<Rightarrow> bool" where
  "ConvertIsNullable child c = (if c = ''date'' \<or> c = ''datetime'' then True else child)"

definition ConvertEval :: "typelib \<Rightarrow> (string \<Rightarrow> sql_error option) \<Rightarrow> expr \<Rightarrow> string \<Rightarrow> expr" where
  "ConvertEval T Unmarshal child castTo row =
     bindE (child row) (\<lambda>v.
       if v = VNil then Inr VNil
       else case convertValue T Unmarshal v castTo of
         Inl e \<Rightarrow> Inl (ErrNew ''ErrConvertExpression'' castTo)
       | Inr w \<Rightarrow> Inr w)"

section \<open>Comparison\<close>

definition convertLeftAndRight ::
    "typelib \<Rightarrow> (string \<Rightarrow> sql_error option) \<Rightarrow> val \<Rightarrow> val \<Rightarrow> string \<Rightarrow> sql_error + val \<times> val" where
  "convertLeftAndRight T U left right convertTo =
     bindE (convertValue T U left convertTo) (\<lambda>l. bindE (convertValue T U right convertTo) (\<lambda>r. Inr (l, r)))"

definition castLeftAndRight ::
    "typelib \<Rightarrow> (string \<Rightarrow> sql_error option) \<Rightarrow> sql_type \<Rightarrow> sql_type \<Rightarrow> val \<Rightarrow> val \<Rightarrow> sql_error + (val \<times> val) \<times> sql_type" where
  "castLeftAndRight T U leftType rightType left right =
     (if IsNumber leftType \<or> IsNumber rightType then
        if IsDecimal leftType \<or> IsDecimal rightType then
          bindE (convertLeftAndRight T U left right ''decimal'') (\<lambda>lr.
            Inr (lr, if IsDecimal leftType then leftType else rightType))
        else if IsFloat leftType \<or> IsFloat rightType then
          bindE (convertLeftAndRight T U left right ''double'') (\<lambda>lr. Inr (lr, NumberT QFloat64))
        else if IsSigned leftType \<or> IsSigned rightType then
          bindE (convertLeftAndRight T U left right ''signed'') (\<lambda>lr. Inr (lr, NumberT QInt64))
        else bindE (convertLeftAndRight T U left right ''unsigned'') (\<lambda>lr. Inr (lr, NumberT QUint64))
      else bindE (convertLeftAndRight T U left right ''char'') (\<lambda>lr. Inr (lr, LongText)))"

text \<open>The two operands of a comparison and their types.\<close>

record comparison =
  c_left :: expr
  c_right :: expr
  c_leftType :: sql_type
  c_rightType :: sql_type

definition evalLeftAndRight :: "comparison \<Rightarrow> row \<Rightarrow> sql_error + val \<times> val" where
  "evalLeftAndRight c row = bindE (c_left c row) (\<lambda>left. bindE (c_right c row) (\<lambda>right. Inr (left, right)))"

definition Compare :: "typelib \<Rightarrow> (string \<Rightarrow> sql_error option) \<Rightarrow> comparison \<Rightarrow> row \<Rightarrow> sql_error + int" where
  "Compare T U c row =
     bindE (evalLeftAndRight c row) (\<lambda>(left, right).
       if left = VNil \<or> right = VNil then Inl ErrNilOperand
       else bindE (type_eq (c_leftType c) (c_rightType c)) (\<lambda>same.
         if same then TypeCompare T (c_leftType c) left right
         else bindE (castLeftAndRight T U (c_leftType c) (c_rightType c) left right) (\<lambda>((l, r), compareType).
           TypeCompare T compareType l r)))"

text \<open>\<^verbatim>\<open>Eval\<close> of the operators: NULL if an operand is NULL, and a test of the result otherwise.\<close>

definition cmp_result :: "(int \<Rightarrow> bool) \<Rightarrow> sql_error + int \<Rightarrow> sql_error + val" where
  "cmp_result f r = (case r of Inl e \<Rightarrow> if e = ErrNilOperand then Inr VNil else Inl e | Inr n \<Rightarrow> Inr (VBool (f n)))"

definition EqualsEval where "EqualsEval T U c row = cmp_result (\<lambda>n. n = 0) (Compare T U c row)"
definition GreaterThanEval where "GreaterThanEval T U c row = cmp_result (\<lambda>n. n = 1) (Compare T U c row)"
definition LessThanEval where "LessThanEval T U c row = cmp_result (\<lambda>n. n = -1) (Compare T U c row)"
definition GreaterThanOrEqualEval where
  "GreaterThanOrEqualEval T U c row = cmp_result (\<lambda>n. n > -1) (Compare T U c row)"
definition LessThanOrEqualEval where
  "LessThanOrEqualEval T U c row = cmp_result (\<lambda>n. n < 1) (Compare T U c row)"

section \<open>Comparing integers\<close>

lemma word_of_int_inject_signed:
  "- (2 ^ 63) \<le> n \<Longrightarrow> n < 2 ^ 63 \<Longrightarrow> - (2 ^ 63) \<le> m \<Longrightarrow> m < 2 ^ 63 \<Longrightarrow> (word_of_int n :: i64) = word_of_int m \<longleftrightarrow> n = m"
  by (metis sint_of_small)

lemma word_of_int_inject_unsigned:
  "0 \<le> n \<Longrightarrow> n < 2 ^ 64 \<Longrightarrow> 0 \<le> m \<Longrightarrow> m < 2 ^ 64 \<Longrightarrow> (word_of_int n :: u64) = word_of_int m \<longleftrightarrow> n = m"
  using uint_small_word [where 'a = 64, of n] uint_small_word [where 'a = 64, of m] by (auto simp: word_uint_eq_iff)

lemma compareSignedInts_int:
  assumes "cast_ok L" and "val_int a = Some n" and "val_int b = Some m" and "n < 2 ^ 63" and "m < 2 ^ 63"
  shows "compareSignedInts L a b = Inr (compare_by n m)"
proof -
  note nb = val_int_bounds [OF assms(2)] val_int_bounds [OF assms(3)]
    and ne = val_int_input [OF assms(2)] val_int_input [OF assms(3)]
  have "(word_of_int n :: i64) = word_of_int m \<longleftrightarrow> n = m" using assms nb by (intro word_of_int_inject_signed) auto
  with assms nb ne show ?thesis
    by (auto simp: compareSignedInts_def compareNulls_def cast_okD(1) compare_by_def word_sless_alt sint_of_small)
qed

lemma compareUnsignedInts_int:
  assumes "cast_ok L" and "val_int a = Some n" and "val_int b = Some m" and "0 \<le> n" and "0 \<le> m"
  shows "compareUnsignedInts L a b = Inr (compare_by n m)"
proof -
  note nb = val_int_bounds [OF assms(2)] val_int_bounds [OF assms(3)]
    and ne = val_int_input [OF assms(2)] val_int_input [OF assms(3)]
  have "(word_of_int n :: u64) = word_of_int m \<longleftrightarrow> n = m" using assms nb by (intro word_of_int_inject_unsigned) auto
  with assms nb ne show ?thesis
    by (auto simp: compareUnsignedInts_def compareNulls_def cast_okD(2) compare_by_def word_less_def uint_small_word)
qed

lemma in_range_signed: "in_range q n \<Longrightarrow> \<not> unsigned_type q \<Longrightarrow> n < 2 ^ 63"
  by (cases q) (auto simp: in_range_def int_range_def unsigned_type_def)

lemma in_range_unsigned: "in_range q n \<Longrightarrow> unsigned_type q \<Longrightarrow> 0 \<le> n"
  by (auto simp: in_range_def int_range_def unsigned_type_def)

lemma in_range_not_float: "in_range q n \<Longrightarrow> q \<notin> {QFloat32, QFloat64} \<and> int_range q \<noteq> None"
  by (cases q) (auto simp: in_range_def int_range_def)

lemma NumberCompare_int:
  assumes "cast_ok L" and "in_range q n" and "in_range q m"
  shows "NumberCompare L q (int_val q n) (int_val q m) = Inr (compare_by n m)"
proof (cases "unsigned_type q")
  case True
  then show ?thesis
    using compareUnsignedInts_int [OF assms(1) val_int_int_val [OF assms(2)] val_int_int_val [OF assms(3)]]
      in_range_unsigned [OF assms(2)] in_range_unsigned [OF assms(3)] by (simp add: NumberCompare_def unsigned_type_def)
next
  case False
  then show ?thesis
    using compareSignedInts_int [OF assms(1) val_int_int_val [OF assms(2)] val_int_int_val [OF assms(3)]]
      in_range_signed [OF assms(2)] in_range_signed [OF assms(3)] in_range_not_float [OF assms(2)]
    by (simp add: NumberCompare_def unsigned_type_def)
qed

lemma convert_words:
  "ToLower ''signed'' = ''signed''" "ToLower ''unsigned'' = ''unsigned''"
  by code_simp+

lemma convertValue_signed:
  assumes "cast_ok (lib T)" and "val_int v = Some n" and "n < 2 ^ 63"
  shows "convertValue T U v ''signed'' = Inr (int_val QInt64 n)"
  using NumberConvert_int [OF assms(1,2), of QInt64] assms val_int_bounds [OF assms(2)]
  by (simp add: convertValue_def convert_words TypeConvert_def or_else_def int_range_def in_range_def)

lemma convertValue_unsigned:
  assumes "cast_ok (lib T)" and "val_int v = Some n" and "0 \<le> n"
  shows "convertValue T U v ''unsigned'' = Inr (int_val QUint64 n)"
  using NumberConvert_int [OF assms(1,2), of QUint64] assms val_int_bounds [OF assms(2)]
  by (simp add: convertValue_def convert_words TypeConvert_def int_range_def in_range_def unsigned_type_def)

text \<open>
  When the comparison of two integers is exact: the types are equal; or one of them is signed and the numbers fit in
  64 bits with a sign; or none is and the numbers are not negative. MEDIUMINT does not count as signed here.
\<close>

definition ints_compare :: "query_type \<Rightarrow> query_type \<Rightarrow> int \<Rightarrow> int \<Rightarrow> bool" where
  "ints_compare ql qr n m \<longleftrightarrow>
     ql = qr \<or> (if IsSigned (NumberT ql) \<or> IsSigned (NumberT qr) then n < 2 ^ 63 \<and> m < 2 ^ 63 else 0 \<le> n \<and> 0 \<le> m)"

lemma Compare_int:
  assumes L: "cast_ok (lib T)" and n: "in_range ql n" and m: "in_range qr m" and ok: "ints_compare ql qr n m"
    and c: "c_leftType c = NumberT ql" "c_rightType c = NumberT qr"
      "c_left c row = Inr (int_val ql n)" "c_right c row = Inr (int_val qr m)"
  shows "Compare T U c row = Inr (compare_by n m)"
proof -
  have ne: "int_val ql n \<noteq> VNil" "int_val qr m \<noteq> VNil"
    using in_range_not_float [OF n] in_range_not_float [OF m] by simp_all
  have flt: "\<not> IsFloat (NumberT ql)" "\<not> IsFloat (NumberT qr)"
    using in_range_not_float [OF n] in_range_not_float [OF m] by (simp_all add: IsFloat_def)
  note vl = val_int_int_val [OF n] and vr = val_int_int_val [OF m]
  have b: "- (2 ^ 63) \<le> n" "n < 2 ^ 64" "- (2 ^ 63) \<le> m" "m < 2 ^ 64"
    using val_int_bounds [OF vl] val_int_bounds [OF vr] by simp_all
  show ?thesis
  proof (cases "ql = qr")
    case True
    then show ?thesis using NumberCompare_int [OF L n, of m] m ne c
      by (simp add: Compare_def evalLeftAndRight_def TypeCompare_def)
  next
    case False
    have eq: "Compare T U c row = bindE (castLeftAndRight T U (NumberT ql) (NumberT qr) (int_val ql n) (int_val qr m))
        (\<lambda>((l, r), compareType). TypeCompare T compareType l r)"
      using False ne c by (simp add: Compare_def evalLeftAndRight_def)
    show ?thesis
    proof (cases "IsSigned (NumberT ql) \<or> IsSigned (NumberT qr)")
      case True
      with ok False have s: "n < 2 ^ 63" "m < 2 ^ 63" by (simp_all add: ints_compare_def)
      have "NumberCompare (lib T) QInt64 (int_val QInt64 n) (int_val QInt64 m) = Inr (compare_by n m)"
        using s b by (intro NumberCompare_int [OF L]) (simp_all add: in_range_def int_range_def)
      with True flt show ?thesis unfolding eq
        by (simp add: castLeftAndRight_def convertLeftAndRight_def IsNumber_def IsDecimal_def TypeCompare_def
            convertValue_signed [OF L vl s(1)] convertValue_signed [OF L vr s(2)])
    next
      case unsigned: False
      with ok False have s: "0 \<le> n" "0 \<le> m" by (simp_all add: ints_compare_def)
      have "NumberCompare (lib T) QUint64 (int_val QUint64 n) (int_val QUint64 m) = Inr (compare_by n m)"
        using s b by (intro NumberCompare_int [OF L]) (simp_all add: in_range_def int_range_def)
      with unsigned flt show ?thesis unfolding eq
        by (simp add: castLeftAndRight_def convertLeftAndRight_def IsNumber_def IsDecimal_def TypeCompare_def
            convertValue_unsigned [OF L vl s(1)] convertValue_unsigned [OF L vr s(2)])
    qed
  qed
qed

lemmas operator_defs = EqualsEval_def GreaterThanEval_def LessThanEval_def GreaterThanOrEqualEval_def
  LessThanOrEqualEval_def cmp_result_def

section \<open>Where the comparison goes wrong\<close>

text \<open>A comparison of two constants.\<close>

definition const_cmp :: "val \<Rightarrow> sql_type \<Rightarrow> val \<Rightarrow> sql_type \<Rightarrow> comparison" where
  "const_cmp a t b u = \<lparr>c_left = \<lambda>row. Inr a, c_right = \<lambda>row. Inr b, c_leftType = t, c_rightType = u\<rparr>"

lemmas comparison_unfold = Compare_def const_cmp_def evalLeftAndRight_def castLeftAndRight_def convertLeftAndRight_def
  IsNumber_def IsDecimal_def IsFloat_def IsSigned_def TypeCompare_def

lemma Compare_big_signed:
  assumes L: "cast_ok (lib T)" and m: "in_range QInt64 m"
  shows "Compare T U (const_cmp (VUint64 (-1)) (NumberT QUint64) (int_val QInt64 m) (NumberT QInt64)) row = Inr (compare_by 0 m)"
proof -
  have "m < 2 ^ 63" using m by (simp add: in_range_def int_range_def)
  then have "convertValue T U (int_val QInt64 m) ''signed'' = Inr (int_val QInt64 m)"
    by (rule convertValue_signed [OF L val_int_int_val [OF m]])
  moreover have "convertValue T U (VUint64 (-1)) ''signed'' = Inr (int_val QInt64 0)"
    by (simp add: convertValue_def convert_words TypeConvert_def or_else_def NumberConvert_def time_seconds_def
        convert_int64_def int_val_def word_less_def unsigned_minus_1_eq_mask mask_eq_exp_minus_1)
  moreover have "NumberCompare (lib T) QInt64 (int_val QInt64 0) (int_val QInt64 m) = Inr (compare_by 0 m)"
    using m by (intro NumberCompare_int [OF L]) (simp_all add: in_range_def int_range_def)
  moreover have "int_val QInt64 m \<noteq> VNil" by (simp add: int_val_def)
  ultimately show ?thesis by (simp add: comparison_unfold)
qed

lemma convertValue_negative:
  assumes L: "cast_ok (lib T)" and n: "in_range QInt24 n" "n < 0"
  shows "convertValue T U (int_val QInt24 n) ''unsigned'' = Inr (int_val QUint64 (2 ^ 64 + n))"
proof -
  have "NumberConvert (lib T) QUint64 (int_val QInt24 n) = Inl errNegativeNotAllowed"
    using NumberConvert_int [OF L val_int_int_val [OF n(1)], of QUint64] n(2)
    by (simp add: in_range_def int_range_def unsigned_type_def)
  moreover have "castSignedToUnsigned (int_val QInt24 n) = word_of_int (2 ^ 64 + n)"
  proof -
    have "sint (word_of_int n :: 32 word) = n" using n by (intro sint_small_word) (simp_all add: in_range_def int_range_def)
    then have "(scast (word_of_int n :: 32 word) :: u64) = word_of_int n" by (metis of_int_sint)
    moreover have "(word_of_int (2 ^ 64 + n) :: u64) = word_of_int n" by (simp add: word_of_int_eq_iff take_bit_eq_mod)
    ultimately show ?thesis by (simp add: castSignedToUnsigned_def int_val_def)
  qed
  ultimately show ?thesis
    by (simp add: convertValue_def convert_words TypeConvert_def handleUnsignedErrors_def int_val_def [of QUint64])
qed

lemma Compare_medium_unsigned:
  assumes L: "cast_ok (lib T)" and n: "in_range QInt24 n" "n < 0" and k: "in_range QUint8 k"
  shows "Compare T U (const_cmp (int_val QInt24 n) (NumberT QInt24) (int_val QUint8 k) (NumberT QUint8)) row = Inr 1"
proof -
  have k': "0 \<le> k" "k < 256" and n': "- (2 ^ 23) \<le> n" using n k by (simp_all add: in_range_def int_range_def)
  have "NumberCompare (lib T) QUint64 (int_val QUint64 (2 ^ 64 + n)) (int_val QUint64 k) = Inr (compare_by (2 ^ 64 + n) k)"
    using k' n' n(2) by (intro NumberCompare_int [OF L]) (simp_all add: in_range_def int_range_def)
  moreover have "int_val QInt24 n \<noteq> VNil" "int_val QUint8 k \<noteq> VNil" by (simp_all add: int_val_def)
  ultimately show ?thesis
    using n' k' convertValue_negative [OF L n] convertValue_unsigned [OF L val_int_int_val [OF k] k'(1)]
    by (simp add: comparison_unfold compare_by_def)
qed

lemma Compare_uncomparable:
  "type_eq t u = Inl e \<Longrightarrow> a \<noteq> VNil \<Longrightarrow> b \<noteq> VNil \<Longrightarrow> Compare T U (const_cmp a t b u) row = Inl e"
  by (simp add: Compare_def const_cmp_def evalLeftAndRight_def)

section \<open>Properties\<close>

text \<open>C15. The five operators order two integers of integer types as numbers, whatever the two types are, as long as the
  numbers are within the range that the common type of the comparison has.\<close>

theorem compare_integers:
  assumes "cast_ok (lib T)" and "in_range ql n" and "in_range qr m" and "ints_compare ql qr n m"
    and "c_leftType c = NumberT ql" and "c_rightType c = NumberT qr"
    and "c_left c row = Inr (int_val ql n)" and "c_right c row = Inr (int_val qr m)"
  shows "EqualsEval T U c row = Inr (VBool (n = m)) \<and>
    LessThanEval T U c row = Inr (VBool (n < m)) \<and> GreaterThanEval T U c row = Inr (VBool (n > m)) \<and>
    LessThanOrEqualEval T U c row = Inr (VBool (n \<le> m)) \<and> GreaterThanOrEqualEval T U c row = Inr (VBool (n \<ge> m))"
  using Compare_int [OF assms, of U] by (auto simp: operator_defs compare_by_def)

theorem compare_integers_witness:
  "LessThanEval \<lparr>lib = int_cast, oconv = \<lambda>t v. Inr v, ocomp = \<lambda>t a b. Inr 0, year = \<lambda>w e l. 0\<rparr> (\<lambda>s. None)
     \<lparr>c_left = \<lambda>row. Inr (VInt8 (-3)), c_right = \<lambda>row. Inr (VUint32 7), c_leftType = NumberT QInt8, c_rightType = NumberT QUint32\<rparr> [] =
   Inr (VBool True)"
proof -
  let ?T = "\<lparr>lib = int_cast, oconv = \<lambda>t v. Inr v, ocomp = \<lambda>t a b. Inr 0, year = \<lambda>w e l. 0\<rparr>"
  let ?c = "\<lparr>c_left = \<lambda>row. Inr (VInt8 (-3)), c_right = \<lambda>row. Inr (VUint32 7), c_leftType = NumberT QInt8, c_rightType = NumberT QUint32\<rparr>"
  have "in_range QInt8 (-3)" "in_range QUint32 7" "ints_compare QInt8 QUint32 (-3) 7"
    "int_val QInt8 (-3) = VInt8 (-3)" "int_val QUint32 7 = VUint32 7"
    by (simp_all add: in_range_def int_range_def ints_compare_def IsSigned_def int_val_def)
  with compare_integers [of ?T QInt8 "-3" QUint32 7 ?c "[]" "\<lambda>s. None"] int_cast_ok show ?thesis by simp
qed

text \<open>Beyond those ranges the answers are wrong: the largest unsigned BIGINT is not greater than a positive signed one,
  any negative MEDIUMINT is greater than any unsigned TINYINT, and comparing two ENUM, SET or tuple operands panics.\<close>

lemma compare_wrong:
  assumes "cast_ok (lib T)" and "0 < m" and "in_range QInt64 m" and "in_range QInt24 n" and "n < 0" and "in_range QUint8 k"
    and "a \<noteq> VNil" and "b \<noteq> VNil"
  shows "GreaterThanEval T U (const_cmp (VUint64 (-1)) (NumberT QUint64) (int_val QInt64 m) (NumberT QInt64)) row = Inr (VBool False) \<and>
    GreaterThanEval T U (const_cmp (int_val QInt24 n) (NumberT QInt24) (int_val QUint8 k) (NumberT QUint8)) row = Inr (VBool True) \<and>
    GreaterThanEval T U (const_cmp a (EnumT e) b (EnumT e')) row = Inl uncomparable \<and>
    GreaterThanEval T U (const_cmp a (SetT s) b (SetT s')) row = Inl uncomparable \<and>
    GreaterThanEval T U (const_cmp a (TupleT ts) b (TupleT ts')) row = Inl uncomparable"
  using Compare_big_signed [OF assms(1,3)] Compare_medium_unsigned [OF assms(1,4,5,6)] assms(2,7,8)
  by (simp add: GreaterThanEval_def cmp_result_def compare_by_def Compare_uncomparable uncomparable_def)

end
