(* ===== verification/Sort_Iter.thy ===== *)
theory Sort_Iter
  imports Query_Plans Read_Loop Comparison
begin

text \<open>
  ORDER BY: the node \<^verbatim>\<open>Sort\<close> (\<^verbatim>\<open>sql/plan/sort.go\<close>), which reads its child into a rows cache, sorts the rows and then
  delivers them.
\<close>

section \<open>The order of two rows\<close>

type_synonym column_expr = "row \<Rightarrow> sql_error + val"

definition Ascending :: u8 where "Ascending = 1"
definition Descending :: u8 where "Descending = 2"
definition NullsFirst :: u8 where "NullsFirst = 0"
definition NullsLast :: u8 where "NullsLast = 2"

text \<open>A sort field; \<open>sf_Compare\<close> is the method \<^verbatim>\<open>Compare\<close> of the column's type.\<close>

record SortField =
  sf_Column :: column_expr
  sf_Compare :: "val \<Rightarrow> val \<Rightarrow> sql_error + int"
  sf_Order :: u8
  sf_NullOrdering :: u8

fun less_loop :: "SortField list \<Rightarrow> row \<Rightarrow> row \<Rightarrow> sql_error + bool" where
  "less_loop [] a b = Inr False"
| "less_loop (sf # sfs) a b =
     (case sf_Column sf a of
        Inl e \<Rightarrow> Inl (ErrUnableSort e)
      | Inr v \<Rightarrow>
          (case sf_Column sf b of
             Inl e \<Rightarrow> Inl (ErrUnableSort e)
           | Inr w \<Rightarrow>
               (let av = (if sf_Order sf = Descending then w else v); bv = (if sf_Order sf = Descending then v else w) in
                if av = VNil \<and> bv = VNil then less_loop sfs a b
                else if av = VNil then Inr (sf_NullOrdering sf = NullsFirst)
                else if bv = VNil then Inr (sf_NullOrdering sf \<noteq> NullsFirst)
                else bindE (sf_Compare sf av bv) (\<lambda>cmp.
                  if cmp = -1 then Inr True else if cmp = 1 then Inr False else less_loop sfs a b))))"

text \<open>\<^verbatim>\<open>Sorter.Less\<close>: the answer, and the error that the sorter remembers. After an error nothing is less than anything.\<close>

definition Sorter_Less :: "SortField list \<Rightarrow> sql_error option \<Rightarrow> row \<Rightarrow> row \<Rightarrow> bool \<times> sql_error option" where
  "Sorter_Less flds lastError a b =
     (if lastError \<noteq> None then (False, lastError)
      else case less_loop flds a b of Inl e \<Rightarrow> (False, Some e) | Inr r \<Rightarrow> (r, None))"

section \<open>Sorting\<close>

text \<open>
  \<^verbatim>\<open>sort.Stable\<close>, as the insertion sort that it runs on every block of twenty elements: an element moves left past
  those it is less than. The blocks are then merged in place, which for an order gives the same rows; which pairs are
  compared, and so which error is seen first, depends on it for more than twenty rows. \<open>sink\<close> has the sorted elements
  with the last one first.
\<close>

fun sink :: "('e \<Rightarrow> 'r \<Rightarrow> 'r \<Rightarrow> bool \<times> 'e) \<Rightarrow> 'e \<Rightarrow> 'r list \<Rightarrow> 'r \<Rightarrow> 'r list \<times> 'e" where
  "sink ls e [] x = ([x], e)"
| "sink ls e (p # ps) x =
     (case ls e x p of
        (True, e') \<Rightarrow> (case sink ls e' ps x of (ps', e'') \<Rightarrow> (p # ps', e''))
      | (False, e') \<Rightarrow> (x # p # ps, e'))"

fun insertion :: "('e \<Rightarrow> 'r \<Rightarrow> 'r \<Rightarrow> bool \<times> 'e) \<Rightarrow> 'e \<Rightarrow> 'r list \<Rightarrow> 'r list \<Rightarrow> 'r list \<times> 'e" where
  "insertion ls e acc [] = (rev acc, e)"
| "insertion ls e acc (x # xs) = (case sink ls e acc x of (acc', e') \<Rightarrow> insertion ls e' acc' xs)"

definition sort_Stable :: "SortField list \<Rightarrow> row list \<Rightarrow> row list \<times> sql_error option" where
  "sort_Stable flds rs = insertion (Sorter_Less flds) None [] rs"

section \<open>The iterator\<close>

record ('s, 'm) sortIter =
  so_child :: 's
  so_mem :: 'm
  sortedRows :: "row list"
  so_idx :: int

definition newSortIter :: "'s \<Rightarrow> 'm \<Rightarrow> ('s, 'm) sortIter" where
  "newSortIter child m = \<lparr>so_child = child, so_mem = m, sortedRows = [], so_idx = -1\<rparr>"

type_synonym ('s, 'l) sort_state = "('s, ('l, unit, row) MemoryManager) sortIter"

definition computeSortedRows :: "'l \<Rightarrow> Reporter \<Rightarrow> ('s, row) nextfun \<Rightarrow> SortField list \<Rightarrow> ('s, 'l) sort_state
      \<Rightarrow> (('s, 'l) sort_state \<times> sql_error option) option" where
  "computeSortedRows l rep nxt flds i =
     (case NewRowsCache (so_mem i) of (c, m) \<Rightarrow>
        (case read_into nxt (\<lambda>m r. rows_Add l rep (fst c) r m) (so_child i) m of
           None \<Rightarrow> None
         | Some ((s', m'), Some e) \<Rightarrow> Some (i\<lparr>so_child := s', so_mem := DisposeFunc c m'\<rparr>, Some e)
         | Some ((s', m'), None) \<Rightarrow>
             (case sort_Stable flds (rows_Get (fst c) m') of
                (out, Some e) \<Rightarrow> Some (i\<lparr>so_child := s', so_mem := DisposeFunc c m'\<rparr>, Some e)
              | (out, None) \<Rightarrow>
                  Some (i\<lparr>so_child := s', so_mem := DisposeFunc c m', sortedRows := out\<rparr>, None))))"

definition sort_deliver :: "('s, 'l) sort_state \<Rightarrow> ('s, 'l) sort_state \<times> row nextres" where
  "sort_deliver i =
     (if so_idx i \<ge> int (length (sortedRows i)) then (i, NEOF)
      else (i\<lparr>so_idx := so_idx i + 1\<rparr>, NRow (sortedRows i ! nat (so_idx i))))"

definition sortIter_Next :: "'l \<Rightarrow> Reporter \<Rightarrow> ('s, row) nextfun \<Rightarrow> SortField list \<Rightarrow> (('s, 'l) sort_state, row) nextfun" where
  "sortIter_Next l rep nxt flds i =
     (if so_idx i = -1 then
        (case computeSortedRows l rep nxt flds i of
           None \<Rightarrow> None
         | Some (i', Some e) \<Rightarrow> Some (i', NErr e)
         | Some (i', None) \<Rightarrow> Some (sort_deliver (i'\<lparr>so_idx := 0\<rparr>)))
      else Some (sort_deliver i))"

definition sortIter_Close :: "('s \<Rightarrow> 's \<times> sql_error option) \<Rightarrow> ('s, 'l) sort_state \<Rightarrow> ('s, 'l) sort_state \<times> sql_error option" where
  "sortIter_Close close_child i = (case close_child (so_child i) of (s, e) \<Rightarrow> (i\<lparr>sortedRows := [], so_child := s\<rparr>, e))"

section \<open>What the iterator delivers\<close>

definition sort_contents :: "'l \<Rightarrow> Reporter \<Rightarrow> SortField list \<Rightarrow> ('s \<Rightarrow> row todo) \<Rightarrow> ('s, 'l) sort_state \<Rightarrow> row todo" where
  "sort_contents l rep flds contents i =
     (if so_idx i = -1 then
        (case NewRowsCache (so_mem i) of (c, m) \<Rightarrow>
           (case contents (so_child i) of (rs, e) \<Rightarrow>
              (case add_all (\<lambda>m r. rows_Add l rep (fst c) r m) m rs of
                 (m', Some err) \<Rightarrow> ([], Some err)
               | (m', None) \<Rightarrow>
                   (case e of
                      Some err \<Rightarrow> ([], Some err)
                    | None \<Rightarrow> (case sort_Stable flds (rows_Get (fst c) m') of
                         (out, Some err) \<Rightarrow> ([], Some err) | (out, None) \<Rightarrow> (out, None))))))
      else (drop (nat (so_idx i)) (sortedRows i), None))"

definition sort_good :: "('s \<Rightarrow> bool) \<Rightarrow> ('s, 'l) sort_state \<Rightarrow> bool" where
  "sort_good good i \<longleftrightarrow> -1 \<le> so_idx i \<and> (so_idx i = -1 \<longrightarrow> good (so_child i))"

lemma sort_deliver_keeps:
  assumes "0 \<le> so_idx i" and "nxt i0 = Some (sort_deliver i)" and "contents i0 = (drop (nat (so_idx i)) (sortedRows i), None)"
    and "\<And>j. 0 \<le> so_idx j \<Longrightarrow> good j \<and> contents j = (drop (nat (so_idx j)) (sortedRows j), None)"
  shows "keeps nxt contents good i0"
proof (cases "so_idx i \<ge> int (length (sortedRows i))")
  case True
  with assms(1-3) assms(4) [of i] show ?thesis by (simp add: keeps_def sort_deliver_def)
next
  case False
  have "drop (nat (so_idx i)) (sortedRows i) = sortedRows i ! nat (so_idx i) # drop (nat (so_idx i + 1)) (sortedRows i)"
    using False assms(1) by (simp add: Cons_nth_drop_Suc nat_add_distrib)
  with False assms(1-3) assms(4) [of "i\<lparr>so_idx := so_idx i + 1\<rparr>"] show ?thesis
    by (simp add: keeps_def sort_deliver_def cons_row_def)
qed

locale sort_over = row_iter nxt contents good
  for nxt :: "('s, row) nextfun" and contents and good +
  fixes l :: 'l and rep :: Reporter and flds :: "SortField list"

sublocale sort_over \<subseteq> srt: row_iter "sortIter_Next l rep nxt flds :: (('s, 'l) sort_state, row) nextfun"
    "sort_contents l rep flds contents" "sort_good good"
proof (rule row_iterI)
  fix i :: "('s, 'l) sort_state"
  let ?nxt = "sortIter_Next l rep nxt flds :: (('s, 'l) sort_state, row) nextfun"
  let ?con = "sort_contents l rep flds contents :: ('s, 'l) sort_state \<Rightarrow> row todo"
  assume gi: "sort_good good i"
  have sorted: "sort_good good j \<and> ?con j = (drop (nat (so_idx j)) (sortedRows j), None)"
    if "0 \<le> so_idx j" for j :: "('s, 'l) sort_state"
    using that by (simp add: sort_good_def sort_contents_def)
  show "keeps ?nxt ?con (sort_good good) i"
  proof (cases "so_idx i = -1")
    case False
    with gi have "0 \<le> so_idx i" by (simp add: sort_good_def)
    moreover have "?nxt i = Some (sort_deliver i)" using False by (simp add: sortIter_Next_def)
    ultimately show ?thesis using sorted by (intro sort_deliver_keeps) auto
  next
    case True
    obtain c m where cm: "NewRowsCache (so_mem i) = (c, m)" by fastforce
    obtain rs e where rs: "contents (so_child i) = (rs, e)" by fastforce
    let ?add = "\<lambda>m r. rows_Add l rep (fst c) r m"
    obtain m' a where m': "add_all ?add m rs = (m', a)" by fastforce
    from read_into_contents [OF _ rs, of ?add m] gi True m' obtain s' where
      read: "read_into nxt ?add (so_child i) m = Some ((s', m'), (case a of Some err \<Rightarrow> Some err | None \<Rightarrow> e))"
      by (auto simp: sort_good_def)
    obtain out err where out: "sort_Stable flds (rows_Get (fst c) m') = (out, err)" by fastforce
    show ?thesis
    proof (cases "a = None \<and> e = None \<and> err = None")
      case True
      let ?i = "i\<lparr>so_child := s', so_mem := DisposeFunc c m', sortedRows := out, so_idx := 0\<rparr>"
      have "?nxt i = Some (sort_deliver ?i)"
        using \<open>so_idx i = -1\<close> True cm read out by (simp add: sortIter_Next_def computeSortedRows_def)
      moreover have "?con i = (drop (nat (so_idx ?i)) (sortedRows ?i), None)"
        using \<open>so_idx i = -1\<close> True cm rs m' out by (simp add: sort_contents_def)
      ultimately show ?thesis using sorted by (intro sort_deliver_keeps [of ?i]) auto
    next
      case False
      then show ?thesis using \<open>so_idx i = -1\<close> cm rs m' read out
        by (auto simp: keeps_def sortIter_Next_def computeSortedRows_def sort_contents_def split: option.splits)
    qed
  qed
qed

section \<open>Stable sorting\<close>

text \<open>The order the sort is asked for: irreflexive, and if \<open>a\<close> comes before \<open>c\<close>, every \<open>b\<close> comes after \<open>a\<close> or before \<open>c\<close>.\<close>

definition weak_order :: "('r \<Rightarrow> 'r \<Rightarrow> bool) \<Rightarrow> bool" where
  "weak_order lt \<longleftrightarrow> (\<forall>a b. lt a b \<longrightarrow> \<not> lt b a) \<and> (\<forall>a b c. lt a c \<longrightarrow> lt a b \<or> lt b c)"

definition same_place :: "('r \<Rightarrow> 'r \<Rightarrow> bool) \<Rightarrow> 'r \<Rightarrow> 'r \<Rightarrow> bool" where
  "same_place lt a b \<longleftrightarrow> \<not> lt a b \<and> \<not> lt b a"

text \<open>The sorted rows are the rows in order, with rows of the same place in their old order.\<close>

definition stable_sort_of :: "('r \<Rightarrow> 'r \<Rightarrow> bool) \<Rightarrow> 'r list \<Rightarrow> 'r list \<Rightarrow> bool" where
  "stable_sort_of lt rs out \<longleftrightarrow> mset out = mset rs \<and> sorted_wrt (\<lambda>a b. \<not> lt b a) out \<and>
     (\<forall>r. filter (same_place lt r) out = filter (same_place lt r) rs)"

fun pure_sink :: "('r \<Rightarrow> 'r \<Rightarrow> bool) \<Rightarrow> 'r list \<Rightarrow> 'r \<Rightarrow> 'r list" where
  "pure_sink lt [] x = [x]"
| "pure_sink lt (p # ps) x = (if lt x p then p # pure_sink lt ps x else x # p # ps)"

lemma sink_pure:
  "(\<And>p. p \<in> set ps \<Longrightarrow> ls e x p = (lt x p, e)) \<Longrightarrow> sink ls e ps x = (pure_sink lt ps x, e)"
  by (induction ps) auto

lemma mset_pure_sink [simp]: "mset (pure_sink lt ps x) = add_mset x (mset ps)"
  by (induction ps) auto

lemma set_pure_sink [simp]: "set (pure_sink lt ps x) = insert x (set ps)"
  using mset_pure_sink [of lt ps x] by (metis set_mset_add_mset_insert set_mset_mset)

lemma sorted_pure_sink:
  "weak_order lt \<Longrightarrow> sorted_wrt (\<lambda>a b. \<not> lt a b) ps \<Longrightarrow> sorted_wrt (\<lambda>a b. \<not> lt a b) (pure_sink lt ps x)"
  unfolding weak_order_def by (induction ps) (auto, metis)

lemma filter_pure_sink:
  assumes "weak_order lt"
  shows "filter (same_place lt r) (pure_sink lt ps x) = filter (same_place lt r) (x # ps)"
proof (induction ps)
  case (Cons p ps)
  have "\<not> (same_place lt r x \<and> same_place lt r p)" if "lt x p"
    using assms that unfolding weak_order_def same_place_def by metis
  with Cons show ?case by auto
qed simp

lemma insertion_stable:
  assumes "weak_order lt" and "\<And>x p. x \<in> set xs \<union> set acc \<Longrightarrow> p \<in> set xs \<union> set acc \<Longrightarrow> ls e x p = (lt x p, e)"
    and "stable_sort_of lt rs (rev acc)"
  shows "\<exists>out. insertion ls e acc xs = (out, e) \<and> stable_sort_of lt (rs @ xs) out"
  using assms(2,3)
proof (induction xs arbitrary: acc rs)
  case Nil
  then show ?case by simp
next
  case (Cons x xs)
  have sink: "sink ls e acc x = (pure_sink lt acc x, e)" using Cons.prems(1) by (intro sink_pure) auto
  have "stable_sort_of lt (rs @ [x]) (rev (pure_sink lt acc x))"
    using Cons.prems(2) assms(1) sorted_pure_sink [OF assms(1), of acc x] filter_pure_sink [OF assms(1), of _ acc x]
    by (simp add: stable_sort_of_def sorted_wrt_rev rev_filter [symmetric])
  from Cons.IH [OF _ this] Cons.prems(1) sink show ?case by auto
qed

section \<open>The order of the sort fields\<close>

text \<open>
  One field: the values of both rows, in the other order if descending, NULLs at the end that the null ordering says, and
  the keys that the type compares. Rows of the same place there are ordered by the other fields.
\<close>

definition nulls_before :: "u8 \<Rightarrow> (val \<Rightarrow> 'k :: linorder) \<Rightarrow> val \<Rightarrow> val \<Rightarrow> bool" where
  "nulls_before no key x y =
     (if x = VNil then y \<noteq> VNil \<and> no = NullsFirst else if y = VNil then no \<noteq> NullsFirst else key x < key y)"

definition field_val :: "SortField \<Rightarrow> row \<Rightarrow> val" where
  "field_val sf r = (case sf_Column sf r of Inr v \<Rightarrow> v | Inl _ \<Rightarrow> VNil)"

definition field_before :: "SortField \<Rightarrow> (val \<Rightarrow> 'k :: linorder) \<Rightarrow> row \<Rightarrow> row \<Rightarrow> bool" where
  "field_before sf key a b =
     (if sf_Order sf = Descending then nulls_before (sf_NullOrdering sf) key (field_val sf b) (field_val sf a)
      else nulls_before (sf_NullOrdering sf) key (field_val sf a) (field_val sf b))"

fun row_before :: "(SortField \<times> (val \<Rightarrow> 'k :: linorder)) list \<Rightarrow> row \<Rightarrow> row \<Rightarrow> bool" where
  "row_before [] a b = False"
| "row_before ((sf, key) # fs) a b =
     (field_before sf key a b \<or> \<not> field_before sf key b a \<and> row_before fs a b)"

lemma nulls_before_weak: "weak_order (nulls_before no key)"
  by (auto simp: weak_order_def nulls_before_def)

lemma field_before_weak: "weak_order (field_before sf key)"
  using nulls_before_weak [of "sf_NullOrdering sf" key] unfolding weak_order_def field_before_def by (metis (full_types))

lemma row_before_weak: "weak_order (row_before fs)"
proof (induction fs)
  case (Cons f fs)
  obtain sf key where f: "f = (sf, key)" by fastforce
  show ?case using Cons field_before_weak [of sf key] unfolding f weak_order_def row_before.simps by metis
qed (simp add: weak_order_def)

text \<open>Fields that evaluate without an error on the rows and whose types compare the values there by keys.\<close>

definition fields_ok :: "(SortField \<times> (val \<Rightarrow> 'k :: linorder)) list \<Rightarrow> row set \<Rightarrow> bool" where
  "fields_ok fs R \<longleftrightarrow> (\<forall>(sf, key) \<in> set fs. (\<forall>r \<in> R. \<exists>v. sf_Column sf r = Inr v) \<and>
     (\<forall>r \<in> R. \<forall>r' \<in> R. field_val sf r \<noteq> VNil \<and> field_val sf r' \<noteq> VNil \<longrightarrow>
        sf_Compare sf (field_val sf r) (field_val sf r') = Inr (compare_by (key (field_val sf r)) (key (field_val sf r')))))"

lemma less_loop_row_before:
  "fields_ok fs R \<Longrightarrow> a \<in> R \<Longrightarrow> b \<in> R \<Longrightarrow> less_loop (map fst fs) a b = Inr (row_before fs a b)"
proof (induction fs)
  case (Cons f fs)
  obtain sf key where f: "f = (sf, key)" by fastforce
  from Cons.prems obtain v w where v: "sf_Column sf a = Inr v" "sf_Column sf b = Inr w"
    unfolding fields_ok_def f by fastforce
  then have fv: "field_val sf a = v" "field_val sf b = w" by (simp_all add: field_val_def)
  have cmp: "v \<noteq> VNil \<Longrightarrow> w \<noteq> VNil \<Longrightarrow> sf_Compare sf v w = Inr (compare_by (key v) (key w))"
    "v \<noteq> VNil \<Longrightarrow> w \<noteq> VNil \<Longrightarrow> sf_Compare sf w v = Inr (compare_by (key w) (key v))"
    using Cons.prems unfolding fields_ok_def f fv [symmetric] by auto
  have "fields_ok fs R" using Cons.prems(1) by (auto simp: fields_ok_def)
  with Cons have "less_loop (map fst fs) a b = Inr (row_before fs a b)" by blast
  with v fv cmp show ?case
    by (auto simp: f field_before_def nulls_before_def compare_by_def)
qed simp

text \<open>Every integer type compares its values by the numbers that they stand for.\<close>

lemma int_field_ok:
  assumes "cast_ok L" and "sf_Compare sf = NumberCompare L q"
    and "\<And>r. r \<in> R \<Longrightarrow> sf_Column sf r = Inr VNil \<or> (\<exists>n. in_range q n \<and> sf_Column sf r = Inr (int_val q n))"
  shows "fields_ok [(sf, \<lambda>v. the (val_int v))] R"
proof -
  have val: "\<exists>n. in_range q n \<and> field_val sf r = int_val q n" if "r \<in> R" "field_val sf r \<noteq> VNil" for r
    using assms(3) [OF that(1)] that(2) by (auto simp: field_val_def)
  have "sf_Compare sf (field_val sf r) (field_val sf r') =
      Inr (compare_by (the (val_int (field_val sf r))) (the (val_int (field_val sf r'))))"
    if "r \<in> R" "r' \<in> R" "field_val sf r \<noteq> VNil" "field_val sf r' \<noteq> VNil" for r r'
  proof -
    from val [of r] val [of r'] that obtain n m where "in_range q n" "field_val sf r = int_val q n"
      "in_range q m" "field_val sf r' = int_val q m" by blast
    with NumberCompare_int [OF assms(1), of q n m] assms(2) show ?thesis by (simp add: val_int_int_val)
  qed
  with assms(3) show ?thesis unfolding fields_ok_def by fastforce
qed

text \<open>There is one way to sort stably.\<close>

lemma stable_sort_unique:
  assumes "weak_order lt" and "stable_sort_of lt rs out" and "stable_sort_of lt rs out'"
  shows "out = out'"
proof -
  have "out = out'" if "mset out = mset out'" "sorted_wrt (\<lambda>a b. \<not> lt b a) out" "sorted_wrt (\<lambda>a b. \<not> lt b a) out'"
    "\<And>r. filter (same_place lt r) out = filter (same_place lt r) out'" "\<forall>r \<in> set out. \<not> lt r r" for out out' :: "'a list"
    using that
  proof (induction out arbitrary: out')
    case (Cons a as)
    then obtain b bs where b: "out' = b # bs" by (cases out') auto
    have "a = b"
    proof (rule ccontr)
      assume "a \<noteq> b"
      have "set (a # as) = set (b # bs)" using Cons.prems(1) b by (metis set_mset_mset)
      with \<open>a \<noteq> b\<close> have "b \<in> set as" "a \<in> set bs" by auto
      with Cons.prems(2,3) b have "same_place lt a b" by (auto simp: same_place_def)
      with Cons.prems(4) [of a] Cons.prems(5) b \<open>a \<noteq> b\<close> show False by (auto simp: same_place_def split: if_splits)
    qed
    moreover have "as = bs"
    proof (rule Cons.IH)
      fix r show "filter (same_place lt r) as = filter (same_place lt r) bs"
        using Cons.prems(4) [of r] b \<open>a = b\<close> by (auto split: if_splits)
    qed (use Cons.prems b \<open>a = b\<close> in auto)
    ultimately show ?case using b by simp
  qed simp
  from this [of out out'] assms show ?thesis by (auto simp: stable_sort_of_def weak_order_def)
qed

section \<open>Properties\<close>

lemma add_all_rows:
  assumes "ample rep" and "is_rows a m"
  shows "\<exists>m'. add_all (\<lambda>m r. rows_Add l rep a r m) m rs = (m', None) \<and> rows_Get a m' = rows_Get a m @ rs"
  using assms(2)
proof (induction rs arbitrary: m)
  case (Cons r rs)
  from rows_Add_ample [OF assms(1) Cons.prems, of l r] obtain m1 where
    "rows_Add l rep a r m = (Inr (), m1)" "is_rows a m1" "rows_Get a m1 = rows_Get a m @ [r]" by blast
  with Cons.IH [of m1] show ?case by simp
qed simp

interpretation srt_s: sort_over sliceRowIter_Next slice_contents "\<lambda>_. True" l rep flds for l rep flds ..

interpretation lim_srt: limit_over "sortIter_Next l rep sliceRowIter_Next flds"
    "sort_contents l rep flds slice_contents" "sort_good (\<lambda>_. True)" for l rep flds
  by unfold_locales

lemma sort_contents_rows:
  assumes "fields_ok fs (set rs)" and "ample rep"
  shows "\<exists>out. sort_contents l rep (map fst fs) slice_contents (newSortIter (RowsToRowIter rs) m) = (out, None) \<and>
    stable_sort_of (row_before fs) rs out"
proof -
  obtain c m1 where c: "NewRowsCache m = (c, m1)" by fastforce
  then have heap: "is_rows (fst c) m1" "rows_Get (fst c) m1 = []"
    by (auto simp: NewRowsCache_def new_cache_def addCache_def Let_def is_rows_def rows_Get_def)
  from add_all_rows [OF assms(2) heap(1), of l rs] heap(2) obtain m2 where
    m2: "add_all (\<lambda>m r. rows_Add l rep (fst c) r m) m1 rs = (m2, None)" "rows_Get (fst c) m2 = rs" by auto
  have "\<exists>out. insertion (Sorter_Less (map fst fs)) None [] rs = (out, None) \<and> stable_sort_of (row_before fs) ([] @ rs) out"
    by (rule insertion_stable [OF row_before_weak])
      (auto simp: Sorter_Less_def less_loop_row_before [OF assms(1)] stable_sort_of_def)
  then obtain out where "sort_Stable (map fst fs) rs = (out, None)" "stable_sort_of (row_before fs) rs out"
    by (auto simp: sort_Stable_def)
  with c m2 show ?thesis by (simp add: sort_contents_def newSortIter_def)
qed

text \<open>A descending field has the NULLs at the other end than its null ordering says.\<close>

lemma descending_nulls_last:
  assumes "sf_Order sf = Descending" and "sf_NullOrdering sf = NullsFirst"
    and "sf_Column sf a = Inr v" "v \<noteq> VNil" "sf_Column sf b = Inr VNil"
  shows "less_loop [sf] a b = Inr True \<and> less_loop [sf] b a = Inr False"
  using assms by simp



end
