(* ===== verification/Aggregations.thy ===== *)
theory Aggregations
  imports Comparison
begin

text \<open>
  The aggregate functions (\<^verbatim>\<open>sql/expression/function/aggregation\<close>). An aggregation keeps a buffer: it starts with
  \<^verbatim>\<open>NewBuffer\<close>, every row goes through \<^verbatim>\<open>Update\<close>, and \<^verbatim>\<open>Eval\<close> gives the value. \<^verbatim>\<open>Update\<close> changes the buffer in place, so
  it returns the buffer also if it fails.
\<close>

section \<open>The interface\<close>

text \<open>A buffer is a row that may also hold the set of hashes that \<^verbatim>\<open>COUNT(DISTINCT)\<close> has seen.\<close>

datatype (plugins only: "code" "size") bufval = BVal val | BSeen "u64 list"

type_synonym buffer = "bufval list"

record aggregation =
  NewBuffer :: buffer
  Update :: "buffer \<Rightarrow> row \<Rightarrow> buffer \<times> sql_error option"
  Merge :: "buffer \<Rightarrow> buffer \<Rightarrow> buffer \<times> sql_error option"
  EvalBuf :: "buffer \<Rightarrow> sql_error + val"

definition bad_assertion :: sql_error where
  "bad_assertion = Panic ''interface conversion''"

text \<open>\<^verbatim>\<open>buffer[i]\<close> as a value; an index beyond the buffer panics.\<close>

definition buf_val :: "buffer \<Rightarrow> nat \<Rightarrow> sql_error + val" where
  "buf_val b i =
     (if i \<ge> length b then Inl (Panic ''index out of range'')
      else case b ! i of BVal v \<Rightarrow> Inr v | BSeen _ \<Rightarrow> Inl bad_assertion)"

definition buf_int64 :: "buffer \<Rightarrow> nat \<Rightarrow> sql_error + i64" where
  "buf_int64 b i = bindE (buf_val b i) (\<lambda>v. case v of VInt64 x \<Rightarrow> Inr x | _ \<Rightarrow> Inl bad_assertion)"

definition buf_float64 :: "buffer \<Rightarrow> nat \<Rightarrow> sql_error + 64 word" where
  "buf_float64 b i = bindE (buf_val b i) (\<lambda>v. case v of VFloat64 x \<Rightarrow> Inr x | _ \<Rightarrow> Inl bad_assertion)"

definition buf_bool :: "buffer \<Rightarrow> nat \<Rightarrow> sql_error + bool" where
  "buf_bool b i = bindE (buf_val b i) (\<lambda>v. case v of VBool x \<Rightarrow> Inr x | _ \<Rightarrow> Inl bad_assertion)"

definition buf_seen :: "buffer \<Rightarrow> nat \<Rightarrow> sql_error + u64 list" where
  "buf_seen b i =
     (if i \<ge> length b then Inl (Panic ''index out of range'')
      else case b ! i of BSeen s \<Rightarrow> Inr s | BVal _ \<Rightarrow> Inl bad_assertion)"

text \<open>An update that changes the buffer only if it succeeds.\<close>

definition in_place :: "buffer \<Rightarrow> sql_error + buffer \<Rightarrow> buffer \<times> sql_error option" where
  "in_place b r = (case r of Inl e \<Rightarrow> (b, Some e) | Inr b' \<Rightarrow> (b', None))"

text \<open>A buffer read as a row, as the functions that merge with their own \<^verbatim>\<open>Update\<close> do.\<close>

definition as_row :: "buffer \<Rightarrow> row" where
  "as_row b = map (\<lambda>x. case x of BVal v \<Rightarrow> v | BSeen _ \<Rightarrow> VNil) b"

section \<open>COUNT\<close>

text \<open>\<open>star\<close> says that the argument is \<^verbatim>\<open>*\<close>.\<close>

definition count_update :: "bool \<Rightarrow> expr \<Rightarrow> buffer \<Rightarrow> row \<Rightarrow> buffer \<times> sql_error option" where
  "count_update star child b row = in_place b (
     bindE (if star then Inr True else bindE (child row) (\<lambda>v. Inr (v \<noteq> VNil))) (\<lambda>inc.
       if inc then bindE (buf_int64 b 0) (\<lambda>n. Inr (b[0 := BVal (VInt64 (n + 1))])) else Inr b))"

definition Count :: "bool \<Rightarrow> expr \<Rightarrow> aggregation" where
  "Count star child = \<lparr>
     NewBuffer = [BVal (VInt64 0)],
     Update = count_update star child,
     Merge = (\<lambda>b p. in_place b (bindE (buf_int64 b 0) (\<lambda>n. bindE (buf_int64 p 0) (\<lambda>k. Inr (b[0 := BVal (VInt64 (n + k))]))))),
     EvalBuf = (\<lambda>b. buf_val b 0)\<rparr>"

text \<open>
  \<open>hash\<close> is the hash of a value or of a whole row (\<^verbatim>\<open>hashstructure.Hash\<close>). An error of the argument comes with no value
  and is not looked at then.
\<close>

definition count_distinct_update ::
    "(val + row \<Rightarrow> sql_error + u64) \<Rightarrow> bool \<Rightarrow> expr \<Rightarrow> buffer \<Rightarrow> row \<Rightarrow> buffer \<times> sql_error option" where
  "count_distinct_update hash star child b row = in_place b (
     bindE (buf_seen b 0) (\<lambda>seen.
       let value = (if star then Some (Inr row) else (case child row of Inr v \<Rightarrow> if v = VNil then None else Some (Inl v) | Inl e \<Rightarrow> None)) in
       case value of
         None \<Rightarrow> Inr b
       | Some x \<Rightarrow>
           (case hash x of
              Inl e \<Rightarrow> Inl (ErrGeneric ''count distinct unable to hash value'')
            | Inr h \<Rightarrow> Inr (b[0 := BSeen (List.insert h seen)]))))"

definition CountDistinct :: "(val + row \<Rightarrow> sql_error + u64) \<Rightarrow> bool \<Rightarrow> expr \<Rightarrow> aggregation" where
  "CountDistinct hash star child = \<lparr>
     NewBuffer = [BSeen []],
     Update = count_distinct_update hash star child,
     Merge = (\<lambda>b p. in_place b (bindE (buf_seen b 0) (\<lambda>s. bindE (buf_seen p 0) (\<lambda>t. Inr (b[0 := BSeen (fold List.insert t s)]))))),
     EvalBuf = (\<lambda>b. bindE (buf_seen b 0) (\<lambda>s. Inr (VInt64 (word_of_nat (length s)))))\<rparr>"

section \<open>SUM and AVG\<close>

text \<open>The argument as a float, zero if it cannot be converted.\<close>

definition float_or_zero :: "castlib \<Rightarrow> val \<Rightarrow> 64 word" where
  "float_or_zero L v = (case NumberConvert L QFloat64 v of Inr (VFloat64 x) \<Rightarrow> x | _ \<Rightarrow> 0)"

definition sum_update :: "castlib \<Rightarrow> expr \<Rightarrow> buffer \<Rightarrow> row \<Rightarrow> buffer \<times> sql_error option" where
  "sum_update L child b row = in_place b (
     bindE (child row) (\<lambda>v.
       if v = VNil then Inr b
       else bindE (buf_val b 0) (\<lambda>old.
         let b' = (if old = VNil then b[0 := BVal (VFloat64 0)] else b) in
         bindE (buf_float64 b' 0) (\<lambda>s. Inr (b'[0 := BVal (VFloat64 (f64_add s (float_or_zero L v)))])))))"

definition Sum_agg :: "castlib \<Rightarrow> expr \<Rightarrow> aggregation" where
  "Sum_agg L child = \<lparr>
     NewBuffer = [BVal VNil],
     Update = sum_update L child,
     Merge = (\<lambda>b p. sum_update L child b (as_row p)),
     EvalBuf = (\<lambda>b. buf_val b 0)\<rparr>"

text \<open>The buffer of AVG: the sum, the number of rows, and whether there was a NULL.\<close>

definition avg_update :: "castlib \<Rightarrow> expr \<Rightarrow> buffer \<Rightarrow> row \<Rightarrow> buffer \<times> sql_error option" where
  "avg_update L child b row = in_place b (
     bindE (buf_bool b 2) (\<lambda>nulls.
       if nulls then Inr b
       else bindE (child row) (\<lambda>v.
         if v = VNil then Inr (b[2 := BVal (VBool True)])
         else bindE (buf_float64 b 0) (\<lambda>s. bindE (buf_int64 b 1) (\<lambda>n.
           Inr (b[0 := BVal (VFloat64 (f64_add s (float_or_zero L v))), 1 := BVal (VInt64 (n + 1))]))))))"

text \<open>\<^verbatim>\<open>pnulls := buffer[2].(bool)\<close> reads its own flag again, not that of the other buffer.\<close>

definition avg_merge :: "buffer \<Rightarrow> buffer \<Rightarrow> buffer \<times> sql_error option" where
  "avg_merge b p = in_place b (
     bindE (buf_float64 b 0) (\<lambda>bsum. bindE (buf_int64 b 1) (\<lambda>brows. bindE (buf_bool b 2) (\<lambda>bnulls.
     bindE (buf_float64 p 0) (\<lambda>psum. bindE (buf_int64 p 1) (\<lambda>prows. bindE (buf_bool b 2) (\<lambda>pnulls.
       Inr (b[0 := BVal (VFloat64 (f64_add bsum psum)), 1 := BVal (VInt64 (brows + prows)), 2 := BVal (VBool (bnulls \<or> pnulls))]))))))))"

definition avg_eval :: "buffer \<Rightarrow> sql_error + val" where
  "avg_eval b = bindE (buf_bool b 2) (\<lambda>nulls.
     if nulls then Inr VNil
     else bindE (buf_float64 b 0) (\<lambda>s. bindE (buf_int64 b 1) (\<lambda>n.
       if n = 0 then Inr (VFloat64 0) else Inr (VFloat64 (f64_div s (f64_of_int (sint n)))))))"

definition Avg :: "castlib \<Rightarrow> expr \<Rightarrow> aggregation" where
  "Avg L child = \<lparr>
     NewBuffer = [BVal (VFloat64 0), BVal (VInt64 0), BVal (VBool False)],
     Update = avg_update L child, Merge = avg_merge, EvalBuf = avg_eval\<rparr>"

section \<open>MIN and MAX\<close>

text \<open>\<open>cmp\<close> is the method \<^verbatim>\<open>Compare\<close> of the argument's type; \<open>win\<close> is the result with which the new value replaces the old one.\<close>

definition extremum_update ::
    "int \<Rightarrow> (val \<Rightarrow> val \<Rightarrow> sql_error + int) \<Rightarrow> expr \<Rightarrow> buffer \<Rightarrow> row \<Rightarrow> buffer \<times> sql_error option" where
  "extremum_update win cmp child b row =
     (case child row of
        Inl e \<Rightarrow> (b, Some e)
      | Inr v \<Rightarrow>
          if v = VNil then (b, None)
          else (case buf_val b 0 of
             Inl e \<Rightarrow> (b, Some e)
           | Inr old \<Rightarrow>
               (let b' = (if old = VNil then b[0 := BVal v] else b); new = (if old = VNil then v else old) in
                case cmp v new of
                  Inl e \<Rightarrow> (b', Some e)
                | Inr c \<Rightarrow> (if c = win then b'[0 := BVal v] else b', None))))"

definition Min_agg :: "(val \<Rightarrow> val \<Rightarrow> sql_error + int) \<Rightarrow> expr \<Rightarrow> aggregation" where
  "Min_agg cmp child = \<lparr>
     NewBuffer = [BVal VNil],
     Update = extremum_update (-1) cmp child,
     Merge = (\<lambda>b p. extremum_update (-1) cmp child b (as_row p)),
     EvalBuf = (\<lambda>b. buf_val b 0)\<rparr>"

definition Max_agg :: "(val \<Rightarrow> val \<Rightarrow> sql_error + int) \<Rightarrow> expr \<Rightarrow> aggregation" where
  "Max_agg cmp child = \<lparr>
     NewBuffer = [BVal VNil],
     Update = extremum_update 1 cmp child,
     Merge = (\<lambda>b p. extremum_update 1 cmp child b (as_row p)),
     EvalBuf = (\<lambda>b. buf_val b 0)\<rparr>"

section \<open>FIRST and LAST\<close>

definition first_update :: "expr \<Rightarrow> buffer \<Rightarrow> row \<Rightarrow> buffer \<times> sql_error option" where
  "first_update child b row = in_place b (
     bindE (buf_val b 0) (\<lambda>old.
       if old \<noteq> VNil then Inr b
       else bindE (child row) (\<lambda>v. if v = VNil then Inr b else Inr (b[0 := BVal v]))))"

definition First :: "expr \<Rightarrow> aggregation" where
  "First child = \<lparr>NewBuffer = [BVal VNil], Update = first_update child, Merge = (\<lambda>b p. (b, None)), EvalBuf = (\<lambda>b. buf_val b 0)\<rparr>"

definition last_update :: "expr \<Rightarrow> buffer \<Rightarrow> row \<Rightarrow> buffer \<times> sql_error option" where
  "last_update child b row = in_place b (
     bindE (child row) (\<lambda>v. if v = VNil then Inr b
       else if b = [] then Inl (Panic ''index out of range'') else Inr (b[0 := BVal v])))"

definition Last :: "expr \<Rightarrow> aggregation" where
  "Last child = \<lparr>NewBuffer = [BVal VNil], Update = last_update child,
     Merge = (\<lambda>b p. if b = [] \<or> p = [] then (b, Some (Panic ''index out of range'')) else (b[0 := p ! 0], None)),
     EvalBuf = (\<lambda>b. buf_val b 0)\<rparr>"

section \<open>Aggregating rows\<close>

text \<open>The updates of one aggregation with the rows of a list, as the node that groups makes them.\<close>

fun update_all :: "aggregation \<Rightarrow> buffer \<Rightarrow> row list \<Rightarrow> buffer \<times> sql_error option" where
  "update_all a b [] = (b, None)"
| "update_all a b (r # rs) =
     (case Update a b r of (b', Some e) \<Rightarrow> (b', Some e) | (b', None) \<Rightarrow> update_all a b' rs)"

definition aggregate :: "aggregation \<Rightarrow> row list \<Rightarrow> sql_error + val" where
  "aggregate a rs = (case update_all a (NewBuffer a) rs of (b, Some e) \<Rightarrow> Inl e | (b, None) \<Rightarrow> EvalBuf a b)"

text \<open>The values of an argument that are not NULL.\<close>

definition values_of :: "(row \<Rightarrow> val) \<Rightarrow> row list \<Rightarrow> val list" where
  "values_of f rs = filter (\<lambda>v. v \<noteq> VNil) (map f rs)"

lemmas buf_simps = buf_val_def buf_int64_def buf_float64_def buf_bool_def buf_seen_def in_place_def

lemma count_all:
  "update_all (Count star (\<lambda>r. Inr (f r))) [BVal (VInt64 n)] rs =
     ([BVal (VInt64 (n + word_of_nat (if star then length rs else length (values_of f rs))))], None)"
  by (induction rs arbitrary: n) (auto simp: Count_def count_update_def buf_simps values_of_def)

lemma aggregate_count:
  "aggregate (Count star (\<lambda>r. Inr (f r))) rs = Inr (VInt64 (word_of_nat (if star then length rs else length (values_of f rs))))"
proof -
  have "NewBuffer (Count star c) = [BVal (VInt64 0)]" "EvalBuf (Count star c) [BVal x] = Inr x" for c x
    by (simp_all add: Count_def buf_simps)
  then show ?thesis by (simp add: aggregate_def count_all)
qed

lemma count_distinct_all:
  assumes "\<And>v. v \<in> set (values_of f rs) \<Longrightarrow> hash (Inl v) = Inr (h v)" and "distinct s"
  shows "\<exists>s'. update_all (CountDistinct hash False (\<lambda>r. Inr (f r))) [BSeen s] rs = ([BSeen s'], None) \<and>
    distinct s' \<and> set s' = set s \<union> h ` set (values_of f rs)"
  using assms
proof (induction rs arbitrary: s)
  case (Cons r rs)
  show ?case
  proof (cases "f r = VNil")
    case True
    with Cons.IH [of s] Cons.prems show ?thesis
      by (auto simp: CountDistinct_def count_distinct_update_def buf_simps values_of_def)
  next
    case False
    from Cons.IH [of "List.insert (h (f r)) s"] Cons.prems False show ?thesis
      by (auto simp: CountDistinct_def count_distinct_update_def buf_simps values_of_def)
  qed
qed (auto simp: values_of_def)

lemma sum_all:
  "update_all (Sum_agg L (\<lambda>r. Inr (f r))) [BVal v] rs =
     ([BVal (if values_of f rs = [] then v
        else VFloat64 (foldl f64_add (case v of VFloat64 x \<Rightarrow> x | _ \<Rightarrow> 0) (map (float_or_zero L) (values_of f rs))))], None)"
  if "v = VNil \<or> (\<exists>x. v = VFloat64 x)"
  using that
proof (induction rs arbitrary: v)
  case (Cons r rs)
  then show ?case by (cases "f r = VNil") (auto simp: Sum_agg_def sum_update_def buf_simps values_of_def)
qed (simp add: values_of_def)

lemma first_all:
  "update_all (First (\<lambda>r. Inr (f r))) [BVal v] rs =
     ([BVal (if v \<noteq> VNil then v else case values_of f rs of [] \<Rightarrow> VNil | x # _ \<Rightarrow> x)], None)"
proof (induction rs arbitrary: v)
  case (Cons r rs)
  then show ?case by (cases "f r = VNil"; cases "v = VNil") (auto simp: First_def first_update_def buf_simps values_of_def)
qed (simp add: values_of_def)

lemma last_all:
  "update_all (Last (\<lambda>r. Inr (f r))) [BVal v] rs =
     ([BVal (if values_of f rs = [] then v else last (values_of f rs))], None)"
proof (induction rs arbitrary: v)
  case (Cons r rs)
  then show ?case by (cases "f r = VNil") (auto simp: Last_def last_update_def buf_simps values_of_def)
qed (simp add: values_of_def)

text \<open>MIN and MAX keep a value that no other beats, the first of them.\<close>

definition compares_keys :: "(val \<Rightarrow> val \<Rightarrow> sql_error + int) \<Rightarrow> (val \<Rightarrow> 'k :: linorder) \<Rightarrow> val set \<Rightarrow> bool" where
  "compares_keys cmp key S \<longleftrightarrow> (\<forall>x \<in> S. \<forall>y \<in> S. cmp x y = Inr (compare_by (key x) (key y)))"

lemma compares_keys_subset: "S \<subseteq> S' \<Longrightarrow> compares_keys cmp key S' \<Longrightarrow> compares_keys cmp key S"
  by (auto simp: compares_keys_def)

lemma extremum_all:
  assumes cmp: "compares_keys cmp key S"
    and "Update a = extremum_update win cmp (\<lambda>r. Inr (f r))" and "win \<noteq> 0"
    and beats: "\<And>x y. beats x y \<longleftrightarrow> compare_by (key x) (key y) = win"
    and "set (values_of f rs) \<subseteq> S" and "v = VNil \<or> v \<in> S"
  shows "update_all a [BVal v] rs =
    ([BVal (foldl (\<lambda>m x. if m = VNil \<or> beats x m then x else m) v (values_of f rs))], None)"
  using assms(5,6)
proof (induction rs arbitrary: v)
  case (Cons r rs)
  have refl: "compare_by (key x) (key x) = 0" for x by (simp add: compare_by_def)
  show ?case
  proof (cases "f r = VNil")
    case True
    with Cons assms(2) show ?thesis by (simp add: extremum_update_def buf_simps values_of_def)
  next
    case False
    then have vs: "values_of f (r # rs) = f r # values_of f rs" by (simp add: values_of_def)
    with Cons.prems have S: "f r \<in> S" "set (values_of f rs) \<subseteq> S" by simp_all
    let ?w = "if v = VNil \<or> beats (f r) v then f r else v"
    have "Update a [BVal v] r = ([BVal ?w], None)"
      using False assms(2,3) S(1) Cons.prems(2) cmp
      by (auto simp: extremum_update_def buf_simps compares_keys_def beats refl)
    moreover have "?w = VNil \<or> ?w \<in> S" using S(1) Cons.prems(2) by auto
    ultimately show ?thesis using Cons.IH [OF S(2), of ?w] by (simp add: vs)
  qed
qed (simp add: values_of_def)

lemma compare_by_cases:
  "compare_by a b = -1 \<longleftrightarrow> a < b" "compare_by a b = 1 \<longleftrightarrow> b < a" for a b :: "'k :: linorder"
  by (auto simp: compare_by_def)

lemma fold_best:
  assumes "VNil \<notin> set (v # vs)" and trans: "\<And>x y z. le x y \<Longrightarrow> le y z \<Longrightarrow> le x z" and total: "\<And>x y. le x y \<or> le y x"
  shows "foldl (\<lambda>m x. if m = VNil \<or> \<not> le m x then x else m) v vs \<in> set (v # vs) \<and>
    (\<forall>x \<in> set (v # vs). le (foldl (\<lambda>m x. if m = VNil \<or> \<not> le m x then x else m) v vs) x)"
  using assms(1)
proof (induction vs arbitrary: v)
  case Nil
  then show ?case using total by auto
next
  case (Cons w vs)
  then have "VNil \<notin> set (w # vs)" "VNil \<notin> set (v # vs)" by auto
  note w = Cons.IH [OF this(1)] and v = Cons.IH [OF this(2)]
  have "v \<noteq> VNil" using Cons.prems by auto
  show ?case
  proof (cases "le v w")
    case True
    with v trans [OF _ True] \<open>v \<noteq> VNil\<close> show ?thesis by auto
  next
    case False
    then have "le w v" using total by blast
    with w trans [OF _ this] False show ?thesis by auto
  qed
qed

lemma values_of_VNil [simp]: "VNil \<notin> set (values_of f rs)"
  by (simp add: values_of_def)

lemma aggregate_min:
  assumes "compares_keys cmp key (set (values_of f rs))"
  shows "\<exists>m. aggregate (Min_agg cmp (\<lambda>r. Inr (f r))) rs = Inr m \<and>
    (if values_of f rs = [] then m = VNil else m \<in> set (values_of f rs) \<and> (\<forall>x \<in> set (values_of f rs). key m \<le> key x))"
proof -
  have "update_all (Min_agg cmp (\<lambda>r. Inr (f r))) [BVal VNil] rs =
      ([BVal (foldl (\<lambda>m x. if m = VNil \<or> key x < key m then x else m) VNil (values_of f rs))], None)"
    by (rule extremum_all [OF assms, where win = "-1"]) (auto simp: Min_agg_def compare_by_cases)
  moreover have "VNil \<notin> set (values_of f rs)" by simp
  ultimately show ?thesis using fold_best [of "hd (values_of f rs)" "tl (values_of f rs)" "\<lambda>x y. key x \<le> key y", OF _ order_trans linear]
    by (cases "values_of f rs") (auto simp: aggregate_def Min_agg_def buf_simps not_le)
qed

lemma aggregate_max:
  assumes "compares_keys cmp key (set (values_of f rs))"
  shows "\<exists>m. aggregate (Max_agg cmp (\<lambda>r. Inr (f r))) rs = Inr m \<and>
    (if values_of f rs = [] then m = VNil else m \<in> set (values_of f rs) \<and> (\<forall>x \<in> set (values_of f rs). key x \<le> key m))"
proof -
  have "update_all (Max_agg cmp (\<lambda>r. Inr (f r))) [BVal VNil] rs =
      ([BVal (foldl (\<lambda>m x. if m = VNil \<or> key m < key x then x else m) VNil (values_of f rs))], None)"
    by (rule extremum_all [OF assms, where win = "1"]) (auto simp: Max_agg_def compare_by_cases)
  moreover have "VNil \<notin> set (values_of f rs)" by simp
  ultimately show ?thesis using fold_best [of "hd (values_of f rs)" "tl (values_of f rs)" "\<lambda>x y. key y \<le> key x", OF _ _ linear] order_trans
    by (cases "values_of f rs") (auto simp: aggregate_def Max_agg_def buf_simps not_le)
qed

lemma avg_nulls: "update_all (Avg L child) [a, b, BVal (VBool True)] rs = ([a, b, BVal (VBool True)], None)"
  by (induction rs) (auto simp: Avg_def avg_update_def buf_simps)

lemma avg_all:
  "VNil \<notin> f ` set rs \<Longrightarrow> update_all (Avg L (\<lambda>r. Inr (f r))) [BVal (VFloat64 s), BVal (VInt64 n), BVal (VBool False)] rs =
     ([BVal (VFloat64 (foldl f64_add s (map (float_or_zero L \<circ> f) rs))), BVal (VInt64 (n + word_of_nat (length rs))), BVal (VBool False)], None)"
  by (induction rs arbitrary: s n) (auto simp: Avg_def avg_update_def buf_simps)

lemma avg_some_null:
  "VNil \<in> f ` set rs \<Longrightarrow> \<exists>a b. update_all (Avg L (\<lambda>r. Inr (f r))) [BVal (VFloat64 s), BVal (VInt64 n), BVal (VBool False)] rs =
     ([a, b, BVal (VBool True)], None)"
proof (induction rs arbitrary: s n)
  case (Cons r rs)
  show ?case
  proof (cases "f r = VNil")
    case True
    then show ?thesis using avg_nulls [of L "\<lambda>r. Inr (f r)"] by (simp add: avg_update_def buf_simps Avg_def)
  next
    case False
    with Cons.prems have "VNil \<in> f ` set rs" by auto
    from Cons.IH [OF this] False show ?thesis by (simp add: avg_update_def buf_simps Avg_def)
  qed
qed simp

section \<open>Properties\<close>

text \<open>AVG of rows without NULLs is the sum divided by their number, but one NULL makes it NULL, and over no rows it is 0.\<close>

lemma aggregate_avg:
  "aggregate (Avg L (\<lambda>r. Inr (f r))) rs = Inr
     (if VNil \<in> f ` set rs then VNil
      else if word_of_nat (length rs) = (0 :: i64) then VFloat64 0
      else VFloat64 (f64_div (foldl f64_add 0 (map (float_or_zero L \<circ> f) rs)) (f64_of_int (sint (word_of_nat (length rs) :: i64)))))"
proof (cases "VNil \<in> f ` set rs")
  case True
  then obtain a b where "update_all (Avg L (\<lambda>r. Inr (f r))) (NewBuffer (Avg L (\<lambda>r. Inr (f r)))) rs = ([a, b, BVal (VBool True)], None)"
    using avg_some_null [of f rs L 0 0] by (auto simp: Avg_def)
  with True show ?thesis by (simp add: aggregate_def) (simp add: Avg_def avg_eval_def buf_simps)
next
  case False
  with avg_all [of f rs L 0 0] show ?thesis by (simp add: aggregate_def) (simp add: Avg_def avg_eval_def buf_simps)
qed

lemma avg_merge_loses_null:
  "avg_merge [BVal (VFloat64 s), BVal (VInt64 n), BVal (VBool False)] [BVal (VFloat64 t), BVal (VInt64 k), BVal (VBool True)] =
     ([BVal (VFloat64 (f64_add s t)), BVal (VInt64 (n + k)), BVal (VBool False)], None)"
  by (simp add: avg_merge_def buf_simps)

text \<open>An error of its argument is lost by COUNT(DISTINCT).\<close>

lemma count_distinct_swallows_errors:
  "update_all (CountDistinct hash False (\<lambda>r. Inl e)) [BSeen s] rs = ([BSeen s], None)"
  by (induction rs) (auto simp: CountDistinct_def count_distinct_update_def buf_simps)

text \<open>The values of an integer type are compared as the numbers that they stand for.\<close>

lemma compares_keys_int:
  assumes "cast_ok L"
  shows "compares_keys (NumberCompare L q) (\<lambda>v. the (val_int v)) (int_val q ` {n. in_range q n})"
  using NumberCompare_int [OF assms, of q] by (auto simp: compares_keys_def val_int_int_val)

text \<open>C16. What the aggregate functions compute for an argument that evaluates without an error, of rows \<open>rs\<close> with the values
  \<open>vs\<close> that are not NULL. COUNT(*) is the number of rows and COUNT the number of \<open>vs\<close>; COUNT(DISTINCT) is the number of
  different hashes of \<open>vs\<close>, if all of them can be hashed; MIN is one of \<open>vs\<close> that is least, MAX one that is greatest, in the
  order of the keys by which the type compares \<open>vs\<close>; SUM is the floating point sum of \<open>vs\<close> in the order of the rows, where
  a value that does not convert to a float adds 0; FIRST and LAST are the first and the last of \<open>vs\<close>. Without values
  the counts are 0 and the others NULL. The counts are 64 bits wide.\<close>

theorem aggregate_values:
  assumes vs_def: "vs = values_of f rs"
    and "compares_keys cmp key (set vs)" and "\<forall>v \<in> set vs. hash (Inl v) = Inr (h v)"
  shows "aggregate (Count True (\<lambda>r. Inr (f r))) rs = Inr (VInt64 (word_of_nat (length rs))) \<and>
    aggregate (Count False (\<lambda>r. Inr (f r))) rs = Inr (VInt64 (word_of_nat (length vs))) \<and>
    aggregate (CountDistinct hash False (\<lambda>r. Inr (f r))) rs = Inr (VInt64 (word_of_nat (card (h ` set vs)))) \<and>
    (\<exists>m. aggregate (Min_agg cmp (\<lambda>r. Inr (f r))) rs = Inr m \<and>
      (if vs = [] then m = VNil else m \<in> set vs \<and> (\<forall>x \<in> set vs. key m \<le> key x))) \<and>
    (\<exists>m. aggregate (Max_agg cmp (\<lambda>r. Inr (f r))) rs = Inr m \<and>
      (if vs = [] then m = VNil else m \<in> set vs \<and> (\<forall>x \<in> set vs. key x \<le> key m))) \<and>
    aggregate (Sum_agg L (\<lambda>r. Inr (f r))) rs = Inr (if vs = [] then VNil else VFloat64 (foldl f64_add 0 (map (float_or_zero L) vs))) \<and>
    aggregate (First (\<lambda>r. Inr (f r))) rs = Inr (if vs = [] then VNil else hd vs) \<and>
    aggregate (Last (\<lambda>r. Inr (f r))) rs = Inr (if vs = [] then VNil else last vs)"
proof -
  have new: "NewBuffer (Count s c) = [BVal (VInt64 0)]" "NewBuffer (Sum_agg L c) = [BVal VNil]" "NewBuffer (First c) = [BVal VNil]"
    "NewBuffer (Last c) = [BVal VNil]" "NewBuffer (CountDistinct hash s c) = [BSeen []]" for s c
    by (simp_all add: Count_def Sum_agg_def First_def Last_def CountDistinct_def)
  have eval: "EvalBuf (Count s c) [BVal x] = Inr x" "EvalBuf (Sum_agg L c) [BVal x] = Inr x" "EvalBuf (First c) [BVal x] = Inr x"
    "EvalBuf (Last c) [BVal x] = Inr x" "EvalBuf (CountDistinct hash s c) [BSeen t] = Inr (VInt64 (word_of_nat (length t)))" for s c x t
    by (simp_all add: Count_def Sum_agg_def First_def Last_def CountDistinct_def buf_simps)
  obtain s' where s': "update_all (CountDistinct hash False (\<lambda>r. Inr (f r))) [BSeen []] rs = ([BSeen s'], None)"
    "distinct s'" "set s' = h ` set vs"
    using count_distinct_all [of f rs hash h "[]"] assms(3) by (auto simp: vs_def)
  then have len: "length s' = card (h ` set vs)" by (metis distinct_card)
  show ?thesis unfolding vs_def
    by (intro conjI aggregate_min aggregate_max assms(2) [unfolded vs_def])
      (simp_all add: aggregate_def new eval count_all s' len [unfolded vs_def] sum_all first_all last_all split: list.splits)
qed

text \<open>A cast library that also turns integers into floats.\<close>

definition float_cast :: castlib where
  "float_cast = int_cast\<lparr>ToFloat64E :=
     (\<lambda>v. case val_int v of Some n \<Rightarrow> Inr (f64_of_int n) | None \<Rightarrow> Inl (ErrGeneric ''unable to cast''))\<rparr>"

theorem aggregate_values_witness:
  "(let rs = [[VInt64 3], [VNil], [VInt64 1], [VInt64 3]]; c = (\<lambda>r. Inr (r ! 0)) in
    aggregate (Count True c) rs = Inr (VInt64 4) \<and> aggregate (Count False c) rs = Inr (VInt64 3) \<and>
    aggregate (CountDistinct (\<lambda>x. case x of Inl (VInt64 w) \<Rightarrow> Inr w | _ \<Rightarrow> Inl ErrNoMemoryAvailable) False c) rs = Inr (VInt64 2) \<and>
    aggregate (Min_agg (NumberCompare float_cast QInt64) c) rs = Inr (VInt64 1) \<and>
    aggregate (Max_agg (NumberCompare float_cast QInt64) c) rs = Inr (VInt64 3) \<and>
    aggregate (Sum_agg float_cast c) rs =
      Inr (VFloat64 (f64_add (f64_add (f64_add 0 (f64_of_int 3)) (f64_of_int 1)) (f64_of_int 3))) \<and>
    aggregate (First c) rs = Inr (VInt64 3) \<and> aggregate (Last c) rs = Inr (VInt64 3))"
proof -
  let ?rs = "[[VInt64 3], [VNil], [VInt64 1], [VInt64 3]]" and ?vs = "[VInt64 3, VInt64 1, VInt64 3]"
  let ?hash = "\<lambda>x. case x of Inl (VInt64 w) \<Rightarrow> Inr w | _ \<Rightarrow> Inl ErrNoMemoryAvailable"
  let ?h = "\<lambda>v. case v of VInt64 w \<Rightarrow> w | _ \<Rightarrow> 0"
  have vs: "?vs = values_of (\<lambda>r. r ! 0) ?rs" by (simp add: values_of_def)
  have L: "cast_ok float_cast" by (simp add: cast_ok_def float_cast_def int_cast_def)
  have "set ?vs \<subseteq> int_val QInt64 ` {n. in_range QInt64 n}"
    using image_eqI [of "VInt64 3" "int_val QInt64" 3 "{n. in_range QInt64 n}"]
      image_eqI [of "VInt64 1" "int_val QInt64" 1 "{n. in_range QInt64 n}"]
    by (simp add: int_val_def in_range_def int_range_def)
  with compares_keys_int [OF L, of QInt64]
  have c: "compares_keys (NumberCompare float_cast QInt64) (\<lambda>v. the (val_int v)) (set ?vs)"
    using compares_keys_subset by blast
  have h: "\<forall>v \<in> set ?vs. ?hash (Inl v) = Inr (?h v)" by auto
  have sum: "float_or_zero float_cast (VInt64 3) = f64_of_int 3" "float_or_zero float_cast (VInt64 1) = f64_of_int 1"
    by (simp_all add: float_or_zero_def float_cast_def NumberConvert_def time_seconds_def decimal_int_def val_int_def)
  have key: "the (val_int (VInt64 3)) = 3" "the (val_int (VInt64 1)) = 1" by (simp_all add: val_int_def)
  have "?h ` set ?vs = {3, 1}" by auto
  then have card: "card (?h ` set ?vs) = 2" by simp
  note agg = aggregate_values [where hash = ?hash and h = ?h and L = float_cast, OF vs c h, simplified list.distinct if_False]
  from agg obtain mi where
    mi: "aggregate (Min_agg (NumberCompare float_cast QInt64) (\<lambda>r. Inr (r ! 0))) ?rs = Inr mi"
      "mi \<in> set ?vs" "\<forall>x \<in> set ?vs. the (val_int mi) \<le> the (val_int x)" by (elim conjE exE)
  from agg obtain ma where
    ma: "aggregate (Max_agg (NumberCompare float_cast QInt64) (\<lambda>r. Inr (r ! 0))) ?rs = Inr ma"
      "ma \<in> set ?vs" "\<forall>x \<in> set ?vs. the (val_int x) \<le> the (val_int ma)" by (elim conjE exE)
  from mi(2,3) ma(2,3) have "mi = VInt64 1" "ma = VInt64 3" using key by auto
  with mi(1) ma(1) have mm: "aggregate (Min_agg (NumberCompare float_cast QInt64) (\<lambda>r. Inr (r ! 0))) ?rs = Inr (VInt64 1)"
    "aggregate (Max_agg (NumberCompare float_cast QInt64) (\<lambda>r. Inr (r ! 0))) ?rs = Inr (VInt64 3)" by simp_all
  from agg [THEN conjunct1] agg [THEN conjunct2, THEN conjunct1] agg [THEN conjunct2, THEN conjunct2, THEN conjunct1] card
    agg [THEN conjunct2, THEN conjunct2, THEN conjunct2, THEN conjunct2, THEN conjunct2] mm sum
  show ?thesis unfolding Let_def by simp
qed

end
