(* ===== verification/Group_By.thy ===== *)
theory Group_By
  imports Aggregations Query_Plans Read_Loop
begin

text \<open>
  GROUP BY (\<^verbatim>\<open>sql/plan/group_by.go\<close>): the two iterators of the node, one for a single group and one that keeps the
  buffers of each group in a history cache of the memory manager, under a hash of the grouping values.
\<close>

unbundle bit_operations_syntax

section \<open>Selected expressions\<close>

text \<open>What a group by selects: an aggregation, an expression with a name, or any other expression.\<close>

datatype sel_expr = SAgg aggregation | SAlias sel_expr | SExpr expr

fun fillBuffer :: "sel_expr \<Rightarrow> buffer" where
  "fillBuffer (SAgg a) = NewBuffer a"
| "fillBuffer (SAlias e) = fillBuffer e"
| "fillBuffer (SExpr e) = []"

text \<open>\<^verbatim>\<open>updateBuffer\<close> on the buffer of its index.\<close>

fun updateBuffer :: "sel_expr \<Rightarrow> buffer \<Rightarrow> row \<Rightarrow> buffer \<times> sql_error option" where
  "updateBuffer (SAgg a) b row = Update a b row"
| "updateBuffer (SAlias e) b row = updateBuffer e b row"
| "updateBuffer (SExpr e) b row = (case e row of Inl err \<Rightarrow> (b, Some err) | Inr v \<Rightarrow> ([BVal v], None))"

fun updateBuffers :: "sel_expr list \<Rightarrow> buffer list \<Rightarrow> row \<Rightarrow> buffer list \<times> sql_error option" where
  "updateBuffers (e # es) (b # bs) row =
     (case updateBuffer e b row of
        (b', Some err) \<Rightarrow> (b' # bs, Some err)
      | (b', None) \<Rightarrow> (case updateBuffers es bs row of (bs', r) \<Rightarrow> (b' # bs', r)))"
| "updateBuffers es bs row = (bs, None)"

fun evalBuffer :: "sel_expr \<Rightarrow> buffer \<Rightarrow> sql_error + val" where
  "evalBuffer (SAgg a) b = EvalBuf a b"
| "evalBuffer (SAlias e) b = evalBuffer e b"
| "evalBuffer (SExpr e) b = (if b = [] then Inr VNil else buf_val b 0)"

fun evalBuffers :: "sel_expr list \<Rightarrow> buffer list \<Rightarrow> sql_error + row" where
  "evalBuffers (e # es) (b # bs) = bindE (evalBuffer e b) (\<lambda>v. bindE (evalBuffers es bs) (\<lambda>vs. Inr (v # vs)))"
| "evalBuffers es bs = Inr []"

section \<open>The hash of a group\<close>

text \<open>\<^verbatim>\<open>crc64.Checksum\<close> with the table of the ISO polynomial.\<close>

definition crc_bit :: "u64 \<Rightarrow> u64" where
  "crc_bit c = (if c AND 1 = 1 then drop_bit 1 c XOR 0xD800000000000000 else drop_bit 1 c)"

definition crc_table :: "u64 \<Rightarrow> u64" where
  "crc_table i = (crc_bit ^^ 8) i"

definition crc64_Checksum :: "string \<Rightarrow> u64" where
  "crc64_Checksum s = NOT (foldl (\<lambda>crc v. crc_table ((crc XOR of_char v) AND 0xFF) XOR drop_bit 8 crc) (NOT 0) s)"

lemma crc_table_0: "crc_table 0 = 0"
  by (simp add: crc_table_def crc_bit_def eval_nat_numeral)

fun eval_all :: "expr list \<Rightarrow> row \<Rightarrow> sql_error + val list" where
  "eval_all [] row = Inr []"
| "eval_all (e # es) row = bindE (e row) (\<lambda>v. bindE (eval_all es row) (\<lambda>vs. Inr (v # vs)))"

text \<open>\<open>gofmt\<close> is the Go syntax of a value, \<^verbatim>\<open>fmt.Sprintf("%#v", v)\<close>.\<close>

definition groupingKey :: "(val \<Rightarrow> string) \<Rightarrow> expr list \<Rightarrow> row \<Rightarrow> sql_error + u64" where
  "groupingKey gofmt exprs row =
     bindE (eval_all exprs row) (\<lambda>vals. Inr (crc64_Checksum (Join (map gofmt vals) '','')))"

section \<open>One group\<close>

record 's groupByIter =
  gb_child :: 's
  gb_buf :: "buffer list"
  gb_done :: bool

definition newGroupByIter :: "'s \<Rightarrow> sel_expr list \<Rightarrow> 's groupByIter" where
  "newGroupByIter child sel = \<lparr>gb_child = child, gb_buf = replicate (length sel) [], gb_done = False\<rparr>"

definition update_step :: "sel_expr list \<Rightarrow> buffer list \<Rightarrow> row \<Rightarrow> (sql_error + unit) \<times> buffer list" where
  "update_step sel bs row = (case updateBuffers sel bs row of (bs', Some e) \<Rightarrow> (Inl e, bs') | (bs', None) \<Rightarrow> (Inr (), bs'))"

definition groupByIter_Next :: "('s, row) nextfun \<Rightarrow> sel_expr list \<Rightarrow> ('s groupByIter, row) nextfun" where
  "groupByIter_Next nxt sel i =
     (if gb_done i then Some (i, NEOF)
      else (case read_into nxt (update_step sel) (gb_child i) (map fillBuffer sel) of
         None \<Rightarrow> None
       | Some ((s', bs), Some e) \<Rightarrow> Some (i\<lparr>gb_child := s', gb_buf := bs, gb_done := True\<rparr>, NErr e)
       | Some ((s', bs), None) \<Rightarrow>
           Some (i\<lparr>gb_child := s', gb_buf := bs, gb_done := True\<rparr>,
             case evalBuffers sel bs of Inl e \<Rightarrow> NErr e | Inr r \<Rightarrow> NRow r)))"

section \<open>Many groups\<close>

text \<open>
  The cache holds slices of buffers, and the buffers of a group are updated in place: a write to the cache that is no
  \<^verbatim>\<open>Put\<close>.
\<close>

definition history_write :: "nat \<Rightarrow> u64 \<Rightarrow> 'v \<Rightarrow> ('l, 'v, 'r) MemoryManager \<Rightarrow> ('l, 'v, 'r) MemoryManager" where
  "history_write a k v m = (case cache_heap m ! a of
     HistoryCache (Some c) \<Rightarrow> m\<lparr>cache_heap := (cache_heap m)[a := HistoryCache (Some (AList.update k v c))]\<rparr>
   | _ \<Rightarrow> m)"

type_synonym 'l group_mem = "('l, buffer list, row) MemoryManager"

record ('s, 'l) groupByGroupingIter =
  gg_child :: 's
  gg_mem :: "'l group_mem"
  aggregations :: "(nat \<times> u64) option"
  gg_keys :: "u64 list"
  gg_pos :: nat

definition newGroupByGroupingIter :: "'s \<Rightarrow> 'l group_mem \<Rightarrow> ('s, 'l) groupByGroupingIter" where
  "newGroupByGroupingIter child m = \<lparr>gg_child = child, gg_mem = m, aggregations = None, gg_keys = [], gg_pos = 0\<rparr>"

text \<open>The body of the loop of \<^verbatim>\<open>compute\<close>, on the memory and the keys.\<close>

definition group_new :: "'l \<Rightarrow> Reporter \<Rightarrow> sel_expr list \<Rightarrow> nat \<Rightarrow> u64 \<Rightarrow> 'l group_mem \<times> u64 list
      \<Rightarrow> (sql_error + unit) \<times> 'l group_mem \<times> u64 list" where
  "group_new l rep sel a key st = (case st of (m, ks) \<Rightarrow>
     (case history_Get a key m of
        Inr _ \<Rightarrow> (Inr (), (m, ks))
      | Inl _ \<Rightarrow>
          (case history_Put l rep a key (map fillBuffer sel) m of
             (Inl e, m') \<Rightarrow> (Inl e, (m', ks))
           | (Inr _, m') \<Rightarrow> (Inr (), (m', ks @ [key])))))"

definition group_update :: "sel_expr list \<Rightarrow> nat \<Rightarrow> u64 \<Rightarrow> row \<Rightarrow> 'l group_mem \<times> u64 list
      \<Rightarrow> (sql_error + unit) \<times> 'l group_mem \<times> u64 list" where
  "group_update sel a key row st = (case st of (m, ks) \<Rightarrow>
     (case history_Get a key m of
        Inl e \<Rightarrow> (Inl e, (m, ks))
      | Inr bs \<Rightarrow>
          (case update_step sel bs row of (res, bs') \<Rightarrow> (res, (history_write a key bs' m, ks)))))"

definition group_step :: "'l \<Rightarrow> Reporter \<Rightarrow> (row \<Rightarrow> sql_error + u64) \<Rightarrow> sel_expr list \<Rightarrow> nat
      \<Rightarrow> 'l group_mem \<times> u64 list \<Rightarrow> row \<Rightarrow> (sql_error + unit) \<times> 'l group_mem \<times> u64 list" where
  "group_step l rep gkey sel a st row =
     (case gkey row of
        Inl e \<Rightarrow> (Inl e, st)
      | Inr key \<Rightarrow>
          (case group_new l rep sel a key st of
             (Inl e, st') \<Rightarrow> (Inl e, st')
           | (Inr _, st') \<Rightarrow> group_update sel a key row st'))"

definition group_deliver :: "sel_expr list \<Rightarrow> nat \<Rightarrow> ('s, 'l) groupByGroupingIter \<Rightarrow> ('s, 'l) groupByGroupingIter \<times> row nextres" where
  "group_deliver sel a i =
     (if gg_pos i \<ge> length (gg_keys i) then (i, NEOF)
      else (case history_Get a (gg_keys i ! gg_pos i) (gg_mem i) of
         Inl e \<Rightarrow> (i, NErr e)
       | Inr bs \<Rightarrow> (i\<lparr>gg_pos := gg_pos i + 1\<rparr>, case evalBuffers sel bs of Inl e \<Rightarrow> NErr e | Inr r \<Rightarrow> NRow r)))"

definition groupByGroupingIter_Next :: "'l \<Rightarrow> Reporter \<Rightarrow> ('s, row) nextfun \<Rightarrow> (row \<Rightarrow> sql_error + u64) \<Rightarrow> sel_expr list
      \<Rightarrow> (('s, 'l) groupByGroupingIter, row) nextfun" where
  "groupByGroupingIter_Next l rep nxt gkey sel i = (case aggregations i of
     Some c \<Rightarrow> Some (group_deliver sel (fst c) i)
   | None \<Rightarrow>
       (case NewHistoryCache (gg_mem i) of (c, m) \<Rightarrow>
          (case read_into nxt (group_step l rep gkey sel (fst c)) (gg_child i) (m, gg_keys i) of
             None \<Rightarrow> None
           | Some ((s', (m', ks)), Some e) \<Rightarrow>
               Some (i\<lparr>gg_child := s', gg_mem := m', aggregations := Some c, gg_keys := ks\<rparr>, NErr e)
           | Some ((s', (m', ks)), None) \<Rightarrow>
               Some (group_deliver sel (fst c) (i\<lparr>gg_child := s', gg_mem := m', aggregations := Some c, gg_keys := ks\<rparr>)))))"

text \<open>\<^verbatim>\<open>Close\<close> forgets the cache; it does not call the function that removes it from the memory manager.\<close>

definition groupByGroupingIter_Close ::
    "('s \<Rightarrow> 's \<times> sql_error option) \<Rightarrow> ('s, 'l) groupByGroupingIter \<Rightarrow> ('s, 'l) groupByGroupingIter \<times> sql_error option" where
  "groupByGroupingIter_Close close_child i =
     (case close_child (gg_child i) of (s, e) \<Rightarrow> (i\<lparr>aggregations := None, gg_child := s\<rparr>, e))"

definition groupByIter_Close :: "('s \<Rightarrow> 's \<times> sql_error option) \<Rightarrow> 's groupByIter \<Rightarrow> 's groupByIter \<times> sql_error option" where
  "groupByIter_Close close_child i = (case close_child (gb_child i) of (s, e) \<Rightarrow> (i\<lparr>gb_buf := [], gb_child := s\<rparr>, e))"

section \<open>The contracts\<close>

definition one_group_contents :: "sel_expr list \<Rightarrow> ('s \<Rightarrow> row todo) \<Rightarrow> 's groupByIter \<Rightarrow> row todo" where
  "one_group_contents sel contents i =
     (if gb_done i then ([], None)
      else (case contents (gb_child i) of (rs, e) \<Rightarrow>
         (case add_all (update_step sel) (map fillBuffer sel) rs of
            (bs, Some err) \<Rightarrow> ([], Some err)
          | (bs, None) \<Rightarrow>
              (case e of
                 Some err \<Rightarrow> ([], Some err)
               | None \<Rightarrow> (case evalBuffers sel bs of Inl err \<Rightarrow> ([], Some err) | Inr r \<Rightarrow> ([r], None))))))"

locale one_group_over = row_iter nxt contents good
  for nxt :: "('s, row) nextfun" and contents and good +
  fixes sel :: "sel_expr list"

sublocale one_group_over \<subseteq> grp1: row_iter "groupByIter_Next nxt sel" "one_group_contents sel contents"
    "\<lambda>i. gb_done i \<or> good (gb_child i)"
proof (rule row_iterI)
  fix i :: "'s groupByIter"
  assume gi: "gb_done i \<or> good (gb_child i)"
  show "keeps (groupByIter_Next nxt sel) (one_group_contents sel contents) (\<lambda>i. gb_done i \<or> good (gb_child i)) i"
  proof (cases "gb_done i")
    case True
    then show ?thesis by (simp add: keeps_def groupByIter_Next_def one_group_contents_def)
  next
    case False
    obtain rs e where rs: "contents (gb_child i) = (rs, e)" by fastforce
    obtain bs a where bs: "add_all (update_step sel) (map fillBuffer sel) rs = (bs, a)" by fastforce
    from read_into_contents [OF _ rs, of "update_step sel" "map fillBuffer sel"] gi False bs obtain s' where
      "read_into nxt (update_step sel) (gb_child i) (map fillBuffer sel) =
         Some ((s', bs), (case a of Some err \<Rightarrow> Some err | None \<Rightarrow> e))" by auto
    with False rs bs show ?thesis
      by (auto simp: keeps_def groupByIter_Next_def one_group_contents_def cons_row_def split: option.splits sum.splits)
  qed
qed

text \<open>The rows of the groups that a cache holds.\<close>

definition group_rows :: "sel_expr list \<Rightarrow> nat \<Rightarrow> 'l group_mem \<Rightarrow> u64 list \<Rightarrow> row todo" where
  "group_rows sel a m ks = map_rows (\<lambda>k. bindE (history_Get a k m) (evalBuffers sel)) ks None"

definition group_contents :: "'l \<Rightarrow> Reporter \<Rightarrow> (row \<Rightarrow> sql_error + u64) \<Rightarrow> sel_expr list \<Rightarrow> ('s \<Rightarrow> row todo)
      \<Rightarrow> ('s, 'l) groupByGroupingIter \<Rightarrow> row todo" where
  "group_contents l rep gkey sel contents i = (case aggregations i of
     Some c \<Rightarrow> group_rows sel (fst c) (gg_mem i) (drop (gg_pos i) (gg_keys i))
   | None \<Rightarrow>
       (case NewHistoryCache (gg_mem i) of (c, m) \<Rightarrow>
          (case contents (gg_child i) of (rs, e) \<Rightarrow>
             (case add_all (group_step l rep gkey sel (fst c)) (m, gg_keys i) rs of
                ((m', ks), Some err) \<Rightarrow> ([], Some err)
              | ((m', ks), None) \<Rightarrow>
                  (case e of
                     Some err \<Rightarrow> ([], Some err)
                   | None \<Rightarrow> group_rows sel (fst c) m' (drop (gg_pos i) ks))))))"

definition group_good :: "('s \<Rightarrow> bool) \<Rightarrow> ('s, 'l) groupByGroupingIter \<Rightarrow> bool" where
  "group_good good i \<longleftrightarrow> aggregations i = None \<longrightarrow> good (gg_child i)"

lemma group_deliver_keeps:
  assumes "aggregations i = Some c" and "nxt i0 = Some (group_deliver sel (fst c) i)"
    and "contents i0 = group_rows sel (fst c) (gg_mem i) (drop (gg_pos i) (gg_keys i))"
    and "\<And>j. aggregations j = Some c \<Longrightarrow> good j \<and> contents j = group_rows sel (fst c) (gg_mem j) (drop (gg_pos j) (gg_keys j))"
  shows "keeps nxt contents good i0"
proof (cases "gg_pos i \<ge> length (gg_keys i)")
  case True
  with assms(1-3) assms(4) [of i] show ?thesis by (simp add: keeps_def group_deliver_def group_rows_def)
next
  case False
  then have "drop (gg_pos i) (gg_keys i) = gg_keys i ! gg_pos i # drop (gg_pos i + 1) (gg_keys i)"
    by (simp add: Cons_nth_drop_Suc)
  with False assms(1-3) assms(4) [of "i\<lparr>gg_pos := gg_pos i + 1\<rparr>"] show ?thesis
    by (auto simp: keeps_def group_deliver_def group_rows_def split: sum.splits)
qed

locale group_over = row_iter nxt contents good
  for nxt :: "('s, row) nextfun" and contents and good +
  fixes l :: 'l and rep :: Reporter and gkey :: "row \<Rightarrow> sql_error + u64" and sel :: "sel_expr list"

sublocale group_over \<subseteq> grp: row_iter "groupByGroupingIter_Next l rep nxt gkey sel :: (('s, 'l) groupByGroupingIter, row) nextfun"
    "group_contents l rep gkey sel contents" "group_good good"
proof (rule row_iterI)
  fix i :: "('s, 'l) groupByGroupingIter"
  let ?nxt = "groupByGroupingIter_Next l rep nxt gkey sel :: (('s, 'l) groupByGroupingIter, row) nextfun"
  let ?con = "group_contents l rep gkey sel contents :: ('s, 'l) groupByGroupingIter \<Rightarrow> row todo"
  assume gi: "group_good good i"
  have delivered: "group_good good j \<and> ?con j = group_rows sel (fst c) (gg_mem j) (drop (gg_pos j) (gg_keys j))"
    if "aggregations j = Some c" for j :: "('s, 'l) groupByGroupingIter" and c
    using that by (simp add: group_good_def group_contents_def)
  show "keeps ?nxt ?con (group_good good) i"
  proof (cases "aggregations i")
    case (Some c)
    moreover have "?nxt i = Some (group_deliver sel (fst c) i)" using Some by (simp add: groupByGroupingIter_Next_def)
    ultimately show ?thesis using delivered [of _ c] by (intro group_deliver_keeps) auto
  next
    case None
    obtain c m where cm: "NewHistoryCache (gg_mem i) = (c, m)" by fastforce
    obtain rs e where rs: "contents (gg_child i) = (rs, e)" by fastforce
    let ?add = "group_step l rep gkey sel (fst c)"
    obtain m' ks a where m': "add_all ?add (m, gg_keys i) rs = ((m', ks), a)" by (metis surj_pair)
    from read_into_contents [OF _ rs, of ?add "(m, gg_keys i)"] gi None m' obtain s' where
      read: "read_into nxt ?add (gg_child i) (m, gg_keys i) = Some ((s', (m', ks)), (case a of Some err \<Rightarrow> Some err | None \<Rightarrow> e))"
      by (auto simp: group_good_def)
    show ?thesis
    proof (cases "a = None \<and> e = None")
      case True
      let ?i = "i\<lparr>gg_child := s', gg_mem := m', aggregations := Some c, gg_keys := ks\<rparr>"
      have "?nxt i = Some (group_deliver sel (fst c) ?i)"
        using None True cm read by (simp add: groupByGroupingIter_Next_def)
      moreover have "?con i = group_rows sel (fst c) (gg_mem ?i) (drop (gg_pos ?i) (gg_keys ?i))"
        using None True cm rs m' by (simp add: group_contents_def)
      ultimately show ?thesis using delivered [of _ c] by (intro group_deliver_keeps [of ?i]) auto
    next
      case False
      then show ?thesis using None cm rs m' read
        by (auto simp: keeps_def groupByGroupingIter_Next_def group_contents_def split: option.splits)
    qed
  qed
qed

section \<open>What the groups are\<close>

text \<open>The value of a selected expression for a group: an aggregation of its rows, or the value of the last row.\<close>

primrec sel_value :: "sel_expr \<Rightarrow> row list \<Rightarrow> sql_error + val" where
  "sel_value (SAgg a) rs = aggregate a rs"
| "sel_value (SAlias e) rs = sel_value e rs"
| "sel_value (SExpr f) rs = foldl (\<lambda>v r. bindE v (\<lambda>_. f r)) (Inr VNil) rs"

fun sel_all :: "sel_expr \<Rightarrow> buffer \<Rightarrow> row list \<Rightarrow> buffer \<times> sql_error option" where
  "sel_all e b [] = (b, None)"
| "sel_all e b (r # rs) =
     (case updateBuffer e b r of (b', Some err) \<Rightarrow> (b', Some err) | (b', None) \<Rightarrow> sel_all e b' rs)"

lemma sel_all_agg: "sel_all (SAgg a) b rs = update_all a b rs"
  by (induction rs arbitrary: b) (auto split: prod.splits option.splits)

lemma sel_all_alias: "sel_all (SAlias e) b rs = sel_all e b rs"
  by (induction rs arbitrary: b) (auto split: prod.splits option.splits)

lemma foldl_bindE_Inl: "foldl (\<lambda>v r. bindE v (\<lambda>_. f r)) (Inl e) rs = Inl e"
  by (induction rs) auto

lemma foldl_bindE_total: "foldl (\<lambda>v r. bindE v (\<lambda>_. Inr (f r))) (Inr w) rs = Inr (last (w # map f rs))"
  by (induction rs arbitrary: w) auto

lemma sel_all_expr:
  "foldl (\<lambda>v r. bindE v (\<lambda>_. f r)) (evalBuffer (SExpr f) b) rs = Inr w \<Longrightarrow>
   \<exists>b'. sel_all (SExpr f) b rs = (b', None) \<and> evalBuffer (SExpr f) b' = Inr w"
proof (induction rs arbitrary: b)
  case (Cons r rs)
  then obtain x where x: "evalBuffer (SExpr f) b = Inr x" by (cases "evalBuffer (SExpr f) b") (auto simp: foldl_bindE_Inl)
  with Cons.prems obtain y where y: "f r = Inr y" by (cases "f r") (auto simp: foldl_bindE_Inl)
  have "evalBuffer (SExpr f) [BVal y] = f r" using y by (simp add: buf_val_def)
  with Cons.IH [of "[BVal y]"] Cons.prems x y show ?case by simp
qed simp

lemma sel_value_buffer:
  "sel_value e rs = Inr w \<Longrightarrow> \<exists>b. sel_all e (fillBuffer e) rs = (b, None) \<and> evalBuffer e b = Inr w"
proof (induction e)
  case (SAgg a)
  then show ?case by (auto simp: sel_all_agg aggregate_def split: prod.splits option.splits)
next
  case (SAlias e)
  then show ?case by (simp add: sel_all_alias)
next
  case (SExpr f)
  then show ?case using sel_all_expr [of f "[]" rs w] by simp
qed

lemma updateBuffers_map2:
  assumes "length bs = length sel" and "\<And>e b. (e, b) \<in> set (zip sel bs) \<Longrightarrow> snd (updateBuffer e b r) = None"
  shows "updateBuffers sel bs r = (map2 (\<lambda>e b. fst (updateBuffer e b r)) sel bs, None)"
  using assms
proof (induction sel bs r rule: updateBuffers.induct)
  case (1 e es b bs row)
  from 1(3) [of e b] obtain b' where "updateBuffer e b row = (b', None)" by (cases "updateBuffer e b row") auto
  moreover from this 1 have "updateBuffers es bs row = (map2 (\<lambda>e b. fst (updateBuffer e b row)) es bs, None)" by auto
  ultimately show ?case by simp
qed auto

text \<open>The buffers of a group are those of its expressions, each on its own.\<close>

lemma group_buffers:
  assumes "\<And>e b. (e, b) \<in> set (zip sel bs) \<Longrightarrow> snd (sel_all e b rs) = None" and "length bs = length sel"
  shows "add_all (update_step sel) bs rs = (map2 (\<lambda>e b. fst (sel_all e b rs)) sel bs, None)"
  using assms
proof (induction rs arbitrary: bs)
  case Nil
  then show ?case by (auto intro: nth_equalityI)
next
  case (Cons r rs)
  have fst: "snd (updateBuffer e b r) = None \<and> sel_all e b (r # rs) = sel_all e (fst (updateBuffer e b r)) rs"
    if "(e, b) \<in> set (zip sel bs)" for e b
    using Cons.prems(1) [OF that] by (auto split: prod.splits option.splits)
  let ?bs = "map2 (\<lambda>e b. fst (updateBuffer e b r)) sel bs"
  have upd: "update_step sel bs r = (Inr (), ?bs)"
    using updateBuffers_map2 [OF Cons.prems(2)] fst by (simp add: update_step_def)
  have zip: "zip sel ?bs = map (\<lambda>(e, b). (e, fst (updateBuffer e b r))) (zip sel bs)"
    using Cons.prems(2) by (intro nth_equalityI) auto
  have "add_all (update_step sel) ?bs rs = (map2 (\<lambda>e b. fst (sel_all e b rs)) sel ?bs, None)"
    using Cons.prems fst by (intro Cons.IH) (auto simp: zip split: prod.splits)
  moreover have "map2 (\<lambda>e b. fst (sel_all e b rs)) sel ?bs = map2 (\<lambda>e b. fst (sel_all e b (r # rs))) sel bs"
    using fst by (auto simp: zip simp del: sel_all.simps)
  ultimately show ?case using upd by simp
qed

lemma evalBuffers_map:
  "(\<And>e. e \<in> set sel \<Longrightarrow> evalBuffer e (f e) = Inr (w e)) \<Longrightarrow> evalBuffers sel (map f sel) = Inr (map w sel)"
  by (induction sel) auto

definition group_fold :: "sel_expr list \<Rightarrow> row list \<Rightarrow> buffer list \<times> sql_error option" where
  "group_fold sel rs = add_all (update_step sel) (map fillBuffer sel) rs"

lemma group_value:
  assumes "\<And>e. e \<in> set sel \<Longrightarrow> sel_value e rs = Inr (w e)"
  shows "snd (group_fold sel rs) = None \<and> evalBuffers sel (fst (group_fold sel rs)) = Inr (map w sel)"
proof -
  have zip: "zip sel (map fillBuffer sel) = map (\<lambda>e. (e, fillBuffer e)) sel" by (intro nth_equalityI) auto
  have ok: "snd (sel_all e (fillBuffer e) rs) = None \<and> evalBuffer e (fst (sel_all e (fillBuffer e) rs)) = Inr (w e)"
    if "e \<in> set sel" for e
    using sel_value_buffer [OF assms [OF that]] by auto
  have "group_fold sel rs = (map (\<lambda>e. fst (sel_all e (fillBuffer e) rs)) sel, None)"
    unfolding group_fold_def using ok by (subst group_buffers) (auto simp: zip)
  with ok show ?thesis using evalBuffers_map [of sel "\<lambda>e. fst (sel_all e (fillBuffer e) rs)" w] by simp
qed

lemma group_fold_snoc:
  "snd (group_fold sel (rs @ [r])) = None \<Longrightarrow>
   update_step sel (fst (group_fold sel rs)) r = (Inr (), fst (group_fold sel (rs @ [r])))"
  unfolding group_fold_def add_all_append by (auto split: prod.splits option.splits sum.splits)

lemma group_fold_prefix: "snd (group_fold sel (rs @ rs')) = None \<Longrightarrow> snd (group_fold sel rs) = None"
  by (auto simp: group_fold_def add_all_append split: prod.splits option.splits)

section \<open>The cache of the groups\<close>

abbreviation (input) group_of :: "('r \<Rightarrow> 'k) \<Rightarrow> 'k \<Rightarrow> 'r list \<Rightarrow> 'r list" where
  "group_of key k rs \<equiv> filter (\<lambda>r. key r = k) rs"

definition groups_ok :: "nat \<Rightarrow> (row \<Rightarrow> u64) \<Rightarrow> sel_expr list \<Rightarrow> row list \<Rightarrow> 'l group_mem \<times> u64 list \<Rightarrow> bool" where
  "groups_ok a key sel rs st \<longleftrightarrow>
     is_history a (fst st) \<and> snd st = map key (first_by key {} rs) \<and>
     (\<forall>k. history_Get a k (fst st) =
        (if k \<in> key ` set rs then Inr (fst (group_fold sel (group_of key k rs))) else Inl (ErrKeyNotFound k)))"

lemma first_by_snoc:
  "first_by key K (rs @ [r]) = first_by key K rs @ (if key r \<in> K \<union> key ` set rs then [] else [r])"
  by (induction rs arbitrary: K) auto

lemma history_Get_write:
  assumes "is_history a m"
  shows "history_Get a k' (history_write a k v m) = (if k' = k then Inr v else history_Get a k' m) \<and>
    is_history a (history_write a k v m)"
  using assms by (auto simp: history_Get_def history_write_def is_history_def map_of_update)

lemma history_Put_unlimited:
  assumes "is_history a m" and "MaxMemory rep = 0"
  shows "history_Put l rep a k v m = (Inr (), history_write a k v m)"
  using assms by (auto simp: history_Put_def history_write_def is_history_def HasAvailableMemory_def)

lemma group_step_ok:
  assumes st: "groups_ok a key sel rs st" and key: "gkey r = Inr (key r)" and mem: "MaxMemory rep = 0"
    and agg: "snd (group_fold sel (group_of key (key r) (rs @ [r]))) = None"
  shows "\<exists>st'. group_step l rep gkey sel a st r = (Inr (), st') \<and> groups_ok a key sel (rs @ [r]) st'"
proof -
  obtain m ks where mk: "st = (m, ks)" by (cases st)
  define bs where "bs = fst (group_fold sel (group_of key (key r) rs))"
  define bs' where "bs' = fst (group_fold sel (group_of key (key r) (rs @ [r])))"
  have upd: "update_step sel bs r = (Inr (), bs')"
    using agg unfolding bs_def bs'_def by (simp add: group_fold_snoc)
  have hist: "is_history a m" and get: "history_Get a k m =
      (if k \<in> key ` set rs then Inr (fst (group_fold sel (group_of key k rs))) else Inl (ErrKeyNotFound k))" for k
    using st mk by (auto simp: groups_ok_def)
  have other: "group_of key k (rs @ [r]) = group_of key k rs" if "k \<noteq> key r" for k using that by simp
  define m' where "m' = (if key r \<in> key ` set rs then m else history_write a (key r) (map fillBuffer sel) m)"
  have bs_new: "bs = map fillBuffer sel" if "key r \<notin> key ` set rs"
  proof -
    have "group_of key (key r) rs = []" using that by (auto simp: filter_empty_conv image_iff)
    then show ?thesis by (simp add: bs_def group_fold_def)
  qed
  have new: "group_new l rep sel a (key r) st = (Inr (), (m', map key (first_by key {} (rs @ [r]))))"
    using st mk get [of "key r"] history_Put_unlimited [OF hist mem]
    by (auto simp: group_new_def m'_def groups_ok_def first_by_snoc)
  have hist': "is_history a m'" and get_r: "history_Get a (key r) m' = Inr bs"
    and get': "k \<noteq> key r \<Longrightarrow> history_Get a k m' = history_Get a k m" for k
    using hist get [of "key r"] bs_new history_Get_write [OF hist] by (auto simp: m'_def bs_def)
  have "group_step l rep gkey sel a st r = (Inr (), (history_write a (key r) bs' m', map key (first_by key {} (rs @ [r]))))"
    using key new get_r upd by (simp add: group_step_def group_update_def)
  moreover have "groups_ok a key sel (rs @ [r]) (history_write a (key r) bs' m', map key (first_by key {} (rs @ [r])))"
    using history_Get_write [OF hist'] get' get other by (auto simp: groups_ok_def bs'_def)
  ultimately show ?thesis by blast
qed

lemma groups_all:
  assumes "groups_ok a key sel [] st" and "\<And>r. r \<in> set rs \<Longrightarrow> gkey r = Inr (key r)" and "MaxMemory rep = 0"
    and "\<And>r. r \<in> set rs \<Longrightarrow> snd (group_fold sel (group_of key (key r) rs)) = None"
  shows "\<exists>st'. add_all (group_step l rep gkey sel a) st rs = (st', None) \<and> groups_ok a key sel rs st'"
  using assms(2,4)
proof (induction rs rule: rev_induct)
  case Nil
  then show ?case using assms(1) by simp
next
  case (snoc r rs)
  have "snd (group_fold sel (group_of key (key x) rs)) = None" if "x \<in> set rs" for x
    using snoc.prems(2) [of x] that group_fold_prefix [of sel "group_of key (key x) rs" "group_of key (key x) [r]"]
    by (simp only: filter_append set_append Un_iff simp_thms)
  with snoc obtain st' where st': "add_all (group_step l rep gkey sel a) st rs = (st', None)" "groups_ok a key sel rs st'" by auto
  from group_step_ok [of a key sel rs st' gkey r rep l] st'(2) snoc.prems(1) [of r] assms(3) snoc.prems(2) [of r]
  obtain st'' where
    "group_step l rep gkey sel a st' r = (Inr (), st'')" "groups_ok a key sel (rs @ [r]) st''" by (auto simp del: filter_append)
  with st' show ?case by (simp add: add_all_append)
qed

section \<open>Properties\<close>

interpretation grp_s: group_over sliceRowIter_Next slice_contents "\<lambda>_. True" l rep gkey sel for l rep gkey sel ..

interpretation grp1_s: one_group_over sliceRowIter_Next slice_contents "\<lambda>_. True" sel for sel ..

text \<open>The first rows of the groups are the same by hash and by value, if the hash tells the values apart.\<close>

lemma first_by_inj:
  assumes "inj_on h (g ` set rs \<union> K)"
  shows "first_by (\<lambda>r. h (g r)) (h ` K) rs = first_by g K rs"
  using assms
proof (induction rs arbitrary: K)
  case (Cons r rs)
  have "h (g r) \<in> h ` K \<longleftrightarrow> g r \<in> K" using Cons.prems by (auto simp: inj_on_def)
  moreover have "inj_on h (g ` set rs \<union> K)" "inj_on h (g ` set rs \<union> insert (g r) K)"
    using Cons.prems by (auto elim: inj_on_subset)
  ultimately show ?case using Cons.IH [of K] Cons.IH [of "insert (g r) K"] by auto
qed simp

lemma map_rows_map: "map_rows f (map h xs) e = map_rows (\<lambda>x. f (h x)) xs e"
  by (induction xs) (auto split: sum.splits)

lemma eval_all_total: "eval_all (map (\<lambda>f r. Inr (f r)) fs) r = Inr (map (\<lambda>f. f r) fs)"
  by (induction fs) auto

lemma group_contents_rows:
  assumes "MaxMemory rep = 0" and "\<And>r. r \<in> set rs \<Longrightarrow> gkey r = Inr (key r)"
    and "\<And>e r. e \<in> set sel \<Longrightarrow> r \<in> set rs \<Longrightarrow> sel_value e (group_of key (key r) rs) = Inr (w e (group_of key (key r) rs))"
  shows "group_contents l rep gkey sel slice_contents (newGroupByGroupingIter (RowsToRowIter rs) m) =
    (map (\<lambda>r. map (\<lambda>e. w e (group_of key (key r) rs)) sel) (first_by key {} rs), None)"
proof -
  obtain c m1 where c: "NewHistoryCache m = (c, m1)" by fastforce
  then have "groups_ok (fst c) key sel [] (m1, [])"
    by (auto simp: NewHistoryCache_def new_cache_def addCache_def Let_def groups_ok_def is_history_def history_Get_def)
  from groups_all [OF this, of rs gkey rep l] assms(1,2) group_value [OF assms(3)] obtain m2 ks where
    add: "add_all (group_step l rep gkey sel (fst c)) (m1, []) rs = ((m2, ks), None)" and ok: "groups_ok (fst c) key sel rs (m2, ks)"
    by auto
  have "bindE (history_Get (fst c) (key r) m2) (evalBuffers sel) = Inr (map (\<lambda>e. w e (group_of key (key r) rs)) sel)"
    if "r \<in> set (first_by key {} rs)" for r
  proof -
    from that first_by_subset have r: "r \<in> set rs" by fast
    with ok have "history_Get (fst c) (key r) m2 = Inr (fst (group_fold sel (group_of key (key r) rs)))"
      by (simp add: groups_ok_def)
    with group_value [OF assms(3) [OF _ r]] show ?thesis by simp
  qed
  then have "map_rows (\<lambda>r. bindE (history_Get (fst c) (key r) m2) (evalBuffers sel)) (first_by key {} rs) None =
      (map (\<lambda>r. map (\<lambda>e. w e (group_of key (key r) rs)) sel) (first_by key {} rs), None)"
    by (intro map_rows_total)
  moreover have "ks = map key (first_by key {} rs)" using ok by (simp add: groups_ok_def)
  ultimately show ?thesis using c add
    by (simp add: group_contents_def newGroupByGroupingIter_def group_rows_def map_rows_map)
qed



end
