(* ===== verification/Table_Schema.thy ===== *)
theory Table_Schema
  imports Logic_Exprs
begin

text \<open>
  Columns, schemas and default values (\<^verbatim>\<open>sql/column.go\<close>, \<^verbatim>\<open>sql/schema.go\<close>, \<^verbatim>\<open>sql/columndefault.go\<close>). The methods of
  a type that columns use are the fields of a record.
\<close>

section \<open>Default values\<close>

record ColType =
  Convert :: "val \<Rightarrow> sql_error + val"
  TypeCompare :: "val \<Rightarrow> val \<Rightarrow> sql_error + int"

text \<open>
  An expression that may use columns: a \<^verbatim>\<open>GetField\<close> with its index and name, or any other expression, as the function that
  evaluates it from what its children evaluate to.
\<close>

datatype (plugins only: "code" "size") colexpr =
    GetField int string
  | Node "(sql_error + val) list \<Rightarrow> sql_error + val" "colexpr list"

fun colexpr_Eval :: "colexpr \<Rightarrow> expr" where
  "colexpr_Eval (GetField i name) row =
     (if i < 0 \<or> i \<ge> int (length row) then Inl (ErrNew ''ErrIndexOutOfBounds'' name) else Inr (row ! nat i))"
| "colexpr_Eval (Node f es) row = f (map (\<lambda>e. colexpr_Eval e row) es)"

text \<open>\<^verbatim>\<open>expression.TransformUp\<close> with the function that gives every \<^verbatim>\<open>GetField\<close> a new index.\<close>

fun with_indexes :: "(string \<Rightarrow> int) \<Rightarrow> colexpr \<Rightarrow> colexpr" where
  "with_indexes idx (GetField i name) = GetField (idx name) name"
| "with_indexes idx (Node f es) = Node f (map (with_indexes idx) es)"

record ColumnDefaultValue =
  DefExpression :: colexpr
  outType :: "ColType option"
  literal :: bool
  returnNil :: bool

definition checkType :: "ColumnDefaultValue \<Rightarrow> ColType option \<Rightarrow> sql_error + unit" where
  "checkType e out = (case out of
     None \<Rightarrow> Inr ()
   | Some t \<Rightarrow>
       if \<not> literal e then Inr ()
       else bindE (colexpr_Eval (DefExpression e) []) (\<lambda>v.
         if v = VNil \<and> \<not> returnNil e then Inl (ErrNew ''ErrIncompatibleDefaultType'' [])
         else (case Convert t v of Inl _ \<Rightarrow> Inl (ErrNew ''ErrIncompatibleDefaultType'' []) | Inr _ \<Rightarrow> Inr ())))"

definition NewColumnDefaultValue :: "colexpr \<Rightarrow> ColType option \<Rightarrow> bool \<Rightarrow> bool \<Rightarrow> sql_error + ColumnDefaultValue" where
  "NewColumnDefaultValue e out lit ret =
     (let d = \<lparr>DefExpression = e, outType = out, literal = lit, returnNil = ret\<rparr> in
      bindE (checkType d out) (\<lambda>_. Inr d))"

definition DefaultEval :: "ColumnDefaultValue option \<Rightarrow> expr" where
  "DefaultEval d row = (case d of
     None \<Rightarrow> Inr VNil
   | Some e \<Rightarrow>
       bindE (colexpr_Eval (DefExpression e) row) (\<lambda>v0.
       bindE (case outType e of None \<Rightarrow> Inr v0 | Some t \<Rightarrow> Convert t v0) (\<lambda>v.
         if v = VNil \<and> \<not> returnNil e then Inl (ErrNew ''ErrColumnDefaultReturnedNull'' []) else Inr v)))"

definition WithType :: "ColumnDefaultValue option \<Rightarrow> ColType option \<Rightarrow> sql_error + ColumnDefaultValue option" where
  "WithType d out = (case d of
     None \<Rightarrow> Inr None
   | Some e \<Rightarrow> bindE (checkType e out) (\<lambda>_.
       bindE (NewColumnDefaultValue (DefExpression e) out (literal e) (returnNil e)) (\<lambda>d'. Inr (Some d'))))"

text \<open>
  The default value with new indexes. A nil default stays as it is; a literal is checked again when its expression is
  replaced, and a failure ends in a failed type assertion.
\<close>

definition default_with_indexes :: "(string \<Rightarrow> int) \<Rightarrow> ColumnDefaultValue option \<Rightarrow> sql_error + ColumnDefaultValue option" where
  "default_with_indexes idx d = (case d of
     None \<Rightarrow> Inr None
   | Some e \<Rightarrow>
       (case NewColumnDefaultValue (with_indexes idx (DefExpression e)) (outType e) (literal e) (returnNil e) of
          Inl _ \<Rightarrow> Inl (Panic ''interface conversion'')
        | Inr d' \<Rightarrow> Inr (Some d')))"

section \<open>Columns and schemas\<close>

record Column =
  Name :: string
  ColumnType :: ColType
  Default :: "ColumnDefaultValue option"
  AutoIncrement :: bool
  Nullable :: bool
  Source :: string
  PrimaryKey :: bool
  Comment :: string
  Extra :: string

type_synonym Schema = "Column list"

definition Check :: "Column \<Rightarrow> val \<Rightarrow> bool" where
  "Check c v = (if v = VNil then Nullable c else (case Convert (ColumnType c) v of Inl _ \<Rightarrow> False | Inr _ \<Rightarrow> True))"

fun index_loop :: "string \<Rightarrow> string \<Rightarrow> Schema \<Rightarrow> int \<Rightarrow> int" where
  "index_loop column source [] i = - 1"
| "index_loop column source (c # cs) i =
     (if ToLower (Name c) = column \<and> ToLower (Source c) = source then i else index_loop column source cs (i + 1))"

definition IndexOf :: "Schema \<Rightarrow> string \<Rightarrow> string \<Rightarrow> int" where
  "IndexOf s column source = index_loop (ToLower column) (ToLower source) s 0"

definition Contains :: "Schema \<Rightarrow> string \<Rightarrow> string \<Rightarrow> bool" where
  "Contains s column source \<longleftrightarrow> IndexOf s column source \<ge> 0"

text \<open>
  \<^verbatim>\<open>Schema.CheckRow\<close>. The type of a NULL has no name: \<^verbatim>\<open>reflect.TypeOf(nil).String()\<close> is a nil dereference.
\<close>

fun check_values :: "Schema \<Rightarrow> row \<Rightarrow> nat \<Rightarrow> sql_error + unit" where
  "check_values (c # cs) (v # vs) i =
     (if Check c v then check_values cs vs (i + 1)
      else if v = VNil then Inl (Panic ''invalid memory address or nil pointer dereference'')
      else Inl (ErrNew ''ErrUnexpectedType'' []))"
| "check_values _ _ i = Inr ()"

definition CheckRow :: "Schema \<Rightarrow> row \<Rightarrow> sql_error + unit" where
  "CheckRow s row =
     (if length s \<noteq> length row then Inl (ErrUnexpectedRowLength (length s) (length row)) else check_values s row 0)"

section \<open>Lemmas\<close>

text \<open>The schema of a table: the names of its columns differ, and all columns come from the table.\<close>

definition schema_ok :: "string \<Rightarrow> Schema \<Rightarrow> bool" where
  "schema_ok tbl s \<longleftrightarrow> distinct (map (\<lambda>c. ToLower (Name c)) s) \<and> (\<forall>c \<in> set s. ToLower (Source c) = ToLower tbl)"

lemma index_loop_nth:
  "k < length cs \<Longrightarrow> distinct (map (\<lambda>c. ToLower (Name c)) cs) \<Longrightarrow> \<forall>c \<in> set cs. ToLower (Source c) = source \<Longrightarrow>
   ToLower (Name (cs ! k)) = name \<Longrightarrow> index_loop name source cs i = i + int k"
proof (induction cs arbitrary: i k)
  case (Cons c cs)
  then show ?case
  proof (cases k)
    case (Suc j)
    with Cons.prems have "ToLower (Name c) \<noteq> name" by auto
    with Cons Suc show ?thesis by simp
  qed auto
qed simp

lemma IndexOf_nth:
  "schema_ok tbl s \<Longrightarrow> k < length s \<Longrightarrow> ToLower (Name (s ! k)) = ToLower name \<Longrightarrow> IndexOf s name tbl = int k"
  unfolding IndexOf_def schema_ok_def using index_loop_nth [of k s "ToLower tbl" "ToLower name" 0] by simp

lemma index_loop_cases:
  "index_loop name source cs i = - 1 \<or>
   (\<exists>k < length cs. index_loop name source cs i = i + int k \<and> ToLower (Name (cs ! k)) = name \<and> ToLower (Source (cs ! k)) = source)"
proof (induction cs arbitrary: i)
  case (Cons c cs)
  show ?case
  proof (cases "ToLower (Name c) = name \<and> ToLower (Source c) = source")
    case True
    then show ?thesis by (intro disjI2 exI [of _ 0]) auto
  next
    case False
    then have eq: "index_loop name source (c # cs) i = index_loop name source cs (i + 1)" by auto
    from Cons [of "i + 1"] show ?thesis
    proof
      assume "\<exists>k < length cs. index_loop name source cs (i + 1) = i + 1 + int k \<and>
        ToLower (Name (cs ! k)) = name \<and> ToLower (Source (cs ! k)) = source"
      then obtain k where "k < length cs" "index_loop name source cs (i + 1) = i + 1 + int k"
        "ToLower (Name (cs ! k)) = name" "ToLower (Source (cs ! k)) = source" by blast
      with eq show ?thesis by (intro disjI2 exI [of _ "Suc k"]) auto
    qed (use eq in auto)
  qed
qed simp

end
