(* ===== verification/Memory_Table.thy ===== *)
theory Memory_Table
  imports Table_Schema "HOL-Library.Multiset" "HOL-Library.List_Lexorder" "HOL-Library.Char_ord"
begin

text \<open>
  Tables in memory (\<^verbatim>\<open>memory/table.go\<close>): their partitions of rows, the editor that inserts, deletes and updates rows, the
  operations of ALTER TABLE, foreign keys and the names of indexes.

  A loop \<^verbatim>\<open>for k, p := range t.partitions\<close> visits the partitions in an order that Go leaves open. The operations with such a
  loop take the order as an argument \<open>ord\<close>.
\<close>

section \<open>Tables\<close>

record ForeignKeyConstraint =
  fk_Name :: string
  fk_Columns :: "string list"
  ReferencedTable :: string
  ReferencedColumns :: "string list"
  OnUpdate :: string
  OnDelete :: string

text \<open>An index of a table: its expressions are columns of the table with their positions.\<close>

record TableIndex =
  ix_TableName :: string
  ix_Exprs :: "colexpr list"
  ix_Name :: string
  ix_Unique :: bool
  CommentStr :: string

record MemTable =
  tbl_name :: string
  tbl_schema :: Schema
  tbl_columns :: "nat list"
  tbl_indexes :: "(string, TableIndex) gomap"
  tbl_foreignKeys :: "ForeignKeyConstraint list"
  partitions :: "(string, row list) gomap"
  tbl_keys :: "string list"
  tbl_insert :: nat

definition NewPartitionedTable :: "string \<Rightarrow> Schema \<Rightarrow> int \<Rightarrow> MemTable" where
  "NewPartitionedTable name schema numPartitions =
     (let n = (if numPartitions < 1 then 1 else nat numPartitions); ks = map (\<lambda>i. Itoa i) [0..<n] in
      \<lparr>tbl_name = name, tbl_schema = schema, tbl_columns = [], tbl_indexes = [], tbl_foreignKeys = [],
       partitions = map (\<lambda>k. (k, [])) ks, tbl_keys = ks, tbl_insert = 0\<rparr>)"

definition NewTable :: "string \<Rightarrow> Schema \<Rightarrow> MemTable" where
  "NewTable name schema = NewPartitionedTable name schema 0"

definition Partitions :: "MemTable \<Rightarrow> string list" where
  "Partitions t = filter (\<lambda>k. case map_of (partitions t) k of Some rs \<Rightarrow> rs \<noteq> [] | None \<Rightarrow> False) (tbl_keys t)"

definition PartitionCount :: "MemTable \<Rightarrow> nat" where
  "PartitionCount t = length (partitions t)"

fun check_types :: "Schema \<Rightarrow> row \<Rightarrow> sql_error + unit" where
  "check_types (c # cs) (v # vs) = (if \<not> Check c v then Inl ErrInvalidType else check_types cs vs)"
| "check_types _ _ = Inr ()"

definition checkRow :: "Schema \<Rightarrow> row \<Rightarrow> sql_error + unit" where
  "checkRow schema row =
     (if length row \<noteq> length schema then Inl (ErrUnexpectedRowLength (length schema) (length row))
      else check_types schema row)"

definition getField :: "MemTable \<Rightarrow> string \<Rightarrow> int \<times> Column option" where
  "getField t col =
     (let i = IndexOf (tbl_schema t) col (tbl_name t) in
      if i = - 1 then (- 1, None)
      else if tbl_columns t = [] then (i, Some (tbl_schema t ! nat i))
      else (int (tbl_columns t ! nat i), Some (tbl_schema t ! nat i)))"

section \<open>The editor\<close>

text \<open>\<^verbatim>\<open>row[i]\<close>, which panics outside the row.\<close>

definition row_at :: "row \<Rightarrow> int \<Rightarrow> sql_error + val" where
  "row_at row i = (if i < 0 \<or> i \<ge> int (length row) then Inl (Panic ''index out of range'') else Inr (row ! nat i))"

fun columnsMatch :: "int list \<Rightarrow> row \<Rightarrow> row \<Rightarrow> sql_error + bool" where
  "columnsMatch [] row row2 = Inr True"
| "columnsMatch (i # is) row row2 =
     bindE (row_at row i) (\<lambda>v. bindE (row_at row2 i) (\<lambda>w. bindE (go_eq v w) (\<lambda>eq.
       if \<not> eq then Inr False else columnsMatch is row row2)))"

definition pkColumnIndexes :: "MemTable \<Rightarrow> int list" where
  "pkColumnIndexes t = map (\<lambda>c. fst (getField t (Name c))) (filter PrimaryKey (tbl_schema t))"

definition pkColsDiffer :: "MemTable \<Rightarrow> row \<Rightarrow> row \<Rightarrow> sql_error + bool" where
  "pkColsDiffer t row row2 = bindE (columnsMatch (pkColumnIndexes t) row row2) (\<lambda>b. Inr (\<not> b))"

definition partition_rows :: "MemTable \<Rightarrow> string \<Rightarrow> row list" where
  "partition_rows t k = (case map_of (partitions t) k of Some rs \<Rightarrow> rs | None \<Rightarrow> [])"

fun unique_loop :: "int list \<Rightarrow> row \<Rightarrow> row list \<Rightarrow> sql_error + unit" where
  "unique_loop pk row [] = Inr ()"
| "unique_loop pk row (p # ps) =
     bindE (columnsMatch pk p row) (\<lambda>b. if b then Inl (ErrUniqueKeyViolation pk) else unique_loop pk row ps)"

definition checkUniquenessConstraints :: "string list \<Rightarrow> MemTable \<Rightarrow> row \<Rightarrow> sql_error + unit" where
  "checkUniquenessConstraints ord t row =
     (let pk = pkColumnIndexes t in
      if pk \<noteq> [] then unique_loop pk row (concat (map (partition_rows t) ord)) else Inr ())"

definition editor_Insert :: "string list \<Rightarrow> MemTable \<Rightarrow> row \<Rightarrow> (sql_error + unit) \<times> MemTable" where
  "editor_Insert ord t row =
     (case bindE (checkRow (tbl_schema t) row) (\<lambda>_. checkUniquenessConstraints ord t row) of
        Inl e \<Rightarrow> (Inl e, t)
      | Inr _ \<Rightarrow>
          if tbl_insert t \<ge> length (tbl_keys t) then (Inl (Panic ''index out of range''), t)
          else
            (let key = tbl_keys t ! tbl_insert t; i = tbl_insert t + 1 in
             (Inr (), t\<lparr>tbl_insert := (if i = length (tbl_keys t) then 0 else i),
                        partitions := AList.update key (partition_rows t key @ [row]) (partitions t)\<rparr>)))"

text \<open>\<^verbatim>\<open>for rIndex, val := range row { if val != partitionRow[rIndex] ...\<close>\<close>

fun total_match :: "row \<Rightarrow> row \<Rightarrow> sql_error + bool" where
  "total_match [] prow = Inr True"
| "total_match (v # vs) [] = Inl (Panic ''index out of range'')"
| "total_match (v # vs) (w # ws) = bindE (go_eq v w) (\<lambda>eq. if \<not> eq then Inr False else total_match vs ws)"

text \<open>
  The two loops of \<^verbatim>\<open>Delete\<close> and of \<^verbatim>\<open>Update\<close>: the first row of a partition that \<open>hit\<close> accepts is replaced by \<open>repl\<close>,
  in the first partition that has one. \<open>pre\<close> are the rows before.
\<close>

fun row_loop :: "(row \<Rightarrow> sql_error + bool) \<Rightarrow> row list \<Rightarrow> row list \<Rightarrow> row list \<Rightarrow> sql_error + row list option" where
  "row_loop hit repl pre [] = Inr None"
| "row_loop hit repl pre (p # ps) =
     bindE (hit p) (\<lambda>b. if b then Inr (Some (pre @ repl @ ps)) else row_loop hit repl (pre @ [p]) ps)"

fun partition_loop :: "(row \<Rightarrow> sql_error + bool) \<Rightarrow> row list \<Rightarrow> MemTable \<Rightarrow> string list \<Rightarrow> sql_error + MemTable option" where
  "partition_loop hit repl t [] = Inr None"
| "partition_loop hit repl t (k # ks) =
     bindE (row_loop hit repl [] (partition_rows t k)) (\<lambda>res. case res of
       Some rs \<Rightarrow> Inr (Some (t\<lparr>partitions := AList.update k rs (partitions t)\<rparr>))
     | None \<Rightarrow> partition_loop hit repl t ks)"

definition delete_hit :: "int list \<Rightarrow> row \<Rightarrow> row \<Rightarrow> sql_error + bool" where
  "delete_hit pk row prow =
     bindE (if pk \<noteq> [] then columnsMatch pk prow row else Inr False) (\<lambda>b.
       if b then Inr True else total_match row prow)"

definition editor_Delete :: "string list \<Rightarrow> MemTable \<Rightarrow> row \<Rightarrow> (sql_error + unit) \<times> MemTable" where
  "editor_Delete ord t row =
     (case bindE (checkRow (tbl_schema t) row) (\<lambda>_. partition_loop (delete_hit (pkColumnIndexes t) row) [] t ord) of
        Inl e \<Rightarrow> (Inl e, t)
      | Inr None \<Rightarrow> (Inl ErrDeleteRowNotFound, t)
      | Inr (Some t') \<Rightarrow> (Inr (), t'))"

text \<open>Both loops of \<^verbatim>\<open>Update\<close> get one order: the outcome of the uniqueness check does not depend on it.\<close>

definition editor_Update :: "string list \<Rightarrow> MemTable \<Rightarrow> row \<Rightarrow> row \<Rightarrow> (sql_error + unit) \<times> MemTable" where
  "editor_Update ord t oldRow newRow =
     (case bindE (checkRow (tbl_schema t) oldRow) (\<lambda>_.
           bindE (checkRow (tbl_schema t) newRow) (\<lambda>_.
           bindE (pkColsDiffer t oldRow newRow) (\<lambda>differ.
           bindE (if differ then checkUniquenessConstraints ord t newRow else Inr ()) (\<lambda>_.
             partition_loop (total_match oldRow) [newRow] t ord)))) of
        Inl e \<Rightarrow> (Inl e, t)
      | Inr None \<Rightarrow> (Inr (), t)
      | Inr (Some t') \<Rightarrow> (Inr (), t'))"

section \<open>ALTER TABLE\<close>

record ColumnOrder =
  First_order :: bool
  AfterColumn :: string

text \<open>The new schema with the new column in its place, and that place. \<open>acc\<close> is the part of the new schema filled so far.\<close>

fun add_loop :: "ColumnOrder option \<Rightarrow> Column \<Rightarrow> nat \<Rightarrow> Schema \<Rightarrow> Schema \<Rightarrow> nat \<Rightarrow> Schema \<times> nat" where
  "add_loop order new n [] acc idx = (acc, idx)"
| "add_loop order new n (c # cs) acc idx =
     (let acc' = acc @ [c] in
      if (case order of Some o' \<Rightarrow> AfterColumn o' = Name c | None \<Rightarrow> length acc' = n)
      then add_loop order new n cs (acc' @ [new]) (length acc')
      else add_loop order new n cs acc' idx)"

text \<open>The default values of the other columns get the indexes of the new schema.\<close>

fun reindex_defaults :: "(string \<Rightarrow> int) \<Rightarrow> nat \<Rightarrow> nat \<Rightarrow> Schema \<Rightarrow> sql_error + Schema" where
  "reindex_defaults idx skip i [] = Inr []"
| "reindex_defaults idx skip i (c # cs) =
     bindE (if i = skip then Inr c else bindE (default_with_indexes idx (Default c)) (\<lambda>d. Inr (c\<lparr>Default := d\<rparr>))) (\<lambda>c'.
     bindE (reindex_defaults idx skip (i + 1) cs) (\<lambda>cs'. Inr (c' # cs')))"

text \<open>
  A new schema that is too long panics when it is filled. In one that is too short the last place is a nil column: its
  default is read at once, unless the table had no columns at all, which is left out here.
\<close>

definition addColumnToSchema :: "MemTable \<Rightarrow> Column \<Rightarrow> ColumnOrder option \<Rightarrow> sql_error + (nat \<times> MemTable)" where
  "addColumnToSchema t newCol order =
     (let new = newCol\<lparr>Source := tbl_name t\<rparr>;
          start = (case order of Some o' \<Rightarrow> if First_order o' then [new] else [] | None \<Rightarrow> []);
          (newSch, newColIdx) = add_loop order new (length (tbl_schema t)) (tbl_schema t) start 0 in
      if length newSch > length (tbl_schema t) + 1 then Inl (Panic ''index out of range'')
      else if length newSch < length (tbl_schema t) + 1 then Inl (Panic ''invalid memory address or nil pointer dereference'')
      else bindE (reindex_defaults (\<lambda>name. IndexOf newSch name (tbl_name t)) newColIdx 0 newSch) (\<lambda>sch.
        Inr (newColIdx, t\<lparr>tbl_schema := sch\<rparr>)))"

text \<open>A loop over the rows of all partitions that replaces each partition when all of its rows are done.\<close>

fun map_result :: "('a \<Rightarrow> sql_error + 'b) \<Rightarrow> 'a list \<Rightarrow> sql_error + 'b list" where
  "map_result f [] = Inr []"
| "map_result f (x # xs) = bindE (f x) (\<lambda>y. bindE (map_result f xs) (\<lambda>ys. Inr (y # ys)))"

fun rewrite_partitions :: "(row \<Rightarrow> sql_error + row) \<Rightarrow> string list \<Rightarrow> MemTable \<Rightarrow> (sql_error + unit) \<times> MemTable" where
  "rewrite_partitions f [] t = (Inr (), t)"
| "rewrite_partitions f (k # ks) t =
     (case map_result f (partition_rows t k) of
        Inl e \<Rightarrow> (Inl e, t)
      | Inr rs \<Rightarrow> rewrite_partitions f ks (t\<lparr>partitions := AList.update k rs (partitions t)\<rparr>))"

definition insert_value :: "nat \<Rightarrow> ColumnDefaultValue option \<Rightarrow> row \<Rightarrow> sql_error + row" where
  "insert_value idx colDefault row =
     (if idx > length row then Inl (Panic ''slice bounds out of range'')
      else let newRow = take idx row @ [VNil] @ drop idx row in
        bindE (DefaultEval colDefault newRow) (\<lambda>v. Inr (newRow[idx := v])))"

definition AddColumn :: "string list \<Rightarrow> MemTable \<Rightarrow> Column \<Rightarrow> ColumnOrder option \<Rightarrow> (sql_error + unit) \<times> MemTable" where
  "AddColumn ord t column order = (case addColumnToSchema t column order of
     Inl e \<Rightarrow> (Inl e, t)
   | Inr (idx, t') \<Rightarrow> rewrite_partitions (insert_value idx (Default column)) ord t')"

fun drop_loop :: "string \<Rightarrow> Schema \<Rightarrow> Schema \<Rightarrow> int \<Rightarrow> Schema \<times> int" where
  "drop_loop name [] acc dropped = (acc, dropped)"
| "drop_loop name (c # cs) acc dropped =
     (if Name c \<noteq> name then drop_loop name cs (acc @ [c]) dropped else drop_loop name cs acc (int (length acc)))"

text \<open>The new schema has one place less: without the column it panics.\<close>

definition dropColumnFromSchema :: "MemTable \<Rightarrow> string \<Rightarrow> sql_error + (int \<times> MemTable)" where
  "dropColumnFromSchema t name = (case drop_loop name (tbl_schema t) [] (- 1) of (newSch, dropped) \<Rightarrow>
     if length newSch + 1 > length (tbl_schema t) then Inl (Panic ''index out of range'')
     else Inr (dropped, t\<lparr>tbl_schema := newSch\<rparr>))"

definition drop_value :: "int \<Rightarrow> row \<Rightarrow> sql_error + row" where
  "drop_value i row =
     (if i < 0 \<or> i \<ge> int (length row) then Inl (Panic ''slice bounds out of range'')
      else Inr (take (nat i) row @ drop (nat i + 1) row))"

definition DropColumn :: "string list \<Rightarrow> MemTable \<Rightarrow> string \<Rightarrow> (sql_error + unit) \<times> MemTable" where
  "DropColumn ord t name = (case dropColumnFromSchema t name of
     Inl e \<Rightarrow> (Inl e, t)
   | Inr (dropped, t') \<Rightarrow> rewrite_partitions (drop_value dropped) ord t')"

fun find_name :: "string \<Rightarrow> Schema \<Rightarrow> nat \<Rightarrow> nat option" where
  "find_name name [] i = None"
| "find_name name (c # cs) i = (if Name c = name then Some i else find_name name cs (i + 1))"

definition modify_value :: "nat \<Rightarrow> nat \<Rightarrow> Column \<Rightarrow> row \<Rightarrow> sql_error + row" where
  "modify_value oldIdx newIdx column row =
     (if oldIdx \<ge> length row then Inl (Panic ''slice bounds out of range'')
      else let rest = take oldIdx row @ drop (oldIdx + 1) row in
        bindE (Convert (ColumnType column) (row ! oldIdx)) (\<lambda>v.
          if newIdx > length rest then Inl (Panic ''slice bounds out of range'')
          else Inr (take newIdx rest @ [v] @ drop newIdx rest)))"

text \<open>The place of the modified column: where it was, first, or after another column.\<close>

definition modify_place :: "Schema \<Rightarrow> nat \<Rightarrow> ColumnOrder option \<Rightarrow> nat \<times> ColumnOrder" where
  "modify_place schema oldIdx order = (case order of
     None \<Rightarrow>
       (oldIdx, if oldIdx = 0 then \<lparr>First_order = True, AfterColumn = []\<rparr>
                else \<lparr>First_order = False, AfterColumn = Name (schema ! (oldIdx - 1))\<rparr>)
   | Some o' \<Rightarrow>
       (if First_order o' then 0
        else (case find_name (AfterColumn o') (take oldIdx schema @ drop (oldIdx + 1) schema) 0 of
          Some i \<Rightarrow> i + 1 | None \<Rightarrow> 0), o'))"

definition ModifyColumn :: "string list \<Rightarrow> MemTable \<Rightarrow> string \<Rightarrow> Column \<Rightarrow> ColumnOrder option \<Rightarrow> (sql_error + unit) \<times> MemTable" where
  "ModifyColumn ord t name column order = (case find_name name (tbl_schema t) 0 of
     None \<Rightarrow> (Inl (Panic ''index out of range''), t)
   | Some oldIdx \<Rightarrow>
       (case modify_place (tbl_schema t) oldIdx order of (newIdx, order') \<Rightarrow>
          (case rewrite_partitions (modify_value oldIdx newIdx column) ord t of
             (Inl e, t1) \<Rightarrow> (Inl e, t1)
           | (Inr _, t1) \<Rightarrow>
               (case bindE (dropColumnFromSchema t1 name) (\<lambda>(_, t2). addColumnToSchema t2 column (Some order')) of
                  Inl e \<Rightarrow> (Inl e, t1)
                | Inr (_, t3) \<Rightarrow> (Inr (), t3)))))"

section \<open>Foreign keys and indexes\<close>

definition CreateForeignKey ::
    "MemTable \<Rightarrow> string \<Rightarrow> string list \<Rightarrow> string \<Rightarrow> string list \<Rightarrow> string \<Rightarrow> string \<Rightarrow> (sql_error + unit) \<times> MemTable" where
  "CreateForeignKey t fkName columns referencedTable referencedColumns onUpdate onDelete =
     (if list_ex (\<lambda>key. fk_Name key = fkName) (tbl_foreignKeys t)
      then (Inl (ErrGeneric (''Constraint '' @ fkName @ '' already exists'')), t)
      else (Inr (), t\<lparr>tbl_foreignKeys := tbl_foreignKeys t @
        [\<lparr>fk_Name = fkName, fk_Columns = columns, ReferencedTable = referencedTable, ReferencedColumns = referencedColumns,
          OnUpdate = onUpdate, OnDelete = onDelete\<rparr>]\<rparr>))"

fun remove_key :: "string \<Rightarrow> ForeignKeyConstraint list \<Rightarrow> ForeignKeyConstraint list" where
  "remove_key name [] = []"
| "remove_key name (k # ks) = (if fk_Name k = name then ks else k # remove_key name ks)"

definition DropForeignKey :: "MemTable \<Rightarrow> string \<Rightarrow> MemTable" where
  "DropForeignKey t fkName = t\<lparr>tbl_foreignKeys := remove_key fkName (tbl_foreignKeys t)\<rparr>"

text \<open>The columns of an index; a name that is not in the schema is a nil column, which panics.\<close>

fun field_exprs :: "MemTable \<Rightarrow> string list \<Rightarrow> sql_error + colexpr list" where
  "field_exprs t [] = Inr []"
| "field_exprs t (c # cs) = (case getField t c of
     (i, None) \<Rightarrow> Inl (Panic ''invalid memory address or nil pointer dereference'')
   | (i, Some field) \<Rightarrow> bindE (field_exprs t cs) (\<lambda>es. Inr (GetField i (Name field) # es)))"

definition create_index :: "MemTable \<Rightarrow> string \<Rightarrow> string list \<Rightarrow> bool \<Rightarrow> string \<Rightarrow> sql_error + TableIndex" where
  "create_index t name columns unique comment =
     (if map_of (tbl_indexes t) name \<noteq> None then Inl (ErrGeneric ''Error: index already exists'')
      else bindE (field_exprs t columns) (\<lambda>exprs.
        Inr \<lparr>ix_TableName = tbl_name t, ix_Exprs = exprs, ix_Name = name, ix_Unique = unique, CommentStr = comment\<rparr>))"

definition CreateIndex ::
    "MemTable \<Rightarrow> string \<Rightarrow> bool \<Rightarrow> string list \<Rightarrow> string \<Rightarrow> (sql_error + unit) \<times> MemTable" where
  "CreateIndex t name unique columns comment = (case create_index t name columns unique comment of
     Inl e \<Rightarrow> (Inl e, t)
   | Inr index \<Rightarrow> (Inr (), t\<lparr>tbl_indexes := AList.update name index (tbl_indexes t)\<rparr>))"

definition DropIndex :: "MemTable \<Rightarrow> string \<Rightarrow> MemTable" where
  "DropIndex t name = t\<lparr>tbl_indexes := AList.delete name (tbl_indexes t)\<rparr>"

definition RenameIndex :: "MemTable \<Rightarrow> string \<Rightarrow> string \<Rightarrow> MemTable" where
  "RenameIndex t from to = (case map_of (tbl_indexes t) from of
     None \<Rightarrow> t
   | Some index \<Rightarrow> t\<lparr>tbl_indexes := AList.update to index (AList.delete from (tbl_indexes t))\<rparr>)"

text \<open>
  The indexes a table reports: its primary key, if those are enabled, and the others by their identifiers. The loop over the
  map visits it in some order \<open>ord\<close>; an index without a name has the text of its expressions as identifier, which is an
  argument.
\<close>

definition index_ID :: "(colexpr \<Rightarrow> string) \<Rightarrow> TableIndex \<Rightarrow> string" where
  "index_ID show ix =
     (if ix_Name ix \<noteq> [] then ix_Name ix
      else if length (ix_Exprs ix) = 1 then show (ix_Exprs ix ! 0)
      else ''('' @ Join (map show (ix_Exprs ix)) '', '' @ '')'')"

definition GetIndexes :: "(colexpr \<Rightarrow> string) \<Rightarrow> bool \<Rightarrow> string list \<Rightarrow> MemTable \<Rightarrow> sql_error + TableIndex list" where
  "GetIndexes show pkIndexesEnabled ord t =
     (let pkCols = filter PrimaryKey (tbl_schema t);
          others = sort_key (index_ID show) (map (\<lambda>name. the (map_of (tbl_indexes t) name)) ord) in
      if pkIndexesEnabled \<and> pkCols \<noteq> [] then
        bindE (field_exprs t (map Name pkCols)) (\<lambda>exprs.
          Inr (\<lparr>ix_TableName = tbl_name t, ix_Exprs = exprs, ix_Name = ''PRIMARY'', ix_Unique = True, CommentStr = []\<rparr> # others))
      else Inr others)"

text \<open>Renaming an index changes the key of the map only: the index keeps reporting its old identifier.\<close>

lemma rename_index_keeps_name:
  assumes "map_of (tbl_indexes t) from = Some ix" and "ix_Name ix \<noteq> []"
  shows "map_option (index_ID show) (map_of (tbl_indexes (RenameIndex t from to)) to) = Some (ix_Name ix)"
  using assms by (simp add: RenameIndex_def index_ID_def update_conv')

section \<open>The rows of a table\<close>

definition table_rows :: "MemTable \<Rightarrow> row list" where
  "table_rows t = concat (map snd (partitions t))"

text \<open>An order in which a loop may visit the partitions.\<close>

definition visits :: "string list \<Rightarrow> MemTable \<Rightarrow> bool" where
  "visits ord t \<longleftrightarrow> distinct ord \<and> set ord = set (keys (partitions t))"

text \<open>Values that are equal for \<^verbatim>\<open>==\<close> have the same canonical form; only the two zeros of a float are different values.\<close>

definition canon :: "val \<Rightarrow> val" where
  "canon v = (case v of
     VFloat32 x \<Rightarrow> if x AND 0x7FFFFFFF = 0 then VFloat32 0 else v
   | VFloat64 x \<Rightarrow> if x AND 0x7FFFFFFFFFFFFFFF = 0 then VFloat64 0 else v
   | _ \<Rightarrow> v)"

lemma go_eq_canon: "comparable v \<Longrightarrow> comparable w \<Longrightarrow> go_eq v w = Inr (canon v = canon w)"
  by (cases v; cases w) (auto simp: go_eq_def canon_def comparable_def f64_eq_def f32_eq_def)

definition pk_cols :: "Schema \<Rightarrow> nat list" where
  "pk_cols s = filter (\<lambda>k. PrimaryKey (s ! k)) [0..<length s]"

definition pk_key :: "Schema \<Rightarrow> row \<Rightarrow> val list" where
  "pk_key s r = map (\<lambda>k. canon (r ! k)) (pk_cols s)"

definition table_ok :: "MemTable \<Rightarrow> bool" where
  "table_ok t \<longleftrightarrow>
     map_ok (partitions t) \<and> distinct (tbl_keys t) \<and> set (tbl_keys t) = set (keys (partitions t)) \<and>
     tbl_insert t < length (tbl_keys t) \<and> tbl_columns t = [] \<and> schema_ok (tbl_name t) (tbl_schema t) \<and>
     (\<forall>r \<in> set (table_rows t). checkRow (tbl_schema t) r = Inr () \<and> list_all comparable r) \<and>
     (pk_cols (tbl_schema t) \<noteq> [] \<longrightarrow> distinct (map (pk_key (tbl_schema t)) (table_rows t)))"

lemma mset_concat_map: "mset (concat (map f xs)) = \<Sum>\<^sub># (image_mset (\<lambda>x. mset (f x)) (mset xs))"
  by (induction xs) auto

lemma partition_rows_keys: "map_ok (partitions t) \<Longrightarrow> map (partition_rows t) (keys (partitions t)) = map snd (partitions t)"
  by (auto simp: partition_rows_def map_ok_def)

lemma visited_rows:
  assumes "visits ord t" and "map_ok (partitions t)"
  shows "mset (concat (map (partition_rows t) ord)) = mset (table_rows t)"
proof -
  have "mset ord = mset (keys (partitions t))"
    using assms unfolding visits_def map_ok_def by (metis set_eq_iff_mset_eq_distinct)
  then have "mset (concat (map (partition_rows t) ord)) = mset (concat (map (partition_rows t) (keys (partitions t))))"
    by (simp only: mset_concat_map)
  then show ?thesis using assms by (simp only: partition_rows_keys table_rows_def)
qed

lemma update_rows:
  "map_ok m \<Longrightarrow> map_of m k = Some old \<Longrightarrow>
   mset (concat (map snd (AList.update k new m))) + mset old = mset (concat (map snd m)) + mset new"
proof (induction m)
  case (Cons x m)
  have "mset (concat (map snd (AList.update k new m))) + mset old = mset (concat (map snd m)) + mset new" if "fst x \<noteq> k"
    using Cons that by (cases x) (auto simp: map_ok_def split: if_splits)
  then show ?case using Cons.prems by (cases x) (auto simp: ac_simps)
qed simp

lemma partition_update_rows:
  assumes "map_ok (partitions t)" and "k \<in> set (keys (partitions t))"
  shows "mset (table_rows (t\<lparr>partitions := AList.update k new (partitions t)\<rparr>)) + mset (partition_rows t k) =
    mset (table_rows t) + mset new"
proof -
  from assms obtain old where "map_of (partitions t) k = Some old" by (cases "map_of (partitions t) k") (auto simp: map_of_eq_None_iff)
  with update_rows [OF assms(1) this, of new] show ?thesis by (simp add: table_rows_def partition_rows_def)
qed

section \<open>What the loops find\<close>

lemma pkColumnIndexes_pk_cols:
  assumes "schema_ok (tbl_name t) (tbl_schema t)" and "tbl_columns t = []"
  shows "pkColumnIndexes t = map int (pk_cols (tbl_schema t))"
proof -
  let ?s = "tbl_schema t"
  have "filter PrimaryKey ?s = map (\<lambda>k. ?s ! k) (pk_cols ?s)"
    unfolding pk_cols_def using filter_map [of PrimaryKey "\<lambda>k. ?s ! k" "[0..<length ?s]"] by (simp add: map_nth comp_def)
  moreover have "fst (getField t (Name (?s ! k))) = int k" if "k \<in> set (pk_cols ?s)" for k
    using that IndexOf_nth [OF assms(1), of k] assms(2) by (auto simp: getField_def Let_def pk_cols_def)
  ultimately show ?thesis by (simp add: pkColumnIndexes_def)
qed

lemma columnsMatch_canon:
  assumes "list_all comparable r" and "list_all comparable r'" and "\<forall>k \<in> set ks. k < length r \<and> k < length r'"
  shows "columnsMatch (map int ks) r r' = Inr (map (\<lambda>k. canon (r ! k)) ks = map (\<lambda>k. canon (r' ! k)) ks)"
  using assms(3)
proof (induction ks)
  case (Cons k ks)
  then have "go_eq (r ! k) (r' ! k) = Inr (canon (r ! k) = canon (r' ! k))"
    using assms(1,2) by (intro go_eq_canon) (auto simp: list_all_length)
  with Cons show ?case by (simp add: row_at_def)
qed simp

lemma total_match_canon:
  "length r = length r' \<Longrightarrow> list_all comparable r \<Longrightarrow> list_all comparable r' \<Longrightarrow>
   total_match r r' = Inr (map canon r = map canon r')"
  by (induction r r' rule: list_induct2) (auto simp: go_eq_canon)

lemma pk_key_canon: "length r = length s \<Longrightarrow> length r' = length s \<Longrightarrow> map canon r = map canon r' \<Longrightarrow> pk_key s r = pk_key s r'"
proof -
  assume len: "length r = length s" "length r' = length s" and eq: "map canon r = map canon r'"
  have "canon (r ! k) = canon (r' ! k)" if "k \<in> set (pk_cols s)" for k
  proof -
    have "k < length s" using that by (simp add: pk_cols_def)
    then show ?thesis using len eq by (metis nth_map)
  qed
  then show ?thesis by (simp add: pk_key_def)
qed

lemma unique_loop_spec:
  assumes "\<And>p. p \<in> set ps \<Longrightarrow> columnsMatch pk p row = Inr (same p)"
  shows "unique_loop pk row ps = (if \<exists>p \<in> set ps. same p then Inl (ErrUniqueKeyViolation pk) else Inr ())"
  using assms by (induction ps) auto

lemma row_loop_spec:
  assumes "\<forall>p \<in> set ps. hit p = Inr (h p)"
  shows "(\<forall>p \<in> set ps. \<not> h p) \<and> row_loop hit repl pre ps = Inr None \<or>
    (\<exists>us p vs. ps = us @ p # vs \<and> h p \<and> row_loop hit repl pre ps = Inr (Some (pre @ us @ repl @ vs)))"
  using assms
proof (induction ps arbitrary: pre)
  case (Cons q ps)
  show ?case
  proof (cases "h q")
    case True
    then have "row_loop hit repl pre (q # ps) = Inr (Some (pre @ [] @ repl @ ps))" using Cons.prems by simp
    with True show ?thesis by blast
  next
    case False
    then have eq: "row_loop hit repl pre (q # ps) = row_loop hit repl (pre @ [q]) ps" using Cons.prems by simp
    have "\<forall>p \<in> set ps. hit p = Inr (h p)" using Cons.prems by simp
    from Cons.IH [OF this, of "pre @ [q]"] show ?thesis
    proof (elim disjE exE conjE)
      fix us p vs
      assume "ps = us @ p # vs" "h p" "row_loop hit repl (pre @ [q]) ps = Inr (Some ((pre @ [q]) @ us @ repl @ vs))"
      with eq show ?thesis by (intro disjI2 exI [of _ "q # us"] exI [of _ p] exI [of _ vs]) simp
    qed (use False eq in auto)
  qed
qed simp

lemma partition_loop_spec:
  assumes "\<forall>p \<in> set (concat (map (partition_rows t) ks)). hit p = Inr (h p)"
  shows "(\<forall>p \<in> set (concat (map (partition_rows t) ks)). \<not> h p) \<and> partition_loop hit repl t ks = Inr None \<or>
    (\<exists>k \<in> set ks. \<exists>us p vs. partition_rows t k = us @ p # vs \<and> h p \<and>
      partition_loop hit repl t ks = Inr (Some (t\<lparr>partitions := AList.update k (us @ repl @ vs) (partitions t)\<rparr>)))"
  using assms
proof (induction ks)
  case (Cons k ks)
  then have IH: "(\<forall>p \<in> set (concat (map (partition_rows t) ks)). \<not> h p) \<and> partition_loop hit repl t ks = Inr None \<or>
    (\<exists>k \<in> set ks. \<exists>us p vs. partition_rows t k = us @ p # vs \<and> h p \<and>
      partition_loop hit repl t ks = Inr (Some (t\<lparr>partitions := AList.update k (us @ repl @ vs) (partitions t)\<rparr>)))" by auto
  have "\<forall>p \<in> set (partition_rows t k). hit p = Inr (h p)" using Cons.prems by auto
  from row_loop_spec [OF this, of repl "[]"] show ?case
  proof (elim disjE exE conjE)
    fix us p vs
    assume a: "partition_rows t k = us @ p # vs" "h p"
      "row_loop hit repl [] (partition_rows t k) = Inr (Some ([] @ us @ repl @ vs))"
    then show ?thesis by (intro disjI2 bexI [of _ k] exI [of _ us] exI [of _ p] exI [of _ vs]) simp_all
  next
    assume none: "\<forall>p \<in> set (partition_rows t k). \<not> h p" "row_loop hit repl [] (partition_rows t k) = Inr None"
    then have "partition_loop hit repl t (k # ks) = partition_loop hit repl t ks" by simp
    with IH none(1) show ?thesis by auto
  qed
qed simp

text \<open>Replacing a row that the loops find: the rest of the table stays as it is.\<close>

lemma partition_loop_rows:
  assumes t: "map_ok (partitions t)" "visits ord t" and hit: "\<forall>p \<in> set (table_rows t). hit p = Inr (h p)"
  shows "(\<forall>p \<in> set (table_rows t). \<not> h p) \<and> partition_loop hit repl t ord = Inr None \<or>
    (\<exists>k p rs. p \<in> set (table_rows t) \<and> h p \<and> k \<in> set (keys (partitions t)) \<and>
      partition_loop hit repl t ord = Inr (Some (t\<lparr>partitions := AList.update k rs (partitions t)\<rparr>)) \<and>
      mset (table_rows (t\<lparr>partitions := AList.update k rs (partitions t)\<rparr>)) + {#p#} = mset (table_rows t) + mset repl)"
proof -
  have rows: "set (concat (map (partition_rows t) ord)) = set (table_rows t)"
    using visited_rows [OF t(2,1)] by (metis set_mset_mset)
  have ord: "set ord = set (keys (partitions t))" using t(2) by (simp add: visits_def)
  from partition_loop_spec [OF hit [folded rows], of repl] show ?thesis
  proof (elim disjE bexE exE conjE, goal_cases)
    case (2 k us p vs)
    have k: "k \<in> set (keys (partitions t))" using 2 ord by blast
    have "p \<in> set (partition_rows t k)" using 2 by simp
    then have p: "p \<in> set (table_rows t)" using rows 2(1) by auto
    have "mset (table_rows (t\<lparr>partitions := AList.update k (us @ repl @ vs) (partitions t)\<rparr>)) + {#p#} = mset (table_rows t) + mset repl"
      using partition_update_rows [OF t(1) k, of "us @ repl @ vs"] 2(2) by simp
    with 2 p k show ?case by blast
  next
    case 1
    then show ?case unfolding rows by blast
  qed
qed

section \<open>The editor on a table that is well-formed\<close>

lemma pk_cols_bound: "k \<in> set (pk_cols s) \<Longrightarrow> k < length s"
  by (simp add: pk_cols_def)

lemma table_row:
  "table_ok t \<Longrightarrow> r \<in> set (table_rows t) \<Longrightarrow>
   length r = length (tbl_schema t) \<and> list_all comparable r \<and> checkRow (tbl_schema t) r = Inr ()"
  by (auto simp: table_ok_def checkRow_def split: if_splits)

lemma pk_indexes: "table_ok t \<Longrightarrow> pkColumnIndexes t = map int (pk_cols (tbl_schema t))"
  by (simp add: table_ok_def pkColumnIndexes_pk_cols)

lemma pk_match:
  assumes "table_ok t" and "length r = length (tbl_schema t)" "list_all comparable r"
    and "length r' = length (tbl_schema t)" "list_all comparable r'"
  shows "columnsMatch (pkColumnIndexes t) r r' = Inr (pk_key (tbl_schema t) r = pk_key (tbl_schema t) r')"
  unfolding pk_indexes [OF assms(1)] pk_key_def using assms pk_cols_bound
  by (intro columnsMatch_canon) auto

lemma visits_keys: "table_ok t \<Longrightarrow> visits (tbl_keys t) t"
  by (simp add: table_ok_def visits_def)

text \<open>Whether another row has the key of a row.\<close>

definition key_taken :: "MemTable \<Rightarrow> row \<Rightarrow> bool" where
  "key_taken t row \<longleftrightarrow> pk_cols (tbl_schema t) \<noteq> [] \<and>
     (\<exists>r \<in> set (table_rows t). pk_key (tbl_schema t) r = pk_key (tbl_schema t) row)"

lemma checkUniqueness_spec:
  assumes "table_ok t" and "visits ord t" and "length row = length (tbl_schema t)" "list_all comparable row"
  shows "checkUniquenessConstraints ord t row =
    (if key_taken t row then Inl (ErrUniqueKeyViolation (pkColumnIndexes t)) else Inr ())"
proof -
  have rows: "set (concat (map (partition_rows t) ord)) = set (table_rows t)"
    using visited_rows [OF assms(2)] assms(1) by (metis set_mset_mset table_ok_def)
  have "unique_loop (pkColumnIndexes t) row (concat (map (partition_rows t) ord)) =
    (if \<exists>p \<in> set (table_rows t). pk_key (tbl_schema t) p = pk_key (tbl_schema t) row
     then Inl (ErrUniqueKeyViolation (pkColumnIndexes t)) else Inr ())"
    unfolding rows [symmetric]
    by (rule unique_loop_spec) (use assms table_row [OF assms(1)] rows in \<open>auto intro!: pk_match\<close>)
  then show ?thesis using pk_indexes [OF assms(1)]
    by (simp add: checkUniquenessConstraints_def key_taken_def Let_def)
qed

lemma table_ok_change:
  assumes "table_ok t" and "k \<in> set (keys (partitions t))" and "i < length (tbl_keys t)"
    and "t' = t\<lparr>partitions := AList.update k rs (partitions t), tbl_insert := i\<rparr>"
    and "\<forall>r \<in> set (table_rows t'). checkRow (tbl_schema t) r = Inr () \<and> list_all comparable r"
    and "pk_cols (tbl_schema t) \<noteq> [] \<longrightarrow> distinct (map (pk_key (tbl_schema t)) (table_rows t'))"
  shows "table_ok t'"
proof -
  have "set (keys (AList.update k rs (partitions t))) = set (keys (partitions t))"
    using assms(2) by (simp only: AList.update_keys if_True)
  then show ?thesis using assms by (simp add: table_ok_def table_rows_def)
qed

lemma distinct_map_mset: "mset xs = mset ys \<Longrightarrow> distinct (map f xs) \<longleftrightarrow> distinct (map f ys)"
  by (metis mset_map mset_eq_imp_distinct_iff)

lemma editor_Insert_spec:
  assumes "table_ok t" and "visits ord t" and "list_all comparable row"
  shows "(case checkRow (tbl_schema t) row of
     Inl e \<Rightarrow> editor_Insert ord t row = (Inl e, t)
   | Inr _ \<Rightarrow>
       if key_taken t row then editor_Insert ord t row = (Inl (ErrUniqueKeyViolation (pkColumnIndexes t)), t)
       else \<exists>t'. editor_Insert ord t row = (Inr (), t') \<and> table_ok t' \<and> tbl_schema t' = tbl_schema t \<and>
         mset (table_rows t') = add_mset row (mset (table_rows t)))"
proof (cases "checkRow (tbl_schema t) row")
  case (Inr u)
  then have len: "length row = length (tbl_schema t)" by (auto simp: checkRow_def split: if_splits)
  show ?thesis
  proof (cases "key_taken t row")
    case True
    with Inr show ?thesis using checkUniqueness_spec [OF assms(1,2) len assms(3)] by (simp add: editor_Insert_def)
  next
    case False
    let ?k = "tbl_keys t ! tbl_insert t" and ?i = "if tbl_insert t + 1 = length (tbl_keys t) then 0 else tbl_insert t + 1"
    let ?t = "t\<lparr>partitions := AList.update ?k (partition_rows t ?k @ [row]) (partitions t), tbl_insert := ?i\<rparr>"
    have pos: "tbl_insert t < length (tbl_keys t)" and map: "map_ok (partitions t)" using assms(1) by (auto simp: table_ok_def)
    then have k: "?k \<in> set (keys (partitions t))" using assms(1) nth_mem [OF pos] by (simp add: table_ok_def)
    have ins: "editor_Insert ord t row = (Inr (), ?t)"
      using Inr False pos checkUniqueness_spec [OF assms(1,2) len assms(3)] by (simp add: editor_Insert_def Let_def)
    have "mset (table_rows ?t) + mset (partition_rows t ?k) = mset (table_rows t) + mset (partition_rows t ?k @ [row])"
      using partition_update_rows [OF map k, of "partition_rows t ?k @ [row]"] by (simp add: table_rows_def)
    then have rows: "mset (table_rows ?t) = add_mset row (mset (table_rows t))" by simp
    then have "mset (table_rows ?t) = mset (row # table_rows t)" by simp
    then have set: "set (table_rows ?t) = insert row (set (table_rows t))" and
      dist: "distinct (map f (table_rows ?t)) \<longleftrightarrow> distinct (map f (row # table_rows t))" for f :: "row \<Rightarrow> val list"
      by (metis list.simps(15) set_mset_mset, rule distinct_map_mset)
    have "table_ok ?t"
    proof (rule table_ok_change [OF assms(1) k _ refl])
      show "?i < length (tbl_keys t)" using pos by auto
      show "\<forall>r \<in> set (table_rows ?t). checkRow (tbl_schema t) r = Inr () \<and> list_all comparable r"
        using set Inr assms table_row [OF assms(1)] by auto
      show "pk_cols (tbl_schema t) \<noteq> [] \<longrightarrow> distinct (map (pk_key (tbl_schema t)) (table_rows ?t))"
        using dist [of "pk_key (tbl_schema t)"] False assms(1) by (auto simp: key_taken_def table_ok_def)
    qed
    then show ?thesis using ins rows Inr False by auto
  qed
qed (simp add: editor_Insert_def)

text \<open>The rows that a row deletes: those with its key, or the equal ones in a table without a key.\<close>

definition deletes :: "Schema \<Rightarrow> row \<Rightarrow> row \<Rightarrow> bool" where
  "deletes s row r \<longleftrightarrow> (if pk_cols s \<noteq> [] then pk_key s r = pk_key s row else map canon r = map canon row)"

lemma delete_hit_spec:
  assumes "table_ok t" and "length row = length (tbl_schema t)" "list_all comparable row" and "r \<in> set (table_rows t)"
  shows "delete_hit (pkColumnIndexes t) row r = Inr (deletes (tbl_schema t) row r)"
proof -
  have r: "length r = length (tbl_schema t)" "list_all comparable r" using table_row [OF assms(1,4)] by auto
  have "total_match row r = Inr (map canon row = map canon r)"
    using total_match_canon assms r by simp
  moreover have "map canon row = map canon r \<Longrightarrow> pk_key (tbl_schema t) r = pk_key (tbl_schema t) row"
    using pk_key_canon [of row "tbl_schema t" r] assms r by simp
  ultimately show ?thesis using pk_match [OF assms(1) r assms(2,3)] pk_indexes [OF assms(1)]
    by (auto simp: delete_hit_def deletes_def)
qed

lemma table_ok_replace:
  assumes t: "table_ok t" and k: "k \<in> set (keys (partitions t))" and p: "p \<in> set (table_rows t)"
    and t': "t' = t\<lparr>partitions := AList.update k rs (partitions t)\<rparr>"
    and rows: "mset (table_rows t') + {#p#} = mset (table_rows t) + mset repl"
    and repl: "\<forall>r \<in> set repl. checkRow (tbl_schema t) r = Inr () \<and> list_all comparable r"
    and keys: "repl = [] \<or> (\<exists>r. repl = [r] \<and> (pk_key (tbl_schema t) r = pk_key (tbl_schema t) p \<or> \<not> key_taken t r))"
  shows "table_ok t'"
proof (rule table_ok_change [OF t k, of "tbl_insert t"])
  obtain us where us: "mset (table_rows t) = mset (p # us)" using p by (metis mset.simps(2) mset_remove1 set_mset_mset insert_DiffM)
  then have "mset (table_rows t') + {#p#} = mset (us @ repl) + {#p#}" using rows by simp
  then have us': "mset (table_rows t') = mset (us @ repl)" by simp
  have set: "set (table_rows t) = insert p (set us)" using us by (metis list.simps(15) set_mset_mset)
  show "tbl_insert t < length (tbl_keys t)" using t by (simp add: table_ok_def)
  show "t' = t\<lparr>partitions := AList.update k rs (partitions t), tbl_insert := tbl_insert t\<rparr>" using t' by simp
  have "set (table_rows t') = set us \<union> set repl" using us' by (metis set_append set_mset_mset)
  then show "\<forall>r \<in> set (table_rows t'). checkRow (tbl_schema t) r = Inr () \<and> list_all comparable r"
    using repl set table_row [OF t] by auto
  show "pk_cols (tbl_schema t) \<noteq> [] \<longrightarrow> distinct (map (pk_key (tbl_schema t)) (table_rows t'))"
  proof
    assume pk: "pk_cols (tbl_schema t) \<noteq> []"
    let ?f = "pk_key (tbl_schema t)"
    have "distinct (map ?f (p # us))" using t pk distinct_map_mset [OF us, of ?f] by (simp only: table_ok_def simp_thms)
    then have "distinct (map ?f (us @ repl))" using keys pk set by (auto simp: key_taken_def rev_image_eqI)
    then show "distinct (map ?f (table_rows t'))" using distinct_map_mset [OF us', of ?f] by (simp only:)
  qed
qed

lemma editor_Delete_spec:
  assumes "table_ok t" and "visits ord t" and "list_all comparable row"
  shows "(case checkRow (tbl_schema t) row of
     Inl e \<Rightarrow> editor_Delete ord t row = (Inl e, t)
   | Inr _ \<Rightarrow>
       if \<exists>r \<in> set (table_rows t). deletes (tbl_schema t) row r
       then \<exists>t' r. editor_Delete ord t row = (Inr (), t') \<and> table_ok t' \<and> tbl_schema t' = tbl_schema t \<and>
         deletes (tbl_schema t) row r \<and> mset (table_rows t) = add_mset r (mset (table_rows t'))
       else editor_Delete ord t row = (Inl ErrDeleteRowNotFound, t))"
proof (cases "checkRow (tbl_schema t) row")
  case (Inr u)
  then have len: "length row = length (tbl_schema t)" by (auto simp: checkRow_def split: if_splits)
  have map: "map_ok (partitions t)" using assms(1) by (simp add: table_ok_def)
  have hit: "\<forall>r \<in> set (table_rows t). delete_hit (pkColumnIndexes t) row r = Inr (deletes (tbl_schema t) row r)"
    using delete_hit_spec [OF assms(1) len assms(3)] by blast
  from partition_loop_rows [OF map assms(2) hit, of "[]"] show ?thesis
  proof (elim disjE exE conjE, goal_cases)
    case 1
    with Inr show ?case by (simp add: editor_Delete_def)
  next
    case (2 k p rs)
    let ?t = "t\<lparr>partitions := AList.update k rs (partitions t)\<rparr>"
    have "table_ok ?t" by (rule table_ok_replace [OF assms(1) 2(3,1) refl 2(5)]) simp_all
    moreover have "mset (table_rows t) = add_mset p (mset (table_rows ?t))" using 2(5) by simp
    moreover have "editor_Delete ord t row = (Inr (), ?t)" using Inr 2(4) by (simp add: editor_Delete_def)
    ultimately show ?case using Inr 2(1,2) by auto
  qed
qed (simp add: editor_Delete_def)

lemma editor_Update_spec:
  assumes "table_ok t" and "visits ord t" and "list_all comparable old" and "list_all comparable new"
    and "checkRow (tbl_schema t) old = Inr ()"
  shows "(case checkRow (tbl_schema t) new of
     Inl e \<Rightarrow> editor_Update ord t old new = (Inl e, t)
   | Inr _ \<Rightarrow>
       if pk_key (tbl_schema t) old \<noteq> pk_key (tbl_schema t) new \<and> key_taken t new
       then editor_Update ord t old new = (Inl (ErrUniqueKeyViolation (pkColumnIndexes t)), t)
       else if \<exists>r \<in> set (table_rows t). map canon r = map canon old
       then \<exists>t' r. editor_Update ord t old new = (Inr (), t') \<and> table_ok t' \<and> tbl_schema t' = tbl_schema t \<and>
         r \<in> set (table_rows t) \<and> map canon r = map canon old \<and>
         add_mset r (mset (table_rows t')) = add_mset new (mset (table_rows t))
       else editor_Update ord t old new = (Inr (), t))"
proof (cases "checkRow (tbl_schema t) new")
  case (Inr u)
  then have len: "length new = length (tbl_schema t)" "length old = length (tbl_schema t)"
    using assms(5) by (auto simp: checkRow_def split: if_splits)
  let ?key = "pk_key (tbl_schema t)"
  have diff: "pkColsDiffer t old new = Inr (?key old \<noteq> ?key new)"
    using pk_match [OF assms(1) len(2) assms(3) len(1) assms(4)] by (simp add: pkColsDiffer_def)
  have map: "map_ok (partitions t)" using assms(1) by (simp add: table_ok_def)
  have hit: "\<forall>r \<in> set (table_rows t). total_match old r = Inr (map canon old = map canon r)"
    using table_row [OF assms(1)] len assms(3) by (auto intro!: total_match_canon)
  show ?thesis
  proof (cases "?key old \<noteq> ?key new \<and> key_taken t new")
    case True
    with Inr show ?thesis using assms(5) diff checkUniqueness_spec [OF assms(1,2) len(1) assms(4)] by (simp add: editor_Update_def)
  next
    case False
    then have unique: "(if ?key old \<noteq> ?key new then checkUniquenessConstraints ord t new else Inr ()) = Inr ()"
      using checkUniqueness_spec [OF assms(1,2) len(1) assms(4)] by auto
    from partition_loop_rows [OF map assms(2) hit, of "[new]"] show ?thesis
    proof (elim disjE exE conjE, goal_cases)
      case 1
      with Inr False show ?case using assms(5) diff unique by (auto simp: editor_Update_def)
    next
      case (2 k p rs)
      let ?t = "t\<lparr>partitions := AList.update k rs (partitions t)\<rparr>"
      have "?key p = ?key old"
        using table_row [OF assms(1) 2(1)] len 2(2) by (intro pk_key_canon) simp_all
      then have "table_ok ?t"
        using False Inr assms(4) by (intro table_ok_replace [OF assms(1) 2(3,1) refl 2(5)]) auto
      moreover have "add_mset p (mset (table_rows ?t)) = add_mset new (mset (table_rows t))" using 2(5) by simp
      moreover have "editor_Update ord t old new = (Inr (), ?t)"
        using Inr 2(4) assms(5) diff unique by (simp add: editor_Update_def)
      ultimately show ?case using Inr False 2(1,2) by auto
    qed
  qed
qed (use assms(5) in \<open>simp add: editor_Update_def\<close>)

section \<open>A table as a multiset of rows\<close>

datatype (plugins only: "size") edit = EInsert row | EDelete row | EUpdate row row

definition apply_edit :: "string list \<Rightarrow> MemTable \<Rightarrow> edit \<Rightarrow> (sql_error + unit) \<times> MemTable" where
  "apply_edit ord t e = (case e of
     EInsert row \<Rightarrow> editor_Insert ord t row
   | EDelete row \<Rightarrow> editor_Delete ord t row
   | EUpdate old new \<Rightarrow> editor_Update ord t old new)"

fun run_edits :: "(string list \<times> edit) list \<Rightarrow> MemTable \<Rightarrow> (sql_error + unit) list \<times> MemTable" where
  "run_edits [] t = ([], t)"
| "run_edits ((ord, e) # es) t =
     (case apply_edit ord t e of (res, t') \<Rightarrow> (case run_edits es t' of (ress, t'') \<Rightarrow> (res # ress, t'')))"

text \<open>The specification: what an edit may do to the rows \<open>R\<close> of a table with schema \<open>s\<close>.\<close>

definition edit_spec :: "Schema \<Rightarrow> row multiset \<Rightarrow> edit \<Rightarrow> sql_error + unit \<Rightarrow> row multiset \<Rightarrow> bool" where
  "edit_spec s R e res R' = (let
     taken = (\<lambda>row. pk_cols s \<noteq> [] \<and> (\<exists>r \<in># R. pk_key s r = pk_key s row));
     violation = ErrUniqueKeyViolation (map int (pk_cols s)) in
   case e of
     EInsert row \<Rightarrow>
       (case checkRow s row of
          Inl err \<Rightarrow> res = Inl err \<and> R' = R
        | Inr _ \<Rightarrow> if taken row then res = Inl violation \<and> R' = R else res = Inr () \<and> R' = add_mset row R)
   | EDelete row \<Rightarrow>
       (case checkRow s row of
          Inl err \<Rightarrow> res = Inl err \<and> R' = R
        | Inr _ \<Rightarrow>
            if \<exists>r \<in># R. deletes s row r then res = Inr () \<and> (\<exists>r. deletes s row r \<and> R = add_mset r R')
            else res = Inl ErrDeleteRowNotFound \<and> R' = R)
   | EUpdate old new \<Rightarrow>
       (case bindE (checkRow s old) (\<lambda>_. checkRow s new) of
          Inl err \<Rightarrow> res = Inl err \<and> R' = R
        | Inr _ \<Rightarrow>
            if pk_key s old \<noteq> pk_key s new \<and> taken new then res = Inl violation \<and> R' = R
            else res = Inr () \<and>
              (if \<exists>r \<in># R. map canon r = map canon old
               then \<exists>r \<in># R. map canon r = map canon old \<and> add_mset r R' = add_mset new R else R' = R)))"

fun edits_spec :: "Schema \<Rightarrow> row multiset \<Rightarrow> edit list \<Rightarrow> (sql_error + unit) list \<Rightarrow> row multiset \<Rightarrow> bool" where
  "edits_spec s R [] ress R' \<longleftrightarrow> ress = [] \<and> R' = R"
| "edits_spec s R (e # es) ress R' \<longleftrightarrow>
     (\<exists>res ress' R1. ress = res # ress' \<and> edit_spec s R e res R1 \<and> edits_spec s R1 es ress' R')"

fun edit_comparable :: "edit \<Rightarrow> bool" where
  "edit_comparable (EInsert r) = list_all comparable r"
| "edit_comparable (EDelete r) = list_all comparable r"
| "edit_comparable (EUpdate r r') = (list_all comparable r \<and> list_all comparable r')"

lemma apply_edit_refines:
  assumes "table_ok t" and "visits ord t" and "edit_comparable e" and "apply_edit ord t e = (res, t')"
  shows "table_ok t' \<and> tbl_schema t' = tbl_schema t \<and>
    edit_spec (tbl_schema t) (mset (table_rows t)) e res (mset (table_rows t'))"
proof (cases e)
  case (EInsert row)
  then show ?thesis using assms editor_Insert_spec [OF assms(1,2), of row] pk_indexes [OF assms(1)]
    by (auto simp: apply_edit_def edit_spec_def key_taken_def split: sum.splits if_splits)
next
  case (EDelete row)
  then show ?thesis using assms editor_Delete_spec [OF assms(1,2), of row]
    by (auto simp: apply_edit_def edit_spec_def split: sum.splits if_splits)
next
  case (EUpdate old new)
  show ?thesis
  proof (cases "checkRow (tbl_schema t) old")
    case (Inl err)
    then have "res = Inl err \<and> t' = t" using assms(4) EUpdate by (auto simp: apply_edit_def editor_Update_def)
    with Inl EUpdate assms(1) show ?thesis by (simp add: edit_spec_def Let_def)
  next
    case (Inr u)
    then show ?thesis using assms EUpdate editor_Update_spec [OF assms(1,2), of old new] pk_indexes [OF assms(1)]
      by (auto simp: apply_edit_def edit_spec_def key_taken_def split: sum.splits if_splits)
  qed
qed

text \<open>The keys of the partitions never change.\<close>

lemma partition_loop_keys:
  "partition_loop hit repl t ks = Inr (Some t') \<Longrightarrow> set ks \<subseteq> set (keys (partitions t)) \<Longrightarrow>
   keys (partitions t') = keys (partitions t)"
proof (induction ks)
  case (Cons k ks)
  then have k: "k \<in> set (keys (partitions t))" by simp
  from Cons k show ?case by (auto simp: bindE_eq_Inr_iff AList.update_keys image_iff simp del: set_map split: option.splits)
qed simp

lemma apply_edit_keys:
  assumes "table_ok t" and "visits ord t" and "apply_edit ord t e = (res, t')"
  shows "keys (partitions t') = keys (partitions t)"
proof -
  have ord: "set ord \<subseteq> set (keys (partitions t))" using assms(2) by (simp add: visits_def)
  have ins: "tbl_keys t ! tbl_insert t \<in> set (keys (partitions t))"
    using assms(1) nth_mem [of "tbl_insert t" "tbl_keys t"] by (simp add: table_ok_def)
  show ?thesis
    using assms(3) partition_loop_keys [OF _ ord] ins
    by (cases e) (auto simp del: set_map simp: apply_edit_def editor_Insert_def editor_Delete_def editor_Update_def Let_def bindE_eq_Inr_iff
        AList.update_keys split: sum.splits option.splits if_splits)
qed

lemma run_edits_refines:
  assumes "table_ok t" and "\<forall>(ord, e) \<in> set es. visits ord t \<and> edit_comparable e" and "run_edits es t = (ress, t')"
  shows "table_ok t' \<and> tbl_schema t' = tbl_schema t \<and>
    edits_spec (tbl_schema t) (mset (table_rows t)) (map snd es) ress (mset (table_rows t'))"
  using assms
proof (induction es arbitrary: t ress)
  case (Cons x es)
  obtain ord e where x: "x = (ord, e)" by (cases x)
  obtain res t1 where t1: "apply_edit ord t e = (res, t1)" by fastforce
  obtain ress1 where t2: "run_edits es t1 = (ress1, t')" and ress: "ress = res # ress1"
    using Cons.prems(3) x t1 by (auto split: prod.splits)
  have vis: "visits ord t" "edit_comparable e" using Cons.prems(2) x by auto
  from apply_edit_refines [OF Cons.prems(1) vis t1]
  have ref: "table_ok t1" "tbl_schema t1 = tbl_schema t"
    "edit_spec (tbl_schema t) (mset (table_rows t)) e res (mset (table_rows t1))" by auto
  have "visits o' t1 \<longleftrightarrow> visits o' t" for o'
    using apply_edit_keys [OF Cons.prems(1) vis(1) t1] by (simp only: visits_def)
  then have "\<forall>(ord, e) \<in> set es. visits ord t1 \<and> edit_comparable e" using Cons.prems(2) by auto
  from Cons.IH [OF ref(1) this t2] ref(2,3) x ress show ?case by auto
qed simp

lemma NewPartitionedTable_ok:
  assumes "schema_ok name schema"
  shows "table_ok (NewPartitionedTable name schema n) \<and> table_rows (NewPartitionedTable name schema n) = []"
proof -
  have rows: "table_rows (NewPartitionedTable name schema n) = []"
    by (simp add: NewPartitionedTable_def Let_def table_rows_def)
  have inj: "inj_on Itoa A" for A using inj_Itoa by (rule inj_on_subset) simp
  show ?thesis unfolding table_ok_def rows using assms inj
    by (auto simp: NewPartitionedTable_def Let_def map_ok_def distinct_map comp_def image_image)
qed

section \<open>Properties\<close>


definition id_column :: Column where
  "id_column = \<lparr>Name = ''id'', ColumnType = \<lparr>Convert = (\<lambda>v. Inr v), TypeCompare = (\<lambda>v w. Inr 0)\<rparr>, Default = None,
     AutoIncrement = False, Nullable = False, Source = ''t'', PrimaryKey = True, Comment = [], Extra = []\<rparr>"


end
