(* ===== verification/Table_Alter.thy ===== *)
theory Table_Alter
  imports Memory_Table
begin

text \<open>
  ALTER TABLE on a table in memory: adding, dropping and modifying a column change the rows in the same way as the schema, so
  that every other column keeps its values.
\<close>

definition insert_at :: "nat \<Rightarrow> 'a \<Rightarrow> 'a list \<Rightarrow> 'a list" where
  "insert_at i x xs = take i xs @ [x] @ drop i xs"

lemma length_insert_at [simp]: "i \<le> length xs \<Longrightarrow> length (insert_at i x xs) = length xs + 1"
  by (simp add: insert_at_def)

lemma map_insert_at: "map f (insert_at i x xs) = insert_at i (f x) (map f xs)"
  by (simp add: insert_at_def take_map drop_map)

lemma map_remove_at: "map f (remove_at i xs) = remove_at i (map f xs)"
  by (simp add: remove_at_def take_map drop_map)

lemma distinct_remove_at: "distinct xs \<Longrightarrow> distinct (remove_at i xs)"
proof -
  assume "distinct xs"
  then have "distinct (take i xs @ drop i xs)" "distinct (drop (i + 1) xs)" by (simp, rule distinct_drop)
  moreover have "set (drop (i + 1) xs) \<subseteq> set (drop i xs)" by (rule set_drop_subset_set_drop) simp
  ultimately show ?thesis unfolding remove_at_def distinct_append by auto
qed

section \<open>Rows\<close>

lemma map_result_Inr: "map_result f xs = Inr ys \<Longrightarrow> (\<forall>x \<in> set xs. f x = Inr (projr (f x))) \<and> ys = map (\<lambda>x. projr (f x)) xs"
  by (induction xs arbitrary: ys) (auto simp: bindE_eq_Inr_iff)

lemma rewrite_partitions_rows:
  assumes "rewrite_partitions f ks t = (Inr (), t')" and "distinct ks" and "set ks \<subseteq> set (keys (partitions t))"
  shows "(\<forall>k \<in> set ks. map_result f (partition_rows t k) = Inr (partition_rows t' k)) \<and>
    (\<forall>k. k \<notin> set ks \<longrightarrow> partition_rows t' k = partition_rows t k) \<and>
    keys (partitions t') = keys (partitions t) \<and> t' = t\<lparr>partitions := partitions t'\<rparr>"
  using assms
proof (induction ks arbitrary: t)
  case (Cons k ks)
  then obtain rs where rs: "map_result f (partition_rows t k) = Inr rs" by (auto split: sum.splits)
  let ?t = "t\<lparr>partitions := AList.update k rs (partitions t)\<rparr>"
  have k: "k \<in> set (keys (partitions t))" using Cons.prems(3) by simp
  then have keys: "keys (partitions ?t) = keys (partitions t)" by (simp add: AList.update_keys image_iff)
  have get: "partition_rows ?t j = (if j = k then rs else partition_rows t j)" for j by (simp add: partition_rows_def map_of_update)
  have "rewrite_partitions f ks ?t = (Inr (), t')" using Cons.prems(1) rs by simp
  moreover have "distinct ks" "set ks \<subseteq> set (keys (partitions ?t))" using Cons.prems(2,3) unfolding keys by simp_all
  ultimately have
    IH: "\<forall>j \<in> set ks. map_result f (partition_rows ?t j) = Inr (partition_rows t' j)"
    "\<forall>j. j \<notin> set ks \<longrightarrow> partition_rows t' j = partition_rows ?t j"
    "keys (partitions t') = keys (partitions ?t)" "t' = ?t\<lparr>partitions := partitions t'\<rparr>" using Cons.IH [of ?t] by simp_all
  have "k \<notin> set ks" using Cons.prems(2) by simp
  then have "map_result f (partition_rows t j) = Inr (partition_rows t' j)" if "j \<in> set (k # ks)" for j
    using IH(1) [rule_format, of j] IH(2) [rule_format, of k] rs that by (cases "j = k") (simp_all add: get)
  moreover have "\<forall>j. j \<notin> set (k # ks) \<longrightarrow> partition_rows t' j = partition_rows t j" using IH(2) by (simp add: get)
  moreover have "t' = t\<lparr>partitions := partitions t'\<rparr>" by (subst IH(4)) simp
  ultimately show ?case using IH(3) keys by simp
qed simp

lemma rewrite_partitions_all:
  assumes "rewrite_partitions f ord t = (Inr (), t')" and "visits ord t" and "map_ok (partitions t)"
  shows "(\<forall>r \<in> set (table_rows t). f r = Inr (projr (f r))) \<and>
    mset (table_rows t') = image_mset (\<lambda>r. projr (f r)) (mset (table_rows t)) \<and> t' = t\<lparr>partitions := partitions t'\<rparr>"
proof -
  have ord: "distinct ord" "set ord = set (keys (partitions t))" using assms(2) by (simp_all add: visits_def)
  from rewrite_partitions_rows [OF assms(1) ord(1)] ord(2) have
    rows: "\<forall>k \<in> set ord. map_result f (partition_rows t k) = Inr (partition_rows t' k)"
    and keys: "keys (partitions t') = keys (partitions t)" and rest: "t' = t\<lparr>partitions := partitions t'\<rparr>" by auto
  have set: "set (concat (map (partition_rows t) ord)) = set (table_rows t)"
    using visited_rows [OF assms(2,3)] by (metis set_mset_mset)
  have "f r = Inr (projr (f r))" if "r \<in> set (table_rows t)" for r
  proof -
    from that set obtain k where "k \<in> set ord" "r \<in> set (partition_rows t k)" by auto
    with rows map_result_Inr show ?thesis by blast
  qed
  moreover have "map (partition_rows t') ord = map (\<lambda>k. map (\<lambda>r. projr (f r)) (partition_rows t k)) ord"
    using rows map_result_Inr by fastforce
  then have "mset (concat (map (partition_rows t') ord)) = image_mset (\<lambda>r. projr (f r)) (mset (concat (map (partition_rows t) ord)))"
    by (simp only: mset_map [symmetric] map_concat map_map comp_def)
  moreover have "visits ord t'" "map_ok (partitions t')" using assms(2,3) keys by (simp_all only: visits_def map_ok_def)
  ultimately show ?thesis using visited_rows assms(2,3) rest by metis
qed

section \<open>Schemas\<close>

lemma reindex_names:
  "reindex_defaults idx skip i cs = Inr cs' \<Longrightarrow> map (\<lambda>c. c\<lparr>Default := None\<rparr>) cs' = map (\<lambda>c. c\<lparr>Default := None\<rparr>) cs"
  by (induction cs arbitrary: i cs') (auto simp: bindE_eq_Inr_iff split: if_splits)

lemma add_loop_last:
  "length acc + length cs = n \<Longrightarrow> add_loop None new n cs acc idx = (if cs = [] then (acc, idx) else (acc @ cs @ [new], n))"
proof (induction cs arbitrary: acc idx)
  case (Cons c cs)
  show ?case
  proof (cases cs)
    case Nil
    then show ?thesis using Cons.prems by (simp add: Let_def)
  next
    case (Cons d ds)
    then have "length acc + 1 \<noteq> n" "length (acc @ [c]) + length cs = n" using Cons.prems by auto
    then show ?thesis using Cons.IH [of "acc @ [c]" idx] Cons by (simp add: Let_def)
  qed
qed simp

lemma add_loop_none:
  "AfterColumn o' \<notin> Name ` set cs \<Longrightarrow> add_loop (Some o') new n cs acc idx = (acc @ cs, idx)"
  by (induction cs arbitrary: acc) (auto simp: Let_def)

lemma add_loop_after:
  "k < length cs \<Longrightarrow> AfterColumn o' = Name (cs ! k) \<Longrightarrow> distinct (map Name cs) \<Longrightarrow>
   add_loop (Some o') new n cs acc idx = (acc @ insert_at (k + 1) new cs, length acc + k + 1)"
proof (induction cs arbitrary: acc k)
  case (Cons c cs)
  show ?case
  proof (cases k)
    case 0
    then have "AfterColumn o' \<notin> Name ` set cs" using Cons.prems by auto
    then show ?thesis using 0 Cons.prems add_loop_none [of o' cs new n "acc @ [c, new]"] by (simp add: Let_def insert_at_def)
  next
    case (Suc j)
    then have "AfterColumn o' \<noteq> Name c" using Cons.prems by (auto simp: image_iff) (metis nth_mem)
    then show ?thesis using Suc Cons.prems Cons.IH [of j "acc @ [c]"] by (simp add: Let_def insert_at_def)
  qed
qed simp

text \<open>Where a column that is added goes.\<close>

definition place_of :: "ColumnOrder option \<Rightarrow> Schema \<Rightarrow> nat option" where
  "place_of order s = (case order of
     None \<Rightarrow> Some (length s)
   | Some o' \<Rightarrow> if First_order o' then Some 0 else map_option Suc (find_name (AfterColumn o') s 0))"

lemma find_name_Some: "find_name name cs i = Some j \<Longrightarrow> i \<le> j \<and> j - i < length cs \<and> Name (cs ! (j - i)) = name"
proof (induction cs arbitrary: i)
  case (Cons c cs)
  show ?case
  proof (cases "Name c = name")
    case False
    with Cons.prems Cons.IH [of "i + 1"] have "i + 1 \<le> j" "j - (i + 1) < length cs" "Name (cs ! (j - (i + 1))) = name" by auto
    moreover from this have "j - i = Suc (j - (i + 1))" by simp
    ultimately show ?thesis by simp
  qed (use Cons.prems in auto)
qed simp

lemma find_name_nth: "k < length cs \<Longrightarrow> Name (cs ! k) = name \<Longrightarrow> distinct (map Name cs) \<Longrightarrow> find_name name cs i = Some (i + k)"
proof (induction cs arbitrary: i k)
  case (Cons c cs)
  then show ?case
  proof (cases k)
    case (Suc j)
    with Cons.prems have "Name c \<noteq> name" by auto
    with Suc Cons show ?thesis by simp
  qed auto
qed simp

lemma find_name_None: "find_name name cs i = None \<longleftrightarrow> name \<notin> Name ` set cs"
  by (induction cs arbitrary: i) auto

lemma addColumn_place:
  assumes "addColumnToSchema t c order = Inr (idx, t')" and "distinct (map Name (tbl_schema t))"
  shows "place_of order (tbl_schema t) = Some idx \<and> idx \<le> length (tbl_schema t) \<and>
    map Name (tbl_schema t') = insert_at idx (Name c) (map Name (tbl_schema t)) \<and> t' = t\<lparr>tbl_schema := tbl_schema t'\<rparr>"
proof -
  let ?s = "tbl_schema t" and ?new = "c\<lparr>Source := tbl_name t\<rparr>"
  let ?start = "case order of Some o' \<Rightarrow> if First_order o' then [?new] else [] | None \<Rightarrow> []"
  obtain newSch idx' where loop: "add_loop order ?new (length ?s) ?s ?start 0 = (newSch, idx')" by fastforce
  with assms(1) have len: "length newSch = length ?s + 1" and idx: "idx' = idx"
    and sch: "reindex_defaults (\<lambda>name. IndexOf newSch name (tbl_name t)) idx 0 newSch = Inr (tbl_schema t')"
    and t': "t' = t\<lparr>tbl_schema := tbl_schema t'\<rparr>"
    by (auto simp: addColumnToSchema_def Let_def bindE_eq_Inr_iff split: if_splits)
  have names: "map Name (tbl_schema t') = map Name newSch"
    using arg_cong [OF reindex_names [OF sch], of "map Name"] by (simp add: comp_def)
  have "newSch = insert_at idx ?new ?s \<and> place_of order ?s = Some idx \<and> idx \<le> length ?s"
  proof (cases order)
    case None
    then show ?thesis using loop len idx add_loop_last [of "[]" ?s "length ?s" ?new 0]
      by (auto simp: place_of_def insert_at_def split: if_splits)
  next
    case (Some o')
    show ?thesis
    proof (cases "find_name (AfterColumn o') ?s 0")
      case None
      then have "AfterColumn o' \<notin> Name ` set ?s" by (simp add: find_name_None)
      then show ?thesis using loop len idx Some None by (auto simp: add_loop_none place_of_def insert_at_def split: if_splits)
    next
      case k: (Some k)
      with find_name_Some [OF k] have "k < length ?s" "AfterColumn o' = Name (?s ! k)" by auto
      from add_loop_after [OF this assms(2)] show ?thesis using loop len idx Some k
        \<open>k < length ?s\<close> by (auto simp: place_of_def split: if_splits)
    qed
  qed
  with names t' show ?thesis by (simp add: map_insert_at)
qed

lemma drop_loop_spec:
  "drop_loop name cs acc d =
     (acc @ filter (\<lambda>c. Name c \<noteq> name) cs,
      if name \<in> Name ` set cs then int (length acc + length (takeWhile (\<lambda>c. Name c \<noteq> name) cs)) else d)"
  if "distinct (map Name cs)"
  using that
proof (induction cs arbitrary: acc d)
  case (Cons c cs)
  show ?case
  proof (cases "Name c = name")
    case True
    then have "name \<notin> Name ` set cs" using Cons.prems by auto
    then show ?thesis using True Cons by simp
  next
    case False
    then show ?thesis using Cons by auto
  qed
qed simp

lemma filter_name_remove_at:
  "k < length cs \<Longrightarrow> Name (cs ! k) = name \<Longrightarrow> distinct (map Name cs) \<Longrightarrow>
   filter (\<lambda>c. Name c \<noteq> name) cs = remove_at k cs \<and> length (takeWhile (\<lambda>c. Name c \<noteq> name) cs) = k"
proof (induction cs arbitrary: k)
  case (Cons c cs)
  show ?case
  proof (cases k)
    case 0
    then have "name \<notin> Name ` set cs" using Cons.prems by auto
    then have "filter (\<lambda>c. Name c \<noteq> name) cs = cs" by (auto simp: filter_id_conv)
    then show ?thesis using 0 Cons.prems by (simp add: remove_at_def)
  next
    case (Suc j)
    then have "Name c \<noteq> name" using Cons.prems by auto
    then show ?thesis using Suc Cons by (simp add: remove_at_def)
  qed
qed simp

lemma dropColumn_place:
  assumes "dropColumnFromSchema t name = Inr (d, t')" and "distinct (map Name (tbl_schema t))"
  shows "\<exists>k. d = int k \<and> find_name name (tbl_schema t) 0 = Some k \<and> k < length (tbl_schema t) \<and>
    tbl_schema t' = remove_at k (tbl_schema t) \<and> t' = t\<lparr>tbl_schema := tbl_schema t'\<rparr>"
proof -
  let ?s = "tbl_schema t"
  have "name \<in> Name ` set ?s"
  proof (rule ccontr)
    assume "name \<notin> Name ` set ?s"
    moreover from this have "filter (\<lambda>c. Name c \<noteq> name) ?s = ?s" by (auto simp: filter_id_conv)
    ultimately show False using assms by (simp add: dropColumnFromSchema_def drop_loop_spec)
  qed
  then obtain k where k: "k < length ?s" "Name (?s ! k) = name" by (auto simp: in_set_conv_nth)
  with filter_name_remove_at [OF k assms(2)] find_name_nth [OF k assms(2), of 0] assms show ?thesis
    by (auto simp: dropColumnFromSchema_def drop_loop_spec split: if_splits)
qed

section \<open>Properties\<close>

lemma schema_ok_names: "schema_ok tbl s \<Longrightarrow> distinct (map Name s)"
  unfolding schema_ok_def using distinct_map [of ToLower "map Name s"] by (simp add: comp_def)

lemma insert_value_at:
  "idx \<le> length r \<Longrightarrow> insert_value idx d r = bindE (DefaultEval d (insert_at idx VNil r)) (\<lambda>v. Inr (insert_at idx v r))"
  by (simp add: insert_value_def insert_at_def Let_def list_update_append)

lemma AddColumn_rows:
  assumes t: "table_ok t" "visits ord t" and add: "AddColumn ord t c order = (Inr (), t')"
  shows "\<exists>i v. place_of order (tbl_schema t) = Some i \<and>
    map Name (tbl_schema t') = insert_at i (Name c) (map Name (tbl_schema t)) \<and>
    mset (table_rows t') = image_mset (\<lambda>r. insert_at i (v r) r) (mset (table_rows t)) \<and>
    (\<forall>r \<in> set (table_rows t). DefaultEval (Default c) (insert_at i VNil r) = Inr (v r))"
proof -
  have dist: "distinct (map Name (tbl_schema t))" using t(1) schema_ok_names by (auto simp: table_ok_def)
  from add obtain i t1 where i: "addColumnToSchema t c order = Inr (i, t1)"
    "rewrite_partitions (insert_value i (Default c)) ord t1 = (Inr (), t')" by (auto simp: AddColumn_def split: sum.splits)
  from addColumn_place [OF i(1) dist] have place: "place_of order (tbl_schema t) = Some i" "i \<le> length (tbl_schema t)"
    "map Name (tbl_schema t1) = insert_at i (Name c) (map Name (tbl_schema t))" and t1: "t1 = t\<lparr>tbl_schema := tbl_schema t1\<rparr>" by auto
  have "partitions t1 = partitions t" by (subst t1) simp
  then have "visits ord t1" "map_ok (partitions t1)" and rows1: "table_rows t1 = table_rows t"
    using t by (simp_all add: visits_def table_ok_def table_rows_def)
  from rewrite_partitions_all [OF i(2) this(1,2)] rows1 have
    rows: "\<forall>r \<in> set (table_rows t). insert_value i (Default c) r = Inr (projr (insert_value i (Default c) r))"
    "mset (table_rows t') = image_mset (\<lambda>r. projr (insert_value i (Default c) r)) (mset (table_rows t))"
    "t' = t1\<lparr>partitions := partitions t'\<rparr>" by auto
  define v where "v r = projr (DefaultEval (Default c) (insert_at i VNil r))" for r
  have val: "DefaultEval (Default c) (insert_at i VNil r) = Inr (v r) \<and> projr (insert_value i (Default c) r) = insert_at i (v r) r"
    if "r \<in> set (table_rows t)" for r
    using rows(1) [rule_format, OF that] table_row [OF t(1) that] place(2)
    by (auto simp: insert_value_at v_def bindE_eq_Inr_iff)
  have "mset (table_rows t') = image_mset (\<lambda>r. insert_at i (v r) r) (mset (table_rows t))"
    unfolding rows(2) using val by (intro image_mset_cong) auto
  moreover have "tbl_schema t' = tbl_schema t1" by (subst rows(3)) simp
  ultimately show ?thesis using place val by auto
qed

lemma DropColumn_rows:
  assumes t: "table_ok t" "visits ord t" and drop: "DropColumn ord t name = (Inr (), t')"
  shows "\<exists>i. find_name name (tbl_schema t) 0 = Some i \<and> tbl_schema t' = remove_at i (tbl_schema t) \<and>
    mset (table_rows t') = image_mset (remove_at i) (mset (table_rows t))"
proof -
  have dist: "distinct (map Name (tbl_schema t))" using t(1) schema_ok_names by (auto simp: table_ok_def)
  from drop obtain d t1 where d: "dropColumnFromSchema t name = Inr (d, t1)"
    "rewrite_partitions (drop_value d) ord t1 = (Inr (), t')" by (auto simp: DropColumn_def split: sum.splits)
  from dropColumn_place [OF d(1) dist] obtain i where i: "d = int i" "find_name name (tbl_schema t) 0 = Some i"
    "i < length (tbl_schema t)" "tbl_schema t1 = remove_at i (tbl_schema t)" and t1: "t1 = t\<lparr>tbl_schema := tbl_schema t1\<rparr>" by blast
  have "partitions t1 = partitions t" by (subst t1) simp
  then have "visits ord t1" "map_ok (partitions t1)" and rows1: "table_rows t1 = table_rows t"
    using t by (simp_all add: visits_def table_ok_def table_rows_def)
  from rewrite_partitions_all [OF d(2) this(1,2)] rows1 have
    rows: "mset (table_rows t') = image_mset (\<lambda>r. projr (drop_value d r)) (mset (table_rows t))"
    "t' = t1\<lparr>partitions := partitions t'\<rparr>" by auto
  have "mset (table_rows t') = image_mset (remove_at i) (mset (table_rows t))"
    unfolding rows(1) using table_row [OF t(1)] i(3) by (intro image_mset_cong) (auto simp: drop_value_def remove_at_def i(1))
  moreover have "tbl_schema t' = tbl_schema t1" by (subst rows(2)) simp
  ultimately show ?thesis using i by auto
qed

text \<open>The place of a modified column in the rows is that in the schema without the old column.\<close>

lemma modify_place_of:
  assumes "distinct (map Name s)" and "k < length s" and "modify_place s k order = (j, o')" and "place_of (Some o') (remove_at k s) = Some i"
  shows "i = j \<and> j < length s"
proof (cases order)
  case None
  show ?thesis
  proof (cases k)
    case 0
    then show ?thesis using assms None by (auto simp: modify_place_def place_of_def)
  next
    case (Suc m)
    have "distinct (map Name (remove_at k s))" using assms(1)
      by (simp only: map_remove_at distinct_remove_at)
    moreover have "m < length (remove_at k s)" "Name (remove_at k s ! m) = Name (s ! m)"
      using assms(2) Suc by (simp_all add: remove_at_def nth_append)
    ultimately have "find_name (Name (s ! m)) (remove_at k s) 0 = Some m" using find_name_nth by fastforce
    then show ?thesis using assms None Suc by (auto simp: modify_place_def place_of_def)
  qed
next
  case (Some a)
  then show ?thesis using assms find_name_Some [of "AfterColumn o'" "remove_at k s" 0]
    by (auto simp: modify_place_def place_of_def remove_at_def split: if_splits option.splits)
qed

lemma ModifyColumn_rows:
  assumes t: "table_ok t" "visits ord t" and modify: "ModifyColumn ord t name c order = (Inr (), t')"
  shows "\<exists>i j v. find_name name (tbl_schema t) 0 = Some i \<and>
    map Name (tbl_schema t') = insert_at j (Name c) (remove_at i (map Name (tbl_schema t))) \<and>
    mset (table_rows t') = image_mset (\<lambda>r. insert_at j (v r) (remove_at i r)) (mset (table_rows t)) \<and>
    (\<forall>r \<in> set (table_rows t). Convert (ColumnType c) (r ! i) = Inr (v r))"
proof -
  have dist: "distinct (map Name (tbl_schema t))" using t(1) schema_ok_names by (auto simp: table_ok_def)
  from modify obtain i where i: "find_name name (tbl_schema t) 0 = Some i" by (auto simp: ModifyColumn_def split: option.splits)
  obtain j o' where j: "modify_place (tbl_schema t) i order = (j, o')" by fastforce
  from modify i j obtain t1 d t2 k where t1: "rewrite_partitions (modify_value i j c) ord t = (Inr (), t1)"
    and t2: "dropColumnFromSchema t1 name = Inr (d, t2)" and t3: "addColumnToSchema t2 c (Some o') = Inr (k, t')"
    by (auto simp: ModifyColumn_def bindE_eq_Inr_iff split: prod.splits sum.splits)
  have "map_ok (partitions t)" using t(1) by (simp add: table_ok_def)
  from rewrite_partitions_all [OF t1 t(2) this] have
    rows: "\<forall>r \<in> set (table_rows t). modify_value i j c r = Inr (projr (modify_value i j c r))"
    "mset (table_rows t1) = image_mset (\<lambda>r. projr (modify_value i j c r)) (mset (table_rows t))"
    "t1 = t\<lparr>partitions := partitions t1\<rparr>" by auto
  have s1: "tbl_schema t1 = tbl_schema t" by (subst rows(3)) simp
  from dropColumn_place [OF t2] s1 dist i have i': "i < length (tbl_schema t)" "tbl_schema t2 = remove_at i (tbl_schema t)"
    "t2 = t1\<lparr>tbl_schema := tbl_schema t2\<rparr>" by auto
  have dist2: "distinct (map Name (tbl_schema t2))" unfolding i'(2) using dist
    by (simp only: map_remove_at distinct_remove_at)
  from addColumn_place [OF t3 dist2] have t3': "place_of (Some o') (tbl_schema t2) = Some k"
    "map Name (tbl_schema t') = insert_at k (Name c) (map Name (tbl_schema t2))" "t' = t2\<lparr>tbl_schema := tbl_schema t'\<rparr>" by auto
  have kj: "k = j" "j < length (tbl_schema t)" using modify_place_of [OF dist i'(1) j, of k] t3'(1) i'(2) by auto
  have "partitions t' = partitions t1" by (subst t3'(3), subst i'(3)) simp
  then have rows': "table_rows t' = table_rows t1" by (simp add: table_rows_def)
  define v where "v r = projr (Convert (ColumnType c) (r ! i))" for r
  have val: "Convert (ColumnType c) (r ! i) = Inr (v r) \<and> projr (modify_value i j c r) = insert_at j (v r) (remove_at i r)"
    if "r \<in> set (table_rows t)" for r
    using rows(1) [rule_format, OF that] table_row [OF t(1) that] kj(2) i'(1)
    by (auto simp: modify_value_def v_def insert_at_def remove_at_def Let_def bindE_eq_Inr_iff split: if_splits)
  have "mset (table_rows t1) = image_mset (\<lambda>r. insert_at j (v r) (remove_at i r)) (mset (table_rows t))"
    unfolding rows(2) using val by (intro image_mset_cong) auto
  with i val t3'(2) kj(1) i'(2) rows' show ?thesis by (auto simp: map_remove_at)
qed

text \<open>
  If the default value of a new column cannot be evaluated, the table is left with the new schema and the old rows (here with
  one partition; with more, some partitions may be done already).
\<close>

lemma add_column_error_changes_schema:
  assumes "AddColumn [k] t c order = (Inl e, t')" and "addColumnToSchema t c order = Inr (i, t1)"
    and "distinct (map Name (tbl_schema t))"
  shows "table_rows t' = table_rows t \<and> length (tbl_schema t') = length (tbl_schema t) + 1"
proof -
  have t': "t' = t1" using assms(1,2) by (auto simp: AddColumn_def split: sum.splits)
  from addColumn_place [OF assms(2,3)] have le: "i \<le> length (tbl_schema t)" and t1: "t1 = t\<lparr>tbl_schema := tbl_schema t1\<rparr>"
    and names: "map Name (tbl_schema t1) = insert_at i (Name c) (map Name (tbl_schema t))" by auto
  have "partitions t1 = partitions t" by (subst t1) simp
  moreover have "length (tbl_schema t1) = length (tbl_schema t) + 1"
    using arg_cong [OF names, of length] le by simp
  ultimately show ?thesis using t' by (simp add: table_rows_def)
qed

text \<open>C19. ALTER TABLE changes the rows as it changes the schema: adding a column at a place puts its default value at that place of
  every row, dropping a column removes its value from every row, and modifying a column moves and converts its value in
  every row; all other columns keep their values.\<close>

theorem alter_table_keeps_columns:
  assumes "table_ok t" and "visits ord t"
  shows "(AddColumn ord t c order = (Inr (), t') \<longrightarrow>
      (\<exists>i v. place_of order (tbl_schema t) = Some i \<and>
        map Name (tbl_schema t') = insert_at i (Name c) (map Name (tbl_schema t)) \<and>
        mset (table_rows t') = image_mset (\<lambda>r. insert_at i (v r) r) (mset (table_rows t)) \<and>
        (\<forall>r \<in> set (table_rows t). DefaultEval (Default c) (insert_at i VNil r) = Inr (v r)))) \<and>
    (DropColumn ord t name = (Inr (), t') \<longrightarrow>
      (\<exists>i. find_name name (tbl_schema t) 0 = Some i \<and> tbl_schema t' = remove_at i (tbl_schema t) \<and>
        mset (table_rows t') = image_mset (remove_at i) (mset (table_rows t)))) \<and>
    (ModifyColumn ord t name c order = (Inr (), t') \<longrightarrow>
      (\<exists>i j v. find_name name (tbl_schema t) 0 = Some i \<and>
        map Name (tbl_schema t') = insert_at j (Name c) (remove_at i (map Name (tbl_schema t))) \<and>
        mset (table_rows t') = image_mset (\<lambda>r. insert_at j (v r) (remove_at i r)) (mset (table_rows t)) \<and>
        (\<forall>r \<in> set (table_rows t). Convert (ColumnType c) (r ! i) = Inr (v r))))"
  using AddColumn_rows [OF assms] DropColumn_rows [OF assms] ModifyColumn_rows [OF assms] by blast

theorem alter_table_keeps_columns_witness:
  "\<exists>t'. DropColumn [''0''] \<lparr>tbl_name = ''t'', tbl_schema = [id_column, id_column\<lparr>Name := ''x''\<rparr>], tbl_columns = [], tbl_indexes = [],
      tbl_foreignKeys = [], partitions = [(''0'', [[VInt64 1, VInt64 5]])], tbl_keys = [''0''], tbl_insert = 0\<rparr> ''x'' = (Inr (), t') \<and>
    mset (table_rows t') = {#[VInt64 1]#}"
proof -
  let ?t = "\<lparr>tbl_name = ''t'', tbl_schema = [id_column, id_column\<lparr>Name := ''x''\<rparr>], tbl_columns = [], tbl_indexes = [],
      tbl_foreignKeys = [], partitions = [(''0'', [[VInt64 1, VInt64 5]])], tbl_keys = [''0''], tbl_insert = 0\<rparr>"
  have ok: "table_ok ?t" by (simp add: table_ok_def map_ok_def schema_ok_def table_rows_def id_column_def checkRow_def Check_def comparable_def ToLower_def ascii_lower_def)
  have vis: "visits [''0''] ?t" by (simp add: visits_def)
  obtain t' where t': "DropColumn [''0''] ?t ''x'' = (Inr (), t')"
    by (simp add: DropColumn_def dropColumnFromSchema_def id_column_def drop_value_def partition_rows_def)
  from alter_table_keeps_columns [OF ok vis, of _ _ t' "''x''"] t' have
    "\<exists>i. find_name ''x'' (tbl_schema ?t) 0 = Some i \<and> mset (table_rows t') = image_mset (remove_at i) (mset (table_rows ?t))" by blast
  then have "mset (table_rows t') = {#[VInt64 1]#}" by (auto simp: id_column_def table_rows_def remove_at_def)
  with t' show ?thesis by blast
qed

end
