(* ===== verification/Table_Scan.thy ===== *)
theory Table_Scan
  imports Memory_Table Query_Plans
begin

text \<open>
  Reading a table: the iterator over the rows of a partition of a table in memory with its filters, projection and index lookup
  (\<^verbatim>\<open>memory/table.go\<close>, \<^verbatim>\<open>memory/unmergeable_index.go\<close>), and the iterator over the partitions of any table
  (\<^verbatim>\<open>sql/table_iter.go\<close>).
\<close>

section \<open>Index values\<close>

text \<open>
  The values of an index lookup on a partition: the positions of the rows for which the expression of the lookup holds. They
  are collected at the first call; the slice is nil until one is found. The encoding of a position as bytes with
  \<^verbatim>\<open>encoding/gob\<close> and back is left out.
\<close>

record indexValIter =
  iv_rows :: "row list"
  matchExpression :: expr
  iv_values :: "nat list"
  iv_i :: nat

fun match_loop :: "parse_float \<Rightarrow> expr \<Rightarrow> row list \<Rightarrow> nat \<Rightarrow> nat list \<Rightarrow> nat list \<times> sql_error option" where
  "match_loop PF e [] i vals = (vals, None)"
| "match_loop PF e (r # rs) i vals =
     (case EvaluateCondition PF e r of
        Inl err \<Rightarrow> (vals, Some err)
      | Inr ok \<Rightarrow> match_loop PF e rs (i + 1) (if ok then vals @ [i] else vals))"

definition initValues :: "parse_float \<Rightarrow> indexValIter \<Rightarrow> indexValIter \<times> sql_error option" where
  "initValues PF u =
     (if iv_values u = [] then
        (case match_loop PF (matchExpression u) (iv_rows u) 0 [] of (vals, err) \<Rightarrow> (u\<lparr>iv_values := vals\<rparr>, err))
      else (u, None))"

definition indexValIter_Next :: "parse_float \<Rightarrow> indexValIter \<Rightarrow> indexValIter \<times> nat nextres" where
  "indexValIter_Next PF u = (case initValues PF u of
     (u', Some e) \<Rightarrow> (u', NErr e)
   | (u', None) \<Rightarrow>
       if iv_i u' < length (iv_values u') then (u'\<lparr>iv_i := iv_i u' + 1\<rparr>, NRow (iv_values u' ! iv_i u')) else (u', NEOF))"

section \<open>The rows of a partition\<close>

record tableIter =
  ti_columns :: "nat list"
  ti_filters :: "expr list"
  ti_rows :: "row list"
  indexValues :: "indexValIter option"
  ti_pos :: nat

definition projectOnRow :: "nat list \<Rightarrow> row \<Rightarrow> sql_error + row" where
  "projectOnRow columns row =
     (if columns = [] then Inr row
      else if \<exists>c \<in> set columns. c \<ge> length row then Inl (Panic ''index out of range'')
      else Inr (map (\<lambda>c. row ! c) columns))"

definition getRow :: "parse_float \<Rightarrow> tableIter \<Rightarrow> tableIter \<times> row nextres" where
  "getRow PF i = (case indexValues i of
     Some u \<Rightarrow>
       (case indexValIter_Next PF u of (u', res) \<Rightarrow>
          (i\<lparr>indexValues := Some u'\<rparr>,
           (case res of
              NRow pos \<Rightarrow> if pos < length (ti_rows i) then NRow (ti_rows i ! pos) else NErr (Panic ''index out of range'')
            | NEOF \<Rightarrow> NEOF
            | NErr e \<Rightarrow> NErr e)))
   | None \<Rightarrow>
       if ti_pos i \<ge> length (ti_rows i) then (i, NEOF)
       else (i\<lparr>ti_pos := ti_pos i + 1\<rparr>, NRow (ti_rows i ! ti_pos i)))"

text \<open>The filters in turn; a result that is no truth value is false.\<close>

fun pass_filters :: "parse_float \<Rightarrow> expr list \<Rightarrow> row \<Rightarrow> sql_error + bool" where
  "pass_filters PF [] row = Inr True"
| "pass_filters PF (f # fs) row =
     bindE (f row) (\<lambda>v. if ConvertToBool PF v = Inr True then pass_filters PF fs row else Inr False)"

partial_function (option) tableIter_Next :: "parse_float \<Rightarrow> (tableIter, row) nextfun" where
  "tableIter_Next PF i = (case getRow PF i of
     (i', NEOF) \<Rightarrow> Some (i', NEOF)
   | (i', NErr e) \<Rightarrow> Some (i', NErr e)
   | (i', NRow row) \<Rightarrow>
       (case pass_filters PF (ti_filters i') row of
          Inl e \<Rightarrow> Some (i', NErr e)
        | Inr pass \<Rightarrow>
            if \<not> pass then tableIter_Next PF i'
            else Some (i', case projectOnRow (ti_columns i') row of Inl e \<Rightarrow> NErr e | Inr r \<Rightarrow> NRow r)))"

declare tableIter_Next.simps [code]

text \<open>
  \<^verbatim>\<open>PartitionRows\<close> of a table with filters and a projection (a \<^verbatim>\<open>Table\<close> has neither). \<open>lookup\<close> is the expression of the index lookup,
  if there is one.
\<close>

definition PartitionRows :: "MemTable \<Rightarrow> expr list \<Rightarrow> expr option \<Rightarrow> string \<Rightarrow> sql_error + tableIter" where
  "PartitionRows t filters lookup key = (case map_of (partitions t) key of
     None \<Rightarrow> Inl (ErrGeneric ''partition not found'')
   | Some rs \<Rightarrow>
       Inr \<lparr>ti_columns = tbl_columns t, ti_filters = filters, ti_rows = rs,
            indexValues = map_option (\<lambda>e. \<lparr>iv_rows = rs, matchExpression = e, iv_values = [], iv_i = 0\<rparr>) lookup,
            ti_pos = 0\<rparr>)"

section \<open>All partitions\<close>

record partitionIter =
  pi_keys :: "string list"
  pi_pos :: nat

definition partitionIter_Next :: "partitionIter \<Rightarrow> partitionIter \<times> string nextres" where
  "partitionIter_Next p =
     (if pi_pos p \<ge> length (pi_keys p) then (p, NEOF)
      else (p\<lparr>pi_pos := pi_pos p + 1\<rparr>, NRow (pi_keys p ! pi_pos p)))"

record 'i TableRowIter =
  tr_partitions :: partitionIter
  tr_partition :: "string option"
  tr_rows :: "'i option"

definition NewTableRowIter :: "string list \<Rightarrow> 'i TableRowIter" where
  "NewTableRowIter ks = \<lparr>tr_partitions = \<lparr>pi_keys = ks, pi_pos = 0\<rparr>, tr_partition = None, tr_rows = None\<rparr>"

text \<open>The first two steps of \<^verbatim>\<open>Next\<close>: the partition, and its rows. \<open>openp\<close> is \<^verbatim>\<open>PartitionRows\<close> of the table.\<close>

definition next_partition :: "'i TableRowIter \<Rightarrow> 'i TableRowIter \<times> string nextres" where
  "next_partition i = (case tr_partition i of
     Some k \<Rightarrow> (i, NRow k)
   | None \<Rightarrow>
       (case partitionIter_Next (tr_partitions i) of
          (p, NRow k) \<Rightarrow> (i\<lparr>tr_partitions := p, tr_partition := Some k\<rparr>, NRow k)
        | (p, res) \<Rightarrow> (i\<lparr>tr_partitions := p\<rparr>, res)))"

partial_function (option) TableRowIter_Next ::
    "sql_error option \<Rightarrow> (string \<Rightarrow> sql_error + 'i) \<Rightarrow> ('i, row) nextfun \<Rightarrow> ('i \<Rightarrow> sql_error option) \<Rightarrow> ('i TableRowIter, row) nextfun" where
  "TableRowIter_Next ctxErr openp nxt cls i = (case ctxErr of
     Some e \<Rightarrow> Some (i, NErr e)
   | None \<Rightarrow>
       (case next_partition i of
          (i1, NEOF) \<Rightarrow> Some (i1, NEOF)
        | (i1, NErr e) \<Rightarrow> Some (i1, NErr e)
        | (i1, NRow k) \<Rightarrow>
            (case (case tr_rows i1 of Some r \<Rightarrow> Inr r | None \<Rightarrow> openp k) of
               Inl e \<Rightarrow> Some (i1, NErr e)
             | Inr r \<Rightarrow>
                 (case nxt r of
                    None \<Rightarrow> None
                  | Some (r', NEOF) \<Rightarrow>
                      (case cls r' of
                         Some e \<Rightarrow> Some (i1\<lparr>tr_rows := Some r'\<rparr>, NErr e)
                       | None \<Rightarrow> TableRowIter_Next ctxErr openp nxt cls (i1\<lparr>tr_partition := None, tr_rows := None\<rparr>))
                  | Some (r', res) \<Rightarrow> Some (i1\<lparr>tr_rows := Some r'\<rparr>, res)))))"

declare TableRowIter_Next.simps [code]

definition TableRowIter_Close :: "('i \<Rightarrow> sql_error option) \<Rightarrow> 'i TableRowIter \<Rightarrow> sql_error option" where
  "TableRowIter_Close cls i = (case tr_rows i of Some r \<Rightarrow> cls r | None \<Rightarrow> None)"

section \<open>The contract of the partition iterator\<close>

text \<open>The rows that the index or the slice has left.\<close>

definition source_contents :: "parse_float \<Rightarrow> tableIter \<Rightarrow> row todo" where
  "source_contents PF i = (case indexValues i of
     None \<Rightarrow> (drop (ti_pos i) (ti_rows i), None)
   | Some u \<Rightarrow>
       (case initValues PF u of
          (u', Some e) \<Rightarrow> ([], Some e)
        | (u', None) \<Rightarrow> (map (\<lambda>k. ti_rows i ! k) (drop (iv_i u') (iv_values u')), None)))"

definition table_contents :: "parse_float \<Rightarrow> tableIter \<Rightarrow> row todo" where
  "table_contents PF i =
     case_prod (map_rows (projectOnRow (ti_columns i)))
       (case_prod (filter_rows (pass_filters PF (ti_filters i))) (source_contents PF i))"

definition ti_good :: "tableIter \<Rightarrow> bool" where
  "ti_good i = (case indexValues i of
     None \<Rightarrow> True
   | Some u \<Rightarrow> iv_rows u = ti_rows i \<and> (iv_values u = [] \<longrightarrow> iv_i u = 0) \<and> (\<forall>k \<in> set (iv_values u). k < length (ti_rows i)))"

lemma match_loop_bound:
  "match_loop PF e rs i vals = (vals', err) \<Longrightarrow> \<forall>k \<in> set vals. k < n \<Longrightarrow> i + length rs \<le> n \<Longrightarrow> \<forall>k \<in> set vals'. k < n"
proof (induction rs arbitrary: i vals)
  case (Cons r rs)
  show ?case
  proof (cases "EvaluateCondition PF e r")
    case (Inr ok)
    have "\<forall>k \<in> set (if ok then vals @ [i] else vals). k < n" using Cons.prems(2,3) by simp
    then show ?thesis using Cons.IH [of "i + 1" "if ok then vals @ [i] else vals"] Cons.prems(1,3) Inr by simp
  qed (use Cons.prems in simp)
qed simp

lemma getRow_keeps: "ti_good i \<Longrightarrow> keeps (\<lambda>i. Some (getRow PF i)) (source_contents PF) ti_good i \<and>
    ti_columns (fst (getRow PF i)) = ti_columns i \<and> ti_filters (fst (getRow PF i)) = ti_filters i"
proof (cases "indexValues i")
  case None
  then show ?thesis by (auto simp: getRow_def keeps_def source_contents_def ti_good_def cons_row_def Cons_nth_drop_Suc)
next
  case (Some u)
  assume good: "ti_good i"
  obtain u' err where init: "initValues PF u = (u', err)" by fastforce
  have bound: "\<forall>k \<in> set (iv_values u'). k < length (ti_rows i)"
  proof (cases "iv_values u = []")
    case True
    then obtain vals where "match_loop PF (matchExpression u) (iv_rows u) 0 [] = (vals, err)" "iv_values u' = vals"
      using init by (auto simp: initValues_def split: prod.splits)
    with match_loop_bound [of PF "matchExpression u" "iv_rows u" 0 "[]" vals err "length (ti_rows i)"] good Some show ?thesis
      by (simp add: ti_good_def)
  next
    case False
    then show ?thesis using init good Some by (auto simp: initValues_def ti_good_def)
  qed
  have rest: "iv_rows u' = ti_rows i" "iv_values u' = [] \<longrightarrow> iv_i u' = 0"
    using init good Some by (auto simp: initValues_def ti_good_def split: if_splits prod.splits)
  have again: "iv_values u' \<noteq> [] \<Longrightarrow> initValues PF (u'\<lparr>iv_i := k\<rparr>) = (u'\<lparr>iv_i := k\<rparr>, None)" for k by (simp add: initValues_def)
  have empty: "iv_values u' = [] \<Longrightarrow> err = None \<Longrightarrow> initValues PF u' = (u', None)"
    using init by (auto simp: initValues_def split: if_splits prod.splits)
  show ?thesis
  proof (cases err)
    case (Some e)
    then show ?thesis using init \<open>indexValues i = Some u\<close>
      by (simp add: getRow_def indexValIter_Next_def keeps_def source_contents_def)
  next
    case None
    show ?thesis
    proof (cases "iv_i u' < length (iv_values u')")
      case True
      then have ne: "iv_values u' \<noteq> []" by auto
      have "drop (iv_i u') (iv_values u') = iv_values u' ! iv_i u' # drop (iv_i u' + 1) (iv_values u')"
        using True by (simp add: Cons_nth_drop_Suc)
      moreover have "iv_values u' ! iv_i u' < length (ti_rows i)" using bound True by simp
      ultimately show ?thesis using True None init Some again [OF ne] bound rest ne
        by (simp add: getRow_def indexValIter_Next_def keeps_def source_contents_def ti_good_def cons_row_def)
    next
      case False
      have "initValues PF u' = (u', None)" using empty None again [of "iv_i u'"] by (cases "iv_values u' = []") auto
      then show ?thesis using False None init Some bound rest
        by (simp add: getRow_def indexValIter_Next_def keeps_def source_contents_def ti_good_def)
    qed
  qed
qed

interpretation tbl: row_iter "tableIter_Next PF" "table_contents PF" ti_good for PF
proof (rule row_iterI)
  fix i assume "ti_good i"
  then show "keeps (tableIter_Next PF) (table_contents PF) ti_good i"
  proof (induction "length (fst (source_contents PF i))" arbitrary: i rule: less_induct)
    case less
    from getRow_keeps [OF less.prems, of PF] have
      keep: "keeps (\<lambda>i. Some (getRow PF i)) (source_contents PF) ti_good i" and
      same: "ti_columns (fst (getRow PF i)) = ti_columns i" "ti_filters (fst (getRow PF i)) = ti_filters i" by auto
    obtain i' res where get: "getRow PF i = (i', res)" by fastforce
    note same = same [unfolded get fst_conv]
    show ?case
    proof (cases res)
      case (NRow r)
      with keep get have g: "ti_good i'" "source_contents PF i = cons_row r (source_contents PF i')" by (auto simp: keeps_def)
      show ?thesis
      proof (cases "pass_filters PF (ti_filters i) r = Inr False")
        case True
        then have "tableIter_Next PF i = tableIter_Next PF i'" using get NRow same by (subst tableIter_Next.simps) simp
        moreover have "table_contents PF i = table_contents PF i'"
          using g True same by (simp add: table_contents_def cons_row_def split: prod.splits)
        moreover have "keeps (tableIter_Next PF) (table_contents PF) ti_good i'" using less.hyps [of i'] g by simp
        ultimately show ?thesis by (rule keeps_eq)
      next
        case False
        then show ?thesis using get NRow same g unfolding keeps_def
          by (subst tableIter_Next.simps)
            (auto simp: table_contents_def cons_row_def split: sum.splits bool.splits prod.splits)
      qed
    qed (use keep get same in \<open>simp_all add: keeps_def tableIter_Next.simps table_contents_def\<close>)
  qed
qed

section \<open>The contract of the iterator over all partitions\<close>

fun rest_contents :: "(string \<Rightarrow> sql_error + 'i) \<Rightarrow> ('i \<Rightarrow> row todo) \<Rightarrow> string list \<Rightarrow> row todo" where
  "rest_contents openp contents [] = ([], None)"
| "rest_contents openp contents (k # ks) =
     (case openp k of Inl e \<Rightarrow> ([], Some e) | Inr r \<Rightarrow> append_todo (contents r) (rest_contents openp contents ks))"

definition tr_contents :: "(string \<Rightarrow> sql_error + 'i) \<Rightarrow> ('i \<Rightarrow> row todo) \<Rightarrow> 'i TableRowIter \<Rightarrow> row todo" where
  "tr_contents openp contents i =
     (let ks = drop (pi_pos (tr_partitions i)) (pi_keys (tr_partitions i)) in
      case tr_rows i of
        Some r \<Rightarrow> append_todo (contents r) (rest_contents openp contents ks)
      | None \<Rightarrow> rest_contents openp contents (case tr_partition i of Some k \<Rightarrow> k # ks | None \<Rightarrow> ks))"

definition tr_good :: "('i \<Rightarrow> bool) \<Rightarrow> 'i TableRowIter \<Rightarrow> bool" where
  "tr_good good i = (case tr_rows i of Some r \<Rightarrow> good r \<and> tr_partition i \<noteq> None | None \<Rightarrow> True)"

text \<open>What the iterator over partitions needs of a table: its partitions can be read.\<close>

locale partition_scan = row_iter nxt contents good
  for nxt :: "('i, row) nextfun" and contents and good +
  fixes openp :: "string \<Rightarrow> sql_error + 'i" and cls :: "'i \<Rightarrow> sql_error option"
  assumes open_good: "openp k = Inr r \<Longrightarrow> good r" and cls_ok: "cls r = None"
begin

lemma partition_keeps:
  assumes "tr_good good i" and "tr_partition i = Some k"
    and next_part: "keeps (TableRowIter_Next None openp nxt cls) (tr_contents openp contents) (tr_good good)
      (i\<lparr>tr_partition := None, tr_rows := None\<rparr>)"
  shows "keeps (TableRowIter_Next None openp nxt cls) (tr_contents openp contents) (tr_good good) i"
proof -
  let ?nxt = "TableRowIter_Next None openp nxt cls" and ?con = "tr_contents openp contents"
  let ?i = "i\<lparr>tr_partition := None, tr_rows := None\<rparr>"
  let ?ks = "drop (pi_pos (tr_partitions i)) (pi_keys (tr_partitions i))"
  define src where "src = (case tr_rows i of Some r \<Rightarrow> Inr r | None \<Rightarrow> openp k)"
  have step: "?nxt i = (case src of
      Inl e \<Rightarrow> Some (i, NErr e)
    | Inr r \<Rightarrow> (case nxt r of
        None \<Rightarrow> None
      | Some (r', NEOF) \<Rightarrow> ?nxt ?i
      | Some (r', res) \<Rightarrow> Some (i\<lparr>tr_rows := Some r'\<rparr>, res)))"
    using assms(2) by (subst TableRowIter_Next.simps)
      (simp add: next_partition_def src_def cls_ok split: sum.split option.split nextres.split)
  have con: "?con i = (case src of Inl e \<Rightarrow> ([], Some e) | Inr r \<Rightarrow> append_todo (contents r) (rest_contents openp contents ?ks))"
    using assms(2) by (auto simp: tr_contents_def src_def Let_def split: option.splits)
  show ?thesis
  proof (cases src)
    case (Inl e)
    then show ?thesis using step con by (simp add: keeps_def)
  next
    case (Inr r)
    then have "good r" using assms(1) open_good by (auto simp: src_def tr_good_def split: option.splits)
    then show ?thesis
    proof (cases rule: nxt_cases)
      case (Row x rs e r')
      have "?con (i\<lparr>tr_rows := Some r'\<rparr>) = append_todo (contents r') (rest_contents openp contents ?ks)"
        by (simp add: tr_contents_def Let_def)
      moreover have "append_todo (contents r) u = cons_row x (append_todo (contents r') u)" for u
        using Row by (simp add: append_todo_def cons_row_def split: option.splits)
      moreover have "?nxt i = Some (i\<lparr>tr_rows := Some r'\<rparr>, NRow x)" using step Inr Row by simp
      ultimately show ?thesis using con Inr Row assms(2) by (simp add: keeps_def tr_good_def)
    next
      case (EOF r')
      have "?con ?i = rest_contents openp contents ?ks" by (simp add: tr_contents_def Let_def)
      then have "?con i = ?con ?i" using con Inr EOF by simp
      with keeps_eq [OF _ this next_part] show ?thesis using step Inr EOF by simp
    next
      case (Err e r')
      then show ?thesis using step con Inr by (simp add: keeps_def)
    qed
  qed
qed

end

sublocale partition_scan \<subseteq> scan: row_iter "TableRowIter_Next None openp nxt cls" "tr_contents openp contents" "tr_good good"
proof (rule row_iterI)
  fix i :: "'i TableRowIter"
  let ?nxt = "TableRowIter_Next None openp nxt cls" and ?con = "tr_contents openp contents"
  assume "tr_good good i"
  then show "keeps ?nxt ?con (tr_good good) i"
  proof (induction "2 * (length (pi_keys (tr_partitions i)) - pi_pos (tr_partitions i)) + (if tr_partition i = None then 0 else 1)"
      arbitrary: i rule: less_induct)
    case less
    show ?case
    proof (cases "tr_partition i")
      case (Some k)
      then have "keeps ?nxt ?con (tr_good good) (i\<lparr>tr_partition := None, tr_rows := None\<rparr>)"
        by (intro less.hyps) (simp_all add: tr_good_def)
      with less.prems Some show ?thesis by (rule partition_keeps)
    next
      case None
      then have none: "tr_rows i = None" using less.prems by (auto simp: tr_good_def split: option.splits)
      let ?p = "tr_partitions i"
      show ?thesis
      proof (cases "pi_pos ?p \<ge> length (pi_keys ?p)")
        case True
        then have "?nxt i = Some (i, NEOF)"
          using None by (subst TableRowIter_Next.simps) (simp add: next_partition_def partitionIter_Next_def)
        moreover have "?con i = ([], None)" using True None none by (simp add: tr_contents_def Let_def)
        ultimately show ?thesis using less.prems by (simp add: keeps_def)
      next
        case False
        let ?k = "pi_keys ?p ! pi_pos ?p"
        let ?i = "i\<lparr>tr_partitions := ?p\<lparr>pi_pos := pi_pos ?p + 1\<rparr>, tr_partition := Some ?k\<rparr>"
        have drop: "drop (pi_pos ?p) (pi_keys ?p) = ?k # drop (pi_pos ?p + 1) (pi_keys ?p)" using False by (simp add: Cons_nth_drop_Suc)
        have "next_partition i = next_partition ?i"
          using None False by (simp add: next_partition_def partitionIter_Next_def)
        then have "?nxt i = ?nxt ?i"
          using TableRowIter_Next.simps [of None openp nxt cls i] TableRowIter_Next.simps [of None openp nxt cls ?i]
          by (simp only: option.case)
        moreover have "?con i = ?con ?i" using None none drop by (simp add: tr_contents_def Let_def)
        moreover have "keeps ?nxt ?con (tr_good good) ?i"
          using False None none by (intro less.hyps) (simp_all add: tr_good_def)
        ultimately show ?thesis by (rule keeps_eq)
      qed
    qed
  qed
qed

interpretation memscan: partition_scan "tableIter_Next PF" "table_contents PF" ti_good "PartitionRows t filters lookup" "\<lambda>_. None"
  for PF t filters lookup
  by unfold_locales (auto simp: PartitionRows_def ti_good_def split: option.splits)

text \<open>What a scan returns if no filter fails and the projection is within the rows.\<close>

lemma match_loop_total:
  assumes "\<And>r. r \<in> set rs \<Longrightarrow> EvaluateCondition PF e r = Inr (Q r)"
  shows "match_loop PF e rs i vals = (vals @ map (\<lambda>k. i + k) (filter (\<lambda>k. Q (rs ! k)) [0..<length rs]), None)"
  using assms
proof (induction rs arbitrary: i vals)
  case (Cons r rs)
  have upt: "[0..<length (r # rs)] = 0 # map Suc [0..<length rs]" by (simp add: map_Suc_upt upt_conv_Cons del: upt_Suc)
  show ?case unfolding upt using Cons.prems Cons.IH [of "i + 1"] by (simp add: filter_map comp_def)
qed simp

lemma filter_positions: "map (\<lambda>k. rs ! k) (filter (\<lambda>k. Q (rs ! k)) [0..<length rs]) = filter Q rs"
  using filter_map [of Q "\<lambda>k. rs ! k" "[0..<length rs]"] by (simp add: comp_def map_nth)

definition scan_row :: "nat list \<Rightarrow> row \<Rightarrow> row" where
  "scan_row columns r = (if columns = [] then r else map (\<lambda>c. r ! c) columns)"

definition selected :: "(row \<Rightarrow> bool) option \<Rightarrow> row \<Rightarrow> bool" where
  "selected Q r = (case Q of None \<Rightarrow> True | Some q \<Rightarrow> q r)"

lemma selected_simps [simp]: "selected None = (\<lambda>r. True)" "selected (Some q) = q"
  by (auto simp: selected_def)

lemma scan_row_Nil [simp]: "scan_row [] = (\<lambda>r. r)"
  by (auto simp: scan_row_def)

lemma partition_contents:
  assumes "PartitionRows t filters lookup k = Inr i" and "\<And>r. pass_filters PF filters r = Inr (P r)"
    and "\<And>r. r \<in> set (partition_rows t k) \<Longrightarrow> \<forall>c \<in> set (tbl_columns t). c < length r"
    and "rel_option (\<lambda>e q. \<forall>r \<in> set (partition_rows t k). EvaluateCondition PF e r = Inr (q r)) lookup Q"
  shows "table_contents PF i = (map (scan_row (tbl_columns t)) (filter P (filter (selected Q) (partition_rows t k))), None)"
proof -
  let ?rs = "partition_rows t k"
  from assms(1) have i: "ti_columns i = tbl_columns t" "ti_filters i = filters" "ti_rows i = ?rs" "ti_pos i = 0"
    "indexValues i = map_option (\<lambda>e. \<lparr>iv_rows = ?rs, matchExpression = e, iv_values = [], iv_i = 0\<rparr>) lookup"
    by (auto simp: PartitionRows_def partition_rows_def split: option.splits)
  have source: "source_contents PF i = (filter (selected Q) ?rs, None)"
  proof (cases lookup)
    case None
    with assms(4) i show ?thesis by (simp add: source_contents_def)
  next
    case (Some e)
    with assms(4) obtain q where q: "Q = Some q" "\<forall>r \<in> set ?rs. EvaluateCondition PF e r = Inr (q r)" by (cases Q) auto
    from match_loop_total [of ?rs PF e q 0 "[]"] q(2) have
      "match_loop PF e ?rs 0 [] = (filter (\<lambda>k. q (?rs ! k)) [0..<length ?rs], None)" by simp
    then show ?thesis using i Some q(1) filter_positions [where Q = q]
      by (simp add: source_contents_def initValues_def)
  qed
  have "filter_rows (pass_filters PF filters) (filter (selected Q) ?rs) None = (filter P (filter (selected Q) ?rs), None)"
    using assms(2) by (intro filter_rows_total)
  moreover have "map_rows (projectOnRow (tbl_columns t)) (filter P (filter (selected Q) ?rs)) None =
      (map (scan_row (tbl_columns t)) (filter P (filter (selected Q) ?rs)), None)"
    using assms(3) by (intro map_rows_total) (fastforce simp: projectOnRow_def scan_row_def)
  ultimately show ?thesis using source i by (simp add: table_contents_def)
qed

lemma rest_contents_all:
  assumes "\<And>k. k \<in> set ks \<Longrightarrow> \<exists>i. openp k = Inr i \<and> contents i = (f k, None)"
  shows "rest_contents openp contents ks = (concat (map f ks), None)"
  using assms
proof (induction ks)
  case (Cons k ks)
  from Cons.prems [of k] obtain i where "openp k = Inr i" "contents i = (f k, None)" by auto
  with Cons show ?case by (simp add: append_todo_def)
qed simp

text \<open>The partitions without rows are skipped, which makes no difference.\<close>

lemma concat_nonempty_partitions:
  assumes "f [] = []"
  shows "concat (map (\<lambda>k. f (partition_rows t k)) (Partitions t)) = concat (map (\<lambda>k. f (partition_rows t k)) (tbl_keys t))"
proof -
  have "concat (map (\<lambda>k. f (partition_rows t k)) (filter (\<lambda>k. partition_rows t k \<noteq> []) ks)) =
      concat (map (\<lambda>k. f (partition_rows t k)) ks)" for ks
    using assms by (induction ks) auto
  moreover have "Partitions t = filter (\<lambda>k. partition_rows t k \<noteq> []) (tbl_keys t)"
    by (auto simp: Partitions_def partition_rows_def intro!: filter_cong split: option.splits)
  ultimately show ?thesis by simp
qed

lemma scan_start:
  assumes "table_ok t" and "\<And>r. pass_filters PF filters r = Inr (P r)"
    and "rel_option (\<lambda>e q. \<forall>r \<in> set (table_rows t). EvaluateCondition PF e r = Inr (q r)) lookup Q"
  shows "tr_contents (PartitionRows t filters lookup) (table_contents PF) (NewTableRowIter (Partitions t)) =
      (filter P (filter (selected Q) (concat (map (partition_rows t) (tbl_keys t)))), None)"
    and "tr_good ti_good (NewTableRowIter (Partitions t))"
proof -
  have rows: "set (concat (map (partition_rows t) (tbl_keys t))) = set (table_rows t)"
    using visited_rows [OF visits_keys [OF assms(1)]] assms(1) by (metis set_mset_mset table_ok_def)
  have cols: "tbl_columns t = []" using assms(1) by (simp add: table_ok_def)
  let ?f = "\<lambda>rs. filter P (filter (selected Q) rs)"
  have part: "\<exists>i. PartitionRows t filters lookup k = Inr i \<and> table_contents PF i = (?f (partition_rows t k), None)"
    if "k \<in> set (Partitions t)" for k
  proof -
    from that have k: "k \<in> set (tbl_keys t)" "map_of (partitions t) k \<noteq> None" by (auto simp: Partitions_def split: option.splits)
    then obtain i where i: "PartitionRows t filters lookup k = Inr i" by (auto simp: PartitionRows_def split: option.splits)
    have "set (partition_rows t k) \<subseteq> set (table_rows t)" using rows k(1) by auto
    with assms(3) have rel: "rel_option (\<lambda>e q. \<forall>r \<in> set (partition_rows t k). EvaluateCondition PF e r = Inr (q r)) lookup Q"
      by (cases lookup; cases Q) auto
    from partition_contents [OF i assms(2) _ rel] cols i show ?thesis by simp
  qed
  let ?i = "NewTableRowIter (Partitions t) :: tableIter TableRowIter"
  have "tr_contents (PartitionRows t filters lookup) (table_contents PF) ?i =
      (concat (map (\<lambda>k. ?f (partition_rows t k)) (Partitions t)), None)"
    using rest_contents_all [of "Partitions t", OF part] by (simp add: tr_contents_def NewTableRowIter_def)
  also have "concat (map (\<lambda>k. ?f (partition_rows t k)) (Partitions t)) = ?f (concat (map (partition_rows t) (tbl_keys t)))"
    by (subst concat_nonempty_partitions) (simp_all add: filter_concat comp_def)
  finally show "tr_contents (PartitionRows t filters lookup) (table_contents PF) ?i =
      (?f (concat (map (partition_rows t) (tbl_keys t))), None)" .
  show "tr_good ti_good ?i" by (simp add: tr_good_def NewTableRowIter_def)
qed

lemma table_scan:
  assumes "table_ok t" and "\<And>r. pass_filters PF filters r = Inr (P r)"
    and "rel_option (\<lambda>e q. \<forall>r \<in> set (table_rows t). EvaluateCondition PF e r = Inr (q r)) lookup Q"
  shows "RowIterToRows (TableRowIter_Next None (PartitionRows t filters lookup) (tableIter_Next PF) (\<lambda>_. None)) no_close
      (NewTableRowIter (Partitions t)) =
    Some (Inr (filter P (filter (selected Q) (concat (map (partition_rows t) (tbl_keys t))))))"
  using memscan.scan.RowIterToRows_contents [OF scan_start(2) [OF assms], of no_close t filters lookup PF] scan_start(1) [OF assms] by simp

end
