(* ===== verification/Memory_Index.thy ===== *)
theory Memory_Index
  imports Table_Scan Comparison
begin

text \<open>
  The index lookups of tables in memory (\<^verbatim>\<open>memory/mergeable_index.go\<close>, \<^verbatim>\<open>ascend_index.go\<close>, \<^verbatim>\<open>descend_index.go\<close>,
  \<^verbatim>\<open>negative_index.go\<close>, \<^verbatim>\<open>unmergeable_index.go\<close>). A lookup stands for an expression over the columns of its index; the rows it
  returns are those for which the expression is true.
\<close>

section \<open>Lookups\<close>

text \<open>An index has the expressions of its columns with their types.\<close>

type_synonym index = "(expr \<times> sql_type) list"

datatype (plugins only: "size") lookup =
    MergeableIndexLookup index "val list"
  | UnmergeableIndexLookup index "val list"
  | AscendIndexLookup index (Gte: "val list") (Lt: "val list")
  | DescendIndexLookup index (Gt: "val list") (Lte: "val list")
  | NegateIndexLookup lookup
  | MergedIndexLookup (Unions: "lookup list") (Intersections: "lookup list")

text \<open>The lookups an index creates.\<close>

definition index_Get :: "index \<Rightarrow> val list \<Rightarrow> lookup" where
  "index_Get i key = MergeableIndexLookup i key"

definition unmergeable_Get :: "index \<Rightarrow> val list \<Rightarrow> lookup" where
  "unmergeable_Get i key = UnmergeableIndexLookup i key"

definition AscendGreaterOrEqual :: "index \<Rightarrow> val list \<Rightarrow> lookup" where
  "AscendGreaterOrEqual i ks = AscendIndexLookup i ks []"

definition AscendLessThan :: "index \<Rightarrow> val list \<Rightarrow> lookup" where
  "AscendLessThan i ks = AscendIndexLookup i [] ks"

definition AscendRange :: "index \<Rightarrow> val list \<Rightarrow> val list \<Rightarrow> lookup" where
  "AscendRange i gte lt = AscendIndexLookup i gte lt"

definition DescendGreater :: "index \<Rightarrow> val list \<Rightarrow> lookup" where
  "DescendGreater i ks = DescendIndexLookup i ks []"

definition DescendLessOrEqual :: "index \<Rightarrow> val list \<Rightarrow> lookup" where
  "DescendLessOrEqual i ks = DescendIndexLookup i [] ks"

definition DescendRange :: "index \<Rightarrow> val list \<Rightarrow> val list \<Rightarrow> lookup" where
  "DescendRange i lte gt = DescendIndexLookup i gt lte"

definition index_Not :: "index \<Rightarrow> val list \<Rightarrow> lookup" where
  "index_Not i ks = NegateIndexLookup (index_Get i ks)"

text \<open>A lookup can be merged with every lookup that has expressions of its own; an unmergeable one with none.\<close>

definition mergeable :: "lookup \<Rightarrow> bool" where
  "mergeable l = (case l of UnmergeableIndexLookup _ _ \<Rightarrow> False | _ \<Rightarrow> True)"

text \<open>The literal for a key and its type.\<close>

definition getType :: "val \<Rightarrow> sql_error + val \<times> sql_type" where
  "getType v = (case v of
     VInt x \<Rightarrow> Inr (VInt64 x, NumberT QInt64) | VUint x \<Rightarrow> Inr (VInt64 x, NumberT QInt64)
   | VInt8 x \<Rightarrow> Inr (VInt64 (scast x), NumberT QInt64) | VUint8 x \<Rightarrow> Inr (VInt64 (ucast x), NumberT QInt64)
   | VInt16 x \<Rightarrow> Inr (VInt64 (scast x), NumberT QInt64) | VUint16 x \<Rightarrow> Inr (VInt64 (ucast x), NumberT QInt64)
   | VInt32 x \<Rightarrow> Inr (VInt64 (scast x), NumberT QInt64) | VUint32 x \<Rightarrow> Inr (VInt64 (ucast x), NumberT QInt64)
   | VInt64 x \<Rightarrow> Inr (VInt64 x, NumberT QInt64) | VUint64 x \<Rightarrow> Inr (VInt64 x, NumberT QInt64)
   | VFloat32 x \<Rightarrow> Inr (VFloat64 (f64_of_f32 x), NumberT QFloat64) | VFloat64 x \<Rightarrow> Inr (VFloat64 x, NumberT QFloat64)
   | VString s \<Rightarrow> Inr (VString s, LongText)
   | VNil \<Rightarrow> Inr (VNil, NullT)
   | _ \<Rightarrow> Inl (Panic ''Unsupported type''))"

fun and_exprs :: "parse_float \<Rightarrow> expr list \<Rightarrow> sql_error + expr" where
  "and_exprs PF [] = Inl (Panic ''index out of range'')"
| "and_exprs PF [e] = Inr e"
| "and_exprs PF (e # es) = bindE (and_exprs PF es) (\<lambda>r. Inr (And PF e r))"

fun or_exprs :: "parse_float \<Rightarrow> expr list \<Rightarrow> sql_error + expr" where
  "or_exprs PF [] = Inl (Panic ''index out of range'')"
| "or_exprs PF [e] = Inr e"
| "or_exprs PF (e # es) = bindE (or_exprs PF es) (\<lambda>r. Inr (Or PF e r))"

text \<open>A comparison of a column of the index with the literal of a key; \<open>op\<close> is the operator.\<close>

definition key_expr :: "(comparison \<Rightarrow> expr) \<Rightarrow> expr \<times> sql_type \<Rightarrow> val list \<Rightarrow> nat \<Rightarrow> sql_error + expr" where
  "key_expr op col ks i =
     (if i \<ge> length ks then Inl (Panic ''index out of range'')
      else bindE (getType (ks ! i)) (\<lambda>(lit, typ).
        Inr (op \<lparr>c_left = fst col, c_right = (\<lambda>row. Inr lit), c_leftType = snd col, c_rightType = typ\<rparr>)))"

fun key_exprs :: "(comparison \<Rightarrow> expr) \<Rightarrow> index \<Rightarrow> val list \<Rightarrow> nat \<Rightarrow> sql_error + expr list" where
  "key_exprs op [] ks i = Inr []"
| "key_exprs op (col # cols) ks i =
     bindE (key_expr op col ks i) (\<lambda>e. bindE (key_exprs op cols ks (i + 1)) (\<lambda>es. Inr (e # es)))"

text \<open>The bounds of a range for every column: the upper bound first, then the lower bound.\<close>

fun range_exprs :: "(comparison \<Rightarrow> expr) \<Rightarrow> (comparison \<Rightarrow> expr) \<Rightarrow> index \<Rightarrow> val list \<Rightarrow> val list \<Rightarrow> nat \<Rightarrow> sql_error + expr list" where
  "range_exprs lo hi [] los his i = Inr []"
| "range_exprs lo hi (col # cols) los his i =
     bindE (if his = [] then Inr [] else bindE (key_expr hi col his i) (\<lambda>e. Inr [e])) (\<lambda>h.
     bindE (if los = [] then Inr [] else bindE (key_expr lo col los i) (\<lambda>e. Inr [e])) (\<lambda>l.
       if h = [] \<and> l = [] then Inl (Panic ''Either Lt or Gte must be set'')
       else bindE (range_exprs lo hi cols los his (i + 1)) (\<lambda>es. Inr (h @ l @ es))))"

fun collect_exprs :: "(sql_error + expr) list \<Rightarrow> sql_error + expr list" where
  "collect_exprs [] = Inr []"
| "collect_exprs (r # rs) = bindE r (\<lambda>e. bindE (collect_exprs rs) (\<lambda>es. Inr (e # es)))"

text \<open>
  The expression of a lookup; a nil slice of intersections is an empty one. An unmergeable lookup has no such method, so the
  type assertion on a part of a merged lookup fails for it.
\<close>

fun EvalExpression :: "typelib \<Rightarrow> (string \<Rightarrow> sql_error option) \<Rightarrow> parse_float \<Rightarrow> lookup \<Rightarrow> sql_error + expr" where
  "EvalExpression T U PF (MergeableIndexLookup ix ks) = bindE (key_exprs (EqualsEval T U) ix ks 0) (and_exprs PF)"
| "EvalExpression T U PF (UnmergeableIndexLookup ix ks) = Inl (Panic ''interface conversion'')"
| "EvalExpression T U PF (AscendIndexLookup ix gte lt) =
     bindE (range_exprs (GreaterThanOrEqualEval T U) (LessThanEval T U) ix gte lt 0) (and_exprs PF)"
| "EvalExpression T U PF (DescendIndexLookup ix gt lte) =
     bindE (range_exprs (GreaterThanEval T U) (LessThanOrEqualEval T U) ix gt lte 0) (and_exprs PF)"
| "EvalExpression T U PF (NegateIndexLookup l) = bindE (EvalExpression T U PF l) (\<lambda>e. Inr (Not PF e))"
| "EvalExpression T U PF (MergedIndexLookup us is) =
     (if is \<noteq> [] then bindE (collect_exprs (map (EvalExpression T U PF) is)) (and_exprs PF)
      else if us \<noteq> [] then bindE (collect_exprs (map (EvalExpression T U PF) us)) (or_exprs PF)
      else Inl (Panic ''either Unions or Intersections must be non-nil''))"

text \<open>The expression that \<^verbatim>\<open>Values\<close> gives to the iterator of a lookup.\<close>

definition match_expression :: "typelib \<Rightarrow> (string \<Rightarrow> sql_error option) \<Rightarrow> parse_float \<Rightarrow> lookup \<Rightarrow> sql_error + expr" where
  "match_expression T U PF l = (case l of
     UnmergeableIndexLookup ix ks \<Rightarrow> bindE (key_exprs (EqualsEval T U) ix ks 0) (and_exprs PF)
   | _ \<Rightarrow> EvalExpression T U PF l)"

definition union :: "lookup \<Rightarrow> lookup list \<Rightarrow> lookup" where
  "union left lookups =
     MergedIndexLookup (concat (map (\<lambda>l. case l of MergedIndexLookup us is \<Rightarrow> if us \<noteq> [] then us else [l] | _ \<Rightarrow> [l]) (left # lookups))) []"

definition intersection :: "lookup \<Rightarrow> lookup list \<Rightarrow> lookup" where
  "intersection left lookups =
     MergedIndexLookup [] (concat (map (\<lambda>l. case l of MergedIndexLookup us is \<Rightarrow> if is \<noteq> [] then is else [l] | _ \<Rightarrow> [l]) (left # lookups)))"

section \<open>Truth values\<close>

definition tv :: "bool option \<Rightarrow> val" where
  "tv t = (case t of None \<Rightarrow> VNil | Some b \<Rightarrow> VBool b)"

lemma tv_simps [simp]: "tv None = VNil" "tv (Some b) = VBool b" "tv t = VNil \<longleftrightarrow> t = None" "tv t = VBool b \<longleftrightarrow> t = Some b"
  by (auto simp: tv_def split: option.splits)

lemma is_truth_tv [simp]: "is_false PF (tv t) \<longleftrightarrow> t = Some False" "is_true PF (tv t) \<longleftrightarrow> t = Some True"
  by (auto simp: is_false_def is_true_def ConvertToBool_def tv_def split: option.splits)

definition all3 :: "bool option list \<Rightarrow> bool option" where
  "all3 ts = (if Some False \<in> set ts then Some False else if None \<in> set ts then None else Some True)"

text \<open>An expression with a truth value.\<close>

definition has_truth :: "expr \<Rightarrow> row \<Rightarrow> bool option \<Rightarrow> bool" where
  "has_truth e r t \<longleftrightarrow> e r = Inr (tv t)"

lemma truth_condition: "has_truth e r t \<Longrightarrow> EvaluateCondition PF e r = Inr (t = Some True)"
  by (cases t) (auto simp: has_truth_def EvaluateCondition_def)

lemma truth_Not: "has_truth e r t \<Longrightarrow> has_truth (Not PF e) r (map_option HOL.Not t)"
  by (cases t) (auto simp: has_truth_def Not_def)

lemma and_exprs_defined: "es \<noteq> [] \<Longrightarrow> \<exists>e. and_exprs PF es = Inr e"
  by (induction PF es rule: and_exprs.induct) auto

lemma and_exprs_truth:
  assumes "es \<noteq> []" and "list_all2 (\<lambda>e t. has_truth e r t) es ts"
  shows "\<exists>e. and_exprs PF es = Inr e \<and> has_truth e r (all3 ts)"
  using assms
proof (induction PF es arbitrary: ts rule: and_exprs.induct)
  case (2 PF e)
  then obtain t where "ts = [t]" "has_truth e r t" by (auto simp: list_all2_Cons1)
  then show ?case by (cases t rule: option.exhaust; cases "the t") (auto simp: all3_def)
next
  case (3 PF e e' es)
  then obtain t ts' where ts: "ts = t # ts'" "has_truth e r t" "list_all2 (\<lambda>e t. has_truth e r t) (e' # es) ts'"
    by (auto simp: list_all2_Cons1)
  from 3(1) [OF _ ts(3)] obtain a where a: "and_exprs PF (e' # es) = Inr a" "has_truth a r (all3 ts')" by auto
  have "has_truth (And PF e a) r (all3 ts)" using a(2) ts(1,2)
    by (auto simp: has_truth_def And_def all3_def split: if_splits)
  with a(1) show ?case by simp
qed simp

lemma or_exprs_truth:
  assumes "es \<noteq> []" and "list_all2 (\<lambda>e t. has_truth e r t) es ts"
  shows "\<exists>e t. or_exprs PF es = Inr e \<and> has_truth e r t \<and> (t = Some True \<longleftrightarrow> Some True \<in> set ts)"
  using assms
proof (induction PF es arbitrary: ts rule: or_exprs.induct)
  case (2 PF e)
  then obtain t where "ts = [t]" "has_truth e r t" by (auto simp: list_all2_Cons1)
  then show ?case by auto
next
  case (3 PF e e' es)
  then obtain t ts' where ts: "ts = t # ts'" "has_truth e r t" "list_all2 (\<lambda>e t. has_truth e r t) (e' # es) ts'"
    by (auto simp: list_all2_Cons1)
  from 3(1) [OF _ ts(3)] obtain a u where a: "or_exprs PF (e' # es) = Inr a" "has_truth a r u" "u = Some True \<longleftrightarrow> Some True \<in> set ts'" by auto
  define v where "v = (if t = Some True \<or> u = Some True then Some True else if t = None \<and> u = None then None else Some False)"
  have "has_truth (Or PF e a) r v" using a(2) ts(2) by (auto simp: has_truth_def Or_def v_def)
  moreover have "v = Some True \<longleftrightarrow> Some True \<in> set ts" using a(3) ts(1) by (auto simp: v_def)
  ultimately show ?case using a(1) by auto
qed simp

lemma all3_True: "all3 ts = Some True \<longleftrightarrow> (\<forall>t \<in> set ts. t = Some True)"
  by (auto simp: all3_def) (metis (full_types) not_Some_eq)

lemma all3_False: "all3 ts = Some False \<longleftrightarrow> Some False \<in> set ts"
  by (auto simp: all3_def)

section \<open>Lookups of integers\<close>

text \<open>The number in a column of an index, nothing if it is NULL, and the number of a key.\<close>

definition cell :: "expr \<times> sql_type \<Rightarrow> row \<Rightarrow> int option" where
  "cell col r = (case fst col r of Inr v \<Rightarrow> val_int v | Inl _ \<Rightarrow> None)"

definition key_num :: "val \<Rightarrow> int" where
  "key_num k = the (val_int k)"

definition col_ok :: "row \<Rightarrow> expr \<times> sql_type \<Rightarrow> bool" where
  "col_ok r col \<longleftrightarrow> (\<exists>q v. snd col = NumberT q \<and> fst col r = Inr v \<and> (v = VNil \<or> (\<exists>n. in_range q n \<and> n < 2 ^ 63 \<and> v = int_val q n)))"

definition key_ok :: "val \<Rightarrow> bool" where
  "key_ok k \<longleftrightarrow> (\<exists>n. val_int k = Some n \<and> n < 2 ^ 63)"

definition keys_ok :: "index \<Rightarrow> val list \<Rightarrow> bool" where
  "keys_ok ix ks \<longleftrightarrow> length ks = length ix \<and> list_all key_ok ks"

text \<open>The rows a lookup is meant to return. Only equality lookups are negated.\<close>

fun matches :: "lookup \<Rightarrow> row \<Rightarrow> bool" where
  "matches (MergeableIndexLookup ix ks) r \<longleftrightarrow> (\<forall>i < length ix. cell (ix ! i) r = Some (key_num (ks ! i)))"
| "matches (UnmergeableIndexLookup ix ks) r \<longleftrightarrow> (\<forall>i < length ix. cell (ix ! i) r = Some (key_num (ks ! i)))"
| "matches (AscendIndexLookup ix gte lt) r \<longleftrightarrow> (\<forall>i < length ix. \<exists>n. cell (ix ! i) r = Some n \<and>
     (gte \<noteq> [] \<longrightarrow> key_num (gte ! i) \<le> n) \<and> (lt \<noteq> [] \<longrightarrow> n < key_num (lt ! i)))"
| "matches (DescendIndexLookup ix gt lte) r \<longleftrightarrow> (\<forall>i < length ix. \<exists>n. cell (ix ! i) r = Some n \<and>
     (gt \<noteq> [] \<longrightarrow> key_num (gt ! i) < n) \<and> (lte \<noteq> [] \<longrightarrow> n \<le> key_num (lte ! i)))"
| "matches (NegateIndexLookup l) r \<longleftrightarrow> (case l of
     MergeableIndexLookup ix ks \<Rightarrow> \<exists>i < length ix. \<exists>n. cell (ix ! i) r = Some n \<and> n \<noteq> key_num (ks ! i)
   | _ \<Rightarrow> False)"
| "matches (MergedIndexLookup us is) r \<longleftrightarrow>
     (if is \<noteq> [] then \<forall>l \<in> set is. matches l r else \<exists>l \<in> set us. matches l r)"

fun lookup_ok :: "row set \<Rightarrow> lookup \<Rightarrow> bool" where
  "lookup_ok R (MergeableIndexLookup ix ks) \<longleftrightarrow> ix \<noteq> [] \<and> (\<forall>r \<in> R. list_all (col_ok r) ix) \<and> keys_ok ix ks"
| "lookup_ok R (UnmergeableIndexLookup ix ks) \<longleftrightarrow> ix \<noteq> [] \<and> (\<forall>r \<in> R. list_all (col_ok r) ix) \<and> keys_ok ix ks"
| "lookup_ok R (AscendIndexLookup ix gte lt) \<longleftrightarrow> ix \<noteq> [] \<and> (\<forall>r \<in> R. list_all (col_ok r) ix) \<and>
     (gte \<noteq> [] \<or> lt \<noteq> []) \<and> (gte = [] \<or> keys_ok ix gte) \<and> (lt = [] \<or> keys_ok ix lt)"
| "lookup_ok R (DescendIndexLookup ix gt lte) \<longleftrightarrow> ix \<noteq> [] \<and> (\<forall>r \<in> R. list_all (col_ok r) ix) \<and>
     (gt \<noteq> [] \<or> lte \<noteq> []) \<and> (gt = [] \<or> keys_ok ix gt) \<and> (lte = [] \<or> keys_ok ix lte)"
| "lookup_ok R (NegateIndexLookup l) \<longleftrightarrow> (case l of MergeableIndexLookup ix ks \<Rightarrow> lookup_ok R l | _ \<Rightarrow> False)"
| "lookup_ok R (MergedIndexLookup us is) \<longleftrightarrow> (us = []) \<noteq> (is = []) \<and> (\<forall>l \<in> set (us @ is). mergeable l \<and> lookup_ok R l)"

lemma getType_int: "val_int k = Some n \<Longrightarrow> getType k = Inr (int_val QInt64 n, NumberT QInt64)"
  by (auto simp: val_int_def getType_def int_val_def split: val.splits)

text \<open>An operator that decides \<open>P\<close> on numbers and is NULL on NULL.\<close>

definition int_op :: "typelib \<Rightarrow> (string \<Rightarrow> sql_error option) \<Rightarrow> (comparison \<Rightarrow> expr) \<Rightarrow> (int \<Rightarrow> int \<Rightarrow> bool) \<Rightarrow> bool" where
  "int_op T U op P \<longleftrightarrow>
     (\<forall>c row n m. Compare T U c row = Inr (compare_by n m) \<longrightarrow> op c row = Inr (VBool (P n m))) \<and>
     (\<forall>c row. Compare T U c row = Inl ErrNilOperand \<longrightarrow> op c row = Inr VNil)"

lemma int_ops:
  "int_op T U (EqualsEval T U) (\<lambda>n m. n = m)" "int_op T U (LessThanEval T U) (\<lambda>n m. n < m)"
  "int_op T U (GreaterThanEval T U) (\<lambda>n m. m < n)" "int_op T U (LessThanOrEqualEval T U) (\<lambda>n m. n \<le> m)"
  "int_op T U (GreaterThanOrEqualEval T U) (\<lambda>n m. m \<le> n)"
  by (auto simp: int_op_def operator_defs compare_by_def)

lemma key_expr_truth:
  assumes "cast_ok (lib T)" and "int_op T U op P" and "i < length ks" and "key_ok (ks ! i)"
  shows "\<exists>e. key_expr op col ks i = Inr e \<and>
    (\<forall>r. col_ok r col \<longrightarrow> has_truth e r (map_option (\<lambda>n. P n (key_num (ks ! i))) (cell col r)))"
proof -
  obtain k where k: "val_int (ks ! i) = Some k" "k < 2 ^ 63" using assms(4) by (auto simp: key_ok_def)
  let ?c = "\<lparr>c_left = fst col, c_right = (\<lambda>row. Inr (int_val QInt64 k)), c_leftType = snd col, c_rightType = NumberT QInt64\<rparr>"
  have e: "key_expr op col ks i = Inr (op ?c)" using assms(3) getType_int [OF k(1)] by (simp add: key_expr_def)
  have range: "in_range QInt64 k" using val_int_bounds [OF k(1)] k(2) by (simp add: in_range_def int_range_def)
  have "has_truth (op ?c) r (map_option (\<lambda>n. P n k) (cell col r))" if "col_ok r col" for r
  proof -
    from that obtain q v where q: "snd col = NumberT q" "fst col r = Inr v"
      and v: "v = VNil \<or> (\<exists>n. in_range q n \<and> n < 2 ^ 63 \<and> v = int_val q n)" by (auto simp: col_ok_def)
    from v show ?thesis
    proof (elim disjE exE conjE)
      assume "v = VNil"
      then have "Compare T U ?c r = Inl ErrNilOperand" "cell col r = None"
        using q by (simp_all add: Compare_def evalLeftAndRight_def cell_def val_int_def)
      then show ?thesis using assms(2) by (simp add: int_op_def has_truth_def)
    next
      fix n assume n: "in_range q n" "n < 2 ^ 63" "v = int_val q n"
      have "ints_compare q QInt64 n k" using n(2) k(2) by (auto simp: ints_compare_def IsSigned_def)
      from Compare_int [OF assms(1) n(1) range this, of ?c r U] q n(3)
      have "Compare T U ?c r = Inr (compare_by n k)" by simp
      moreover have "cell col r = Some n" using q n(3) val_int_int_val [OF n(1)] by (simp add: cell_def)
      ultimately show ?thesis using assms(2) by (simp add: int_op_def has_truth_def)
    qed
  qed
  then show ?thesis using e k(1) by (auto simp: key_num_def)
qed

lemma key_exprs_truth:
  assumes "cast_ok (lib T)" and "int_op T U op P" and "length ks = i + length ix" and "list_all key_ok ks"
  shows "\<exists>es. key_exprs op ix ks i = Inr es \<and> length es = length ix \<and> (\<forall>r. list_all (col_ok r) ix \<longrightarrow>
    list_all2 (\<lambda>e t. has_truth e r t) es (map (\<lambda>j. map_option (\<lambda>n. P n (key_num (ks ! (i + j)))) (cell (ix ! j) r)) [0..<length ix]))"
  using assms(3)
proof (induction ix arbitrary: i)
  case (Cons col cols)
  have "i < length ks" using Cons.prems by simp
  moreover from this have "key_ok (ks ! i)" using assms(4) by (simp add: list_all_length)
  ultimately obtain e where e: "key_expr op col ks i = Inr e"
    "\<forall>r. col_ok r col \<longrightarrow> has_truth e r (map_option (\<lambda>n. P n (key_num (ks ! i))) (cell col r))"
    using key_expr_truth [OF assms(1,2)] by blast
  have "length ks = (i + 1) + length cols" using Cons.prems by simp
  from Cons.IH [OF this] obtain es where es: "key_exprs op cols ks (i + 1) = Inr es" "length es = length cols"
    "\<forall>r. list_all (col_ok r) cols \<longrightarrow> list_all2 (\<lambda>e t. has_truth e r t) es
      (map (\<lambda>j. map_option (\<lambda>n. P n (key_num (ks ! (i + 1 + j)))) (cell (cols ! j) r)) [0..<length cols])" by blast
  have upt: "[0..<length (col # cols)] = 0 # map Suc [0..<length cols]" by (simp add: map_Suc_upt upt_conv_Cons del: upt_Suc)
  show ?case unfolding upt using e es by (intro exI [of _ "e # es"]) (simp add: comp_def)
qed simp

text \<open>The conditions of one bound on a column: none, if the bound is not set.\<close>

lemma bound_truth:
  assumes "cast_ok (lib T)" and "int_op T U op P" and "ks = [] \<or> length ks = n \<and> list_all key_ok ks" and "i < n"
  shows "\<exists>es. (if ks = [] then Inr [] else bindE (key_expr op col ks i) (\<lambda>e. Inr [e])) = Inr es \<and> (es = [] \<longleftrightarrow> ks = []) \<and>
    (\<forall>r. col_ok r col \<longrightarrow> (\<exists>ts. list_all2 (\<lambda>e t. has_truth e r t) es ts \<and>
      ((\<forall>t \<in> set ts. t = Some True) \<longleftrightarrow> (ks \<noteq> [] \<longrightarrow> (\<exists>x. cell col r = Some x \<and> P x (key_num (ks ! i)))))))"
proof (cases "ks = []")
  case False
  then have "i < length ks" "key_ok (ks ! i)" using assms(3,4) by (auto simp: list_all_length)
  then obtain e where e: "key_expr op col ks i = Inr e"
    "\<forall>r. col_ok r col \<longrightarrow> has_truth e r (map_option (\<lambda>n. P n (key_num (ks ! i))) (cell col r))"
    using key_expr_truth [OF assms(1,2)] by blast
  have "\<exists>ts. list_all2 (\<lambda>e t. has_truth e r t) [e] ts \<and>
      ((\<forall>t \<in> set ts. t = Some True) \<longleftrightarrow> (\<exists>x. cell col r = Some x \<and> P x (key_num (ks ! i))))" if "col_ok r col" for r
    using e(2) that by (intro exI [of _ "[map_option (\<lambda>n. P n (key_num (ks ! i))) (cell col r)]"]) auto
  with False e(1) show ?thesis by (intro exI [of _ "[e]"]) auto
qed auto

lemma range_exprs_truth:
  assumes "cast_ok (lib T)" and "int_op T U lo L" and "int_op T U hi H" and "los \<noteq> [] \<or> his \<noteq> []"
    and "los = [] \<or> length los = n \<and> list_all key_ok los" and "his = [] \<or> length his = n \<and> list_all key_ok his"
    and "i + length ix = n"
  shows "\<exists>es. range_exprs lo hi ix los his i = Inr es \<and> (ix \<noteq> [] \<longrightarrow> es \<noteq> []) \<and>
    (\<forall>r. list_all (col_ok r) ix \<longrightarrow> (\<exists>ts. list_all2 (\<lambda>e t. has_truth e r t) es ts \<and>
      ((\<forall>t \<in> set ts. t = Some True) \<longleftrightarrow> (\<forall>j < length ix. \<exists>x. cell (ix ! j) r = Some x \<and>
        (los \<noteq> [] \<longrightarrow> L x (key_num (los ! (i + j)))) \<and> (his \<noteq> [] \<longrightarrow> H x (key_num (his ! (i + j))))))))"
  using assms(7)
proof (induction ix arbitrary: i)
  case (Cons col cols)
  have i: "i < n" using Cons.prems by simp
  obtain h where h: "(if his = [] then Inr [] else bindE (key_expr hi col his i) (\<lambda>e. Inr [e])) = Inr h" "h = [] \<longleftrightarrow> his = []"
    "\<forall>r. col_ok r col \<longrightarrow> (\<exists>ts. list_all2 (\<lambda>e t. has_truth e r t) h ts \<and>
      ((\<forall>t \<in> set ts. t = Some True) \<longleftrightarrow> (his \<noteq> [] \<longrightarrow> (\<exists>x. cell col r = Some x \<and> H x (key_num (his ! i))))))"
    using bound_truth [OF assms(1,3,6) i, of col] by (elim exE conjE)
  obtain l where l: "(if los = [] then Inr [] else bindE (key_expr lo col los i) (\<lambda>e. Inr [e])) = Inr l" "l = [] \<longleftrightarrow> los = []"
    "\<forall>r. col_ok r col \<longrightarrow> (\<exists>ts. list_all2 (\<lambda>e t. has_truth e r t) l ts \<and>
      ((\<forall>t \<in> set ts. t = Some True) \<longleftrightarrow> (los \<noteq> [] \<longrightarrow> (\<exists>x. cell col r = Some x \<and> L x (key_num (los ! i))))))"
    using bound_truth [OF assms(1,2,5) i, of col] by (elim exE conjE)
  have "(i + 1) + length cols = n" using Cons.prems by simp
  from Cons.IH [OF this] obtain es where es: "range_exprs lo hi cols los his (i + 1) = Inr es"
    "\<forall>r. list_all (col_ok r) cols \<longrightarrow> (\<exists>ts. list_all2 (\<lambda>e t. has_truth e r t) es ts \<and>
      ((\<forall>t \<in> set ts. t = Some True) \<longleftrightarrow> (\<forall>j < length cols. \<exists>x. cell (cols ! j) r = Some x \<and>
        (los \<noteq> [] \<longrightarrow> L x (key_num (los ! (i + 1 + j)))) \<and> (his \<noteq> [] \<longrightarrow> H x (key_num (his ! (i + 1 + j)))))))" by (elim exE conjE)
  have ne: "\<not> (h = [] \<and> l = [])" using h(2) l(2) assms(4) by blast
  have eq: "range_exprs lo hi (col # cols) los his i = Inr (h @ l @ es)" using h(1) l(1) es(1) ne by simp
  show ?case
  proof (intro exI [of _ "h @ l @ es"] conjI allI impI)
    fix r assume r: "list_all (col_ok r) (col # cols)"
    then have ok: "col_ok r col" "list_all (col_ok r) cols" by simp_all
    obtain t1 where t1: "list_all2 (\<lambda>e t. has_truth e r t) h t1"
      "(\<forall>t \<in> set t1. t = Some True) \<longleftrightarrow> (his \<noteq> [] \<longrightarrow> (\<exists>x. cell col r = Some x \<and> H x (key_num (his ! i))))"
      using h(3) [rule_format, OF ok(1)] by (elim exE conjE)
    obtain t2 where t2: "list_all2 (\<lambda>e t. has_truth e r t) l t2"
      "(\<forall>t \<in> set t2. t = Some True) \<longleftrightarrow> (los \<noteq> [] \<longrightarrow> (\<exists>x. cell col r = Some x \<and> L x (key_num (los ! i))))"
      using l(3) [rule_format, OF ok(1)] by (elim exE conjE)
    obtain t3 where t3: "list_all2 (\<lambda>e t. has_truth e r t) es t3"
      "(\<forall>t \<in> set t3. t = Some True) \<longleftrightarrow> (\<forall>j < length cols. \<exists>x. cell (cols ! j) r = Some x \<and>
        (los \<noteq> [] \<longrightarrow> L x (key_num (los ! (i + 1 + j)))) \<and> (his \<noteq> [] \<longrightarrow> H x (key_num (his ! (i + 1 + j)))))"
      using es(2) [rule_format, OF ok(2)] by (elim exE conjE)
    have split: "(\<forall>j < length (col # cols). Q j) \<longleftrightarrow> Q 0 \<and> (\<forall>j < length cols. Q (j + 1))" for Q :: "nat \<Rightarrow> bool"
      by (simp add: All_less_Suc2)
    show "\<exists>ts. list_all2 (\<lambda>e t. has_truth e r t) (h @ l @ es) ts \<and>
      ((\<forall>t \<in> set ts. t = Some True) \<longleftrightarrow> (\<forall>j < length (col # cols). \<exists>x. cell ((col # cols) ! j) r = Some x \<and>
        (los \<noteq> [] \<longrightarrow> L x (key_num (los ! (i + j)))) \<and> (his \<noteq> [] \<longrightarrow> H x (key_num (his ! (i + j))))))"
    proof (intro exI [of _ "t1 @ t2 @ t3"] conjI)
      show "list_all2 (\<lambda>e t. has_truth e r t) (h @ l @ es) (t1 @ t2 @ t3)"
        using t1(1) t2(1) t3(1) by (intro list_all2_appendI)
      have "(\<forall>t \<in> set (t1 @ t2 @ t3). t = Some True) \<longleftrightarrow>
          (\<forall>t \<in> set t1. t = Some True) \<and> (\<forall>t \<in> set t2. t = Some True) \<and> (\<forall>t \<in> set t3. t = Some True)" by auto
      also have "\<dots> \<longleftrightarrow> (\<exists>x. cell col r = Some x \<and> (los \<noteq> [] \<longrightarrow> L x (key_num (los ! i))) \<and> (his \<noteq> [] \<longrightarrow> H x (key_num (his ! i)))) \<and>
          (\<forall>t \<in> set t3. t = Some True)"
        unfolding t1(2) t2(2) using assms(4) by (cases "cell col r") auto
      finally show "(\<forall>t \<in> set (t1 @ t2 @ t3). t = Some True) \<longleftrightarrow>
          (\<forall>j < length (col # cols). \<exists>x. cell ((col # cols) ! j) r = Some x \<and>
            (los \<noteq> [] \<longrightarrow> L x (key_num (los ! (i + j)))) \<and> (his \<noteq> [] \<longrightarrow> H x (key_num (his ! (i + j)))))"
        unfolding t3(2) split by (simp add: add.assoc)
    qed
  next
    show "range_exprs lo hi (col # cols) los his i = Inr (h @ l @ es)" by (rule eq)
    show "h @ l @ es \<noteq> []" using ne by auto
  qed
qed simp

text \<open>A lookup has an expression that is true on the rows it is meant to return, and a negated one on those it is not.\<close>

lemma equality_truth:
  assumes "cast_ok (lib T)" and "ix \<noteq> []" and "keys_ok ix ks"
  shows "\<exists>e. bindE (key_exprs (EqualsEval T U) ix ks 0) (and_exprs PF) = Inr e \<and>
    (\<forall>r. list_all (col_ok r) ix \<longrightarrow> (\<exists>t. has_truth e r t \<and>
      (t = Some True \<longleftrightarrow> (\<forall>i < length ix. cell (ix ! i) r = Some (key_num (ks ! i)))) \<and>
      (t = Some False \<longleftrightarrow> (\<exists>i < length ix. \<exists>n. cell (ix ! i) r = Some n \<and> n \<noteq> key_num (ks ! i)))))"
proof -
  have ks: "length ks = 0 + length ix" "list_all key_ok ks" using assms(3) by (simp_all add: keys_ok_def)
  let ?ts = "\<lambda>r. map (\<lambda>j. map_option (\<lambda>n. n = key_num (ks ! (0 + j))) (cell (ix ! j) r)) [0..<length ix]"
  from key_exprs_truth [OF assms(1) int_ops(1) [of T U] ks] obtain es where
    es: "key_exprs (EqualsEval T U) ix ks 0 = Inr es" "length es = length ix"
    "\<forall>r. list_all (col_ok r) ix \<longrightarrow> list_all2 (\<lambda>e t. has_truth e r t) es (?ts r)" by blast
  then have ne: "es \<noteq> []" using assms(2) by auto
  then obtain e where e: "and_exprs PF es = Inr e" using and_exprs_defined by blast
  have "has_truth e r (all3 (?ts r))" if "list_all (col_ok r) ix" for r
    using and_exprs_truth [OF ne es(3) [rule_format, OF that], of PF] e by auto
  moreover have "all3 (?ts r) = Some True \<longleftrightarrow> (\<forall>i < length ix. cell (ix ! i) r = Some (key_num (ks ! i)))" for r
    by (auto simp: all3_True)
  moreover have "all3 (?ts r) = Some False \<longleftrightarrow> (\<exists>i < length ix. \<exists>n. cell (ix ! i) r = Some n \<and> n \<noteq> key_num (ks ! i))" for r
    unfolding all3_False set_map image_iff eq_commute [of "Some False"] map_option_eq_Some by auto
  ultimately show ?thesis using es(1) e by (intro exI [of _ e] conjI allI impI exI [of _ "all3 (?ts _)"]) simp_all
qed

lemma range_truth:
  assumes "cast_ok (lib T)" and "int_op T U lo L" and "int_op T U hi H" and "ix \<noteq> []" and "los \<noteq> [] \<or> his \<noteq> []"
    and "los = [] \<or> keys_ok ix los" and "his = [] \<or> keys_ok ix his"
  shows "\<exists>e. bindE (range_exprs lo hi ix los his 0) (and_exprs PF) = Inr e \<and>
    (\<forall>r. list_all (col_ok r) ix \<longrightarrow> (\<exists>t. has_truth e r t \<and>
      (t = Some True \<longleftrightarrow> (\<forall>i < length ix. \<exists>n. cell (ix ! i) r = Some n \<and>
        (los \<noteq> [] \<longrightarrow> L n (key_num (los ! i))) \<and> (his \<noteq> [] \<longrightarrow> H n (key_num (his ! i)))))))"
proof -
  have ks: "los = [] \<or> length los = length ix \<and> list_all key_ok los" "his = [] \<or> length his = length ix \<and> list_all key_ok his"
    using assms(6,7) by (auto simp: keys_ok_def)
  from range_exprs_truth [OF assms(1-3,5) ks, of 0 ix] assms(4) obtain es where
    es: "range_exprs lo hi ix los his 0 = Inr es" "es \<noteq> []"
    "\<forall>r. list_all (col_ok r) ix \<longrightarrow> (\<exists>ts. list_all2 (\<lambda>e t. has_truth e r t) es ts \<and>
      ((\<forall>t \<in> set ts. t = Some True) \<longleftrightarrow> (\<forall>j < length ix. \<exists>x. cell (ix ! j) r = Some x \<and>
        (los \<noteq> [] \<longrightarrow> L x (key_num (los ! (0 + j)))) \<and> (his \<noteq> [] \<longrightarrow> H x (key_num (his ! (0 + j)))))))" by auto
  obtain e where e: "and_exprs PF es = Inr e" using and_exprs_defined [OF es(2)] by blast
  have "\<exists>t. has_truth e r t \<and> (t = Some True \<longleftrightarrow> (\<forall>i < length ix. \<exists>n. cell (ix ! i) r = Some n \<and>
        (los \<noteq> [] \<longrightarrow> L n (key_num (los ! i))) \<and> (his \<noteq> [] \<longrightarrow> H n (key_num (his ! i)))))" if "list_all (col_ok r) ix" for r
  proof -
    from es(3) that obtain ts where ts: "list_all2 (\<lambda>e t. has_truth e r t) es ts"
      "(\<forall>t \<in> set ts. t = Some True) \<longleftrightarrow> (\<forall>j < length ix. \<exists>x. cell (ix ! j) r = Some x \<and>
        (los \<noteq> [] \<longrightarrow> L x (key_num (los ! (0 + j)))) \<and> (his \<noteq> [] \<longrightarrow> H x (key_num (his ! (0 + j)))))" by blast
    from and_exprs_truth [OF es(2) ts(1), of PF] e have "has_truth e r (all3 ts)" by auto
    with ts(2) show ?thesis by (intro exI [of _ "all3 ts"]) (simp add: all3_True)
  qed
  with es(1) e show ?thesis by (intro exI [of _ e]) simp
qed

lemma collect_exprs_all:
  "\<forall>l \<in> set ls. \<exists>e. f l = Inr e \<and> Q l e \<Longrightarrow> \<exists>es. collect_exprs (map f ls) = Inr es \<and> list_all2 Q ls es"
  by (induction ls) auto

text \<open>The expression of a lookup is true exactly on the rows it is meant to return.\<close>

definition lookup_expr :: "row set \<Rightarrow> lookup \<Rightarrow> expr \<Rightarrow> bool" where
  "lookup_expr R l e \<longleftrightarrow> (\<forall>r \<in> R. \<exists>t. has_truth e r t \<and> (t = Some True \<longleftrightarrow> matches l r))"

lemma merged_truths:
  assumes "list_all2 (lookup_expr R) ls es" and "r \<in> R"
  shows "\<exists>ts. list_all2 (\<lambda>e t. has_truth e r t) es ts \<and> map (\<lambda>t. t = Some True) ts = map (\<lambda>l. matches l r) ls"
  using assms(1)
proof (induction rule: list_all2_induct)
  case (Cons l ls e es)
  from Cons(1) assms(2) obtain t where "has_truth e r t" "t = Some True \<longleftrightarrow> matches l r" by (auto simp: lookup_expr_def)
  moreover from Cons(3) obtain ts where "list_all2 (\<lambda>e t. has_truth e r t) es ts" "map (\<lambda>t. t = Some True) ts = map (\<lambda>l. matches l r) ls"
    by blast
  ultimately show ?case by (intro exI [of _ "t # ts"]) simp
qed simp

lemma map_True_iff:
  "map (\<lambda>t. t = Some True) ts = map P ls \<Longrightarrow> (\<forall>t \<in> set ts. t = Some True) \<longleftrightarrow> (\<forall>l \<in> set ls. P l)"
  "map (\<lambda>t. t = Some True) ts = map P ls \<Longrightarrow> Some True \<in> set ts \<longleftrightarrow> (\<exists>l \<in> set ls. P l)"
proof -
  assume eq: "map (\<lambda>t. t = Some True) ts = map P ls"
  then have "set (map (\<lambda>t. t = Some True) ts) = set (map P ls)" by simp
  then have img: "(\<lambda>t. t = Some True) ` set ts = P ` set ls" by simp
  have "(\<forall>t \<in> set ts. t = Some True) \<longleftrightarrow> False \<notin> (\<lambda>t. t = Some True) ` set ts" by auto
  then show "(\<forall>t \<in> set ts. t = Some True) \<longleftrightarrow> (\<forall>l \<in> set ls. P l)" unfolding img by auto
  have "Some True \<in> set ts \<longleftrightarrow> True \<in> (\<lambda>t. t = Some True) ` set ts" by auto
  then show "Some True \<in> set ts \<longleftrightarrow> (\<exists>l \<in> set ls. P l)" unfolding img by auto
qed

lemma lookup_expr_merged:
  assumes "ls \<noteq> []" and "list_all2 (lookup_expr R) ls es"
  shows "\<exists>e. and_exprs PF es = Inr e \<and> lookup_expr R (MergedIndexLookup [] ls) e"
    and "\<exists>e. or_exprs PF es = Inr e \<and> lookup_expr R (MergedIndexLookup ls []) e"
proof -
  have ne: "es \<noteq> []" using assms by auto
  then obtain a where a: "and_exprs PF es = Inr a" using and_exprs_defined by blast
  have "\<exists>t. has_truth a r t \<and> (t = Some True \<longleftrightarrow> (\<forall>l \<in> set ls. matches l r))" if r: "r \<in> R" for r
  proof -
    from merged_truths [OF assms(2) r] obtain ts where ts: "list_all2 (\<lambda>e t. has_truth e r t) es ts"
      "map (\<lambda>t. t = Some True) ts = map (\<lambda>l. matches l r) ls" by blast
    from and_exprs_truth [OF ne ts(1), of PF] a have "has_truth a r (all3 ts)" by auto
    then show ?thesis using map_True_iff(1) [OF ts(2)] by (intro exI [of _ "all3 ts"]) (simp add: all3_True)
  qed
  then show "\<exists>e. and_exprs PF es = Inr e \<and> lookup_expr R (MergedIndexLookup [] ls) e"
    using a assms(1) by (auto simp: lookup_expr_def)
  have "\<exists>o'. or_exprs PF es = Inr o'" using ne by (induction PF es rule: or_exprs.induct) auto
  then obtain o' where o': "or_exprs PF es = Inr o'" ..
  have "\<exists>t. has_truth o' r t \<and> (t = Some True \<longleftrightarrow> (\<exists>l \<in> set ls. matches l r))" if r: "r \<in> R" for r
  proof -
    from merged_truths [OF assms(2) r] obtain ts where ts: "list_all2 (\<lambda>e t. has_truth e r t) es ts"
      "map (\<lambda>t. t = Some True) ts = map (\<lambda>l. matches l r) ls" by blast
    from or_exprs_truth [OF ne ts(1), of PF] o' obtain t where "has_truth o' r t" "t = Some True \<longleftrightarrow> Some True \<in> set ts" by auto
    then show ?thesis using map_True_iff(2) [OF ts(2)] by auto
  qed
  then show "\<exists>e. or_exprs PF es = Inr e \<and> lookup_expr R (MergedIndexLookup ls []) e"
    using o' by (auto simp: lookup_expr_def)
qed

lemma equality_lookup:
  assumes "cast_ok (lib T)" and "ix \<noteq> []" and "keys_ok ix ks" and "\<forall>r \<in> R. list_all (col_ok r) ix"
  shows "\<exists>e. bindE (key_exprs (EqualsEval T U) ix ks 0) (and_exprs PF) = Inr e \<and>
    lookup_expr R (MergeableIndexLookup ix ks) e \<and> lookup_expr R (UnmergeableIndexLookup ix ks) e"
proof -
  from equality_truth [OF assms(1-3), of U PF] obtain e where
    e: "bindE (key_exprs (EqualsEval T U) ix ks 0) (and_exprs PF) = Inr e"
    "\<forall>r. list_all (col_ok r) ix \<longrightarrow> (\<exists>t. has_truth e r t \<and>
      (t = Some True \<longleftrightarrow> (\<forall>i < length ix. cell (ix ! i) r = Some (key_num (ks ! i)))) \<and>
      (t = Some False \<longleftrightarrow> (\<exists>i < length ix. \<exists>n. cell (ix ! i) r = Some n \<and> n \<noteq> key_num (ks ! i))))" by (elim exE conjE)
  have "\<exists>t. has_truth e r t \<and> (t = Some True \<longleftrightarrow> (\<forall>i < length ix. cell (ix ! i) r = Some (key_num (ks ! i))))"
    if "r \<in> R" for r
    using e(2) [rule_format, OF assms(4) [rule_format, OF that]] by (elim exE conjE) (intro exI conjI)
  then show ?thesis using e(1) by (simp add: lookup_expr_def)
qed

lemma range_lookup:
  assumes "\<exists>e. E = Inr e \<and> (\<forall>r. list_all (col_ok r) ix \<longrightarrow> (\<exists>t. has_truth e r t \<and> (t = Some True \<longleftrightarrow> P r)))"
    and "\<forall>r \<in> R. list_all (col_ok r) ix" and "\<And>r. matches l r \<longleftrightarrow> P r"
  shows "\<exists>e. E = Inr e \<and> lookup_expr R l e"
  using assms by (auto simp: lookup_expr_def)

lemma lookup_truth:
  assumes "cast_ok (lib T)" and "lookup_ok R l" and "mergeable l"
  shows "\<exists>e. EvalExpression T U PF l = Inr e \<and> lookup_expr R l e"
  using assms(2,3)
proof (induction l)
  case (MergeableIndexLookup ix ks)
  then have "ix \<noteq> []" "keys_ok ix ks" "\<forall>r \<in> R. list_all (col_ok r) ix" by simp_all
  from equality_lookup [OF assms(1) this, of U PF] show ?case by auto
next
  case (UnmergeableIndexLookup ix ks)
  then show ?case by (simp add: mergeable_def)
next
  case (AscendIndexLookup ix gte lt)
  then have ok: "ix \<noteq> []" "gte \<noteq> [] \<or> lt \<noteq> []" "gte = [] \<or> keys_ok ix gte" "lt = [] \<or> keys_ok ix lt"
    and "\<forall>r \<in> R. list_all (col_ok r) ix" by simp_all
  from range_lookup [OF range_truth [OF assms(1) int_ops(5,2) ok, of U PF] this(5), of "AscendIndexLookup ix gte lt"]
  show ?case by (simp only: EvalExpression.simps matches.simps simp_thms)
next
  case (DescendIndexLookup ix gt lte)
  then have ok: "ix \<noteq> []" "gt \<noteq> [] \<or> lte \<noteq> []" "gt = [] \<or> keys_ok ix gt" "lte = [] \<or> keys_ok ix lte"
    and "\<forall>r \<in> R. list_all (col_ok r) ix" by simp_all
  from range_lookup [OF range_truth [OF assms(1) int_ops(3,4) ok, of U PF] this(5), of "DescendIndexLookup ix gt lte"]
  show ?case by (simp only: EvalExpression.simps matches.simps simp_thms)
next
  case (NegateIndexLookup l)
  then obtain ix ks where l: "l = MergeableIndexLookup ix ks" "ix \<noteq> []" "keys_ok ix ks" "\<forall>r \<in> R. list_all (col_ok r) ix"
    by (auto split: lookup.splits)
  from equality_truth [OF assms(1) l(2,3), of U PF] obtain e where
    e: "bindE (key_exprs (EqualsEval T U) ix ks 0) (and_exprs PF) = Inr e"
    "\<forall>r. list_all (col_ok r) ix \<longrightarrow> (\<exists>t. has_truth e r t \<and>
      (t = Some True \<longleftrightarrow> (\<forall>i < length ix. cell (ix ! i) r = Some (key_num (ks ! i)))) \<and>
      (t = Some False \<longleftrightarrow> (\<exists>i < length ix. \<exists>n. cell (ix ! i) r = Some n \<and> n \<noteq> key_num (ks ! i))))" by (elim exE conjE)
  have "\<exists>t. has_truth (Not PF e) r t \<and> (t = Some True \<longleftrightarrow> matches (NegateIndexLookup l) r)" if r: "r \<in> R" for r
  proof -
    from e(2) r l(4) obtain t where t: "has_truth e r t"
      "t = Some False \<longleftrightarrow> (\<exists>i < length ix. \<exists>n. cell (ix ! i) r = Some n \<and> n \<noteq> key_num (ks ! i))" by blast
    have "map_option HOL.Not t = Some True \<longleftrightarrow> t = Some False" by auto
    with truth_Not [OF t(1), of PF] t(2) l(1) show ?thesis by (intro exI [of _ "map_option HOL.Not t"]) simp
  qed
  then show ?case using e(1) l(1) by (simp add: lookup_expr_def)
next
  case (MergedIndexLookup us "is")
  then have all: "\<forall>l \<in> set us. \<exists>e. EvalExpression T U PF l = Inr e \<and> lookup_expr R l e"
    "\<forall>l \<in> set is. \<exists>e. EvalExpression T U PF l = Inr e \<and> lookup_expr R l e" by auto
  show ?case
  proof (cases "is = []")
    case True
    with MergedIndexLookup.prems have us: "us \<noteq> []" by simp
    from collect_exprs_all [OF all(1)] obtain es where es: "collect_exprs (map (EvalExpression T U PF) us) = Inr es"
      "list_all2 (lookup_expr R) us es" by blast
    from lookup_expr_merged(2) [OF us es(2), of PF] es(1) True us show ?thesis by auto
  next
    case False
    with MergedIndexLookup.prems have us: "us = []" by simp
    from collect_exprs_all [OF all(2)] obtain es where es: "collect_exprs (map (EvalExpression T U PF) is) = Inr es"
      "list_all2 (lookup_expr R) is es" by blast
    from lookup_expr_merged(1) [OF False es(2), of PF] es(1) False us show ?thesis by auto
  qed
qed

lemma match_expression_truth:
  assumes "cast_ok (lib T)" and "lookup_ok R l"
  shows "\<exists>e. match_expression T U PF l = Inr e \<and> lookup_expr R l e"
proof (cases "mergeable l")
  case True
  then have "match_expression T U PF l = EvalExpression T U PF l"
    by (auto simp: mergeable_def match_expression_def split: lookup.splits)
  with lookup_truth [OF assms True, of U PF] show ?thesis by simp
next
  case False
  then obtain ix ks where l: "l = UnmergeableIndexLookup ix ks" by (auto simp: mergeable_def split: lookup.splits)
  with assms(2) have "ix \<noteq> []" "keys_ok ix ks" "\<forall>r \<in> R. list_all (col_ok r) ix" by simp_all
  from equality_lookup [OF assms(1) this, of U PF] show ?thesis by (auto simp: l match_expression_def)
qed

section \<open>Merging lookups\<close>

lemma concat_map_all:
  assumes "\<forall>l \<in> set L. (\<forall>x \<in> set (g l). P x) \<longleftrightarrow> Q l"
  shows "(\<forall>x \<in> set (concat (map g L)). P x) \<longleftrightarrow> (\<forall>l \<in> set L. Q l)"
  using assms by simp

lemma concat_map_ex:
  assumes "\<forall>l \<in> set L. (\<exists>x \<in> set (g l). P x) \<longleftrightarrow> Q l"
  shows "(\<exists>x \<in> set (concat (map g L)). P x) \<longleftrightarrow> (\<exists>l \<in> set L. Q l)"
  using assms by simp

lemma concat_map_Cons_ne: "g l \<noteq> [] \<Longrightarrow> concat (map g (l # ls)) \<noteq> []"
  by simp

lemma merge_parts:
  fixes l :: lookup
  assumes "mergeable l" and "lookup_ok R l"
  defines "i \<equiv> (case l of MergedIndexLookup us is \<Rightarrow> if is \<noteq> [] then is else [l] | _ \<Rightarrow> [l])"
    and "u \<equiv> (case l of MergedIndexLookup us is \<Rightarrow> if us \<noteq> [] then us else [l] | _ \<Rightarrow> [l])"
  shows "i \<noteq> []" and "u \<noteq> []"
    and "(\<forall>x \<in> set i. matches x r) \<longleftrightarrow> matches l r" and "(\<exists>x \<in> set u. matches x r) \<longleftrightarrow> matches l r"
    and "\<forall>x \<in> set i. mergeable x \<and> lookup_ok R x" and "\<forall>x \<in> set u. mergeable x \<and> lookup_ok R x"
proof -
  consider (merged) us "is" where "l = MergedIndexLookup us is" | (other) "i = [l]" "u = [l]"
    by (cases l) (simp_all add: i_def u_def)
  then have "i \<noteq> [] \<and> u \<noteq> [] \<and> ((\<forall>x \<in> set i. matches x r) \<longleftrightarrow> matches l r) \<and> ((\<exists>x \<in> set u. matches x r) \<longleftrightarrow> matches l r) \<and>
      (\<forall>x \<in> set i. mergeable x \<and> lookup_ok R x) \<and> (\<forall>x \<in> set u. mergeable x \<and> lookup_ok R x)"
  proof cases
    case merged
    then have "i = (if is \<noteq> [] then is else [l])" "u = (if us \<noteq> [] then us else [l])" by (simp_all add: i_def u_def)
    then show ?thesis
      using assms(1,2) merged by (cases "us = []"; cases "is = []") simp_all
  next
    case other
    then show ?thesis
      using assms(1,2) by simp
  qed
  then show "i \<noteq> []" and "u \<noteq> []"
    and "(\<forall>x \<in> set i. matches x r) \<longleftrightarrow> matches l r" and "(\<exists>x \<in> set u. matches x r) \<longleftrightarrow> matches l r"
    and "\<forall>x \<in> set i. mergeable x \<and> lookup_ok R x" and "\<forall>x \<in> set u. mergeable x \<and> lookup_ok R x"
    by simp_all
qed

lemma matches_intersection:
  assumes "\<forall>l \<in> set (left # ls). mergeable l \<and> lookup_ok R l"
  shows "matches (intersection left ls) r \<longleftrightarrow> (\<forall>l \<in> set (left # ls). matches l r)"
    and "lookup_ok R (intersection left ls)"
proof -
  let ?f = "\<lambda>l. case l of MergedIndexLookup us is \<Rightarrow> if is \<noteq> [] then is else [l] | _ \<Rightarrow> [l]"
  have ne: "concat (map ?f (left # ls)) \<noteq> []"
    using assms by (intro concat_map_Cons_ne merge_parts(1) [of _ R]) simp_all
  have "\<forall>l \<in> set (left # ls). (\<forall>x \<in> set (?f l). matches x r) \<longleftrightarrow> matches l r"
    using assms merge_parts(3) by blast
  from concat_map_all [OF this] ne show "matches (intersection left ls) r \<longleftrightarrow> (\<forall>l \<in> set (left # ls). matches l r)"
    by (simp only: intersection_def matches.simps if_not_P if_True simp_thms not_not if_False)
  have "\<forall>l \<in> set (left # ls). (\<forall>x \<in> set (?f l). mergeable x \<and> lookup_ok R x) \<longleftrightarrow> True"
    using assms merge_parts(5) by blast
  from concat_map_all [OF this] ne show "lookup_ok R (intersection left ls)"
    by (simp only: intersection_def lookup_ok.simps append.simps simp_thms ball_triv)
qed

lemma matches_union:
  assumes "\<forall>l \<in> set (left # ls). mergeable l \<and> lookup_ok R l"
  shows "matches (union left ls) r \<longleftrightarrow> (\<exists>l \<in> set (left # ls). matches l r)"
    and "lookup_ok R (union left ls)"
proof -
  let ?f = "\<lambda>l. case l of MergedIndexLookup us is \<Rightarrow> if us \<noteq> [] then us else [l] | _ \<Rightarrow> [l]"
  have ne: "concat (map ?f (left # ls)) \<noteq> []"
    using assms by (intro concat_map_Cons_ne merge_parts(2) [of _ R]) simp_all
  have "\<forall>l \<in> set (left # ls). (\<exists>x \<in> set (?f l). matches x r) \<longleftrightarrow> matches l r"
    using assms merge_parts(4) by blast
  from concat_map_ex [OF this] show "matches (union left ls) r \<longleftrightarrow> (\<exists>l \<in> set (left # ls). matches l r)"
    by (simp only: union_def matches.simps if_False simp_thms)
  have "\<forall>l \<in> set (left # ls). (\<forall>x \<in> set (?f l). mergeable x \<and> lookup_ok R x) \<longleftrightarrow> True"
    using assms merge_parts(6) by blast
  from concat_map_all [OF this] ne show "lookup_ok R (union left ls)"
    by (simp only: union_def lookup_ok.simps append_Nil2 simp_thms ball_triv)
qed

section \<open>Properties\<close>

text \<open>Reading a table through a lookup.\<close>

definition index_scan ::
    "typelib \<Rightarrow> (string \<Rightarrow> sql_error option) \<Rightarrow> parse_float \<Rightarrow> MemTable \<Rightarrow> lookup \<Rightarrow> (sql_error + row list) option" where
  "index_scan T U PF t l = (case match_expression T U PF l of
     Inl e \<Rightarrow> Some (Inl e)
   | Inr e \<Rightarrow> RowIterToRows (TableRowIter_Next None (PartitionRows t [] (Some e)) (tableIter_Next PF) (\<lambda>_. None)) no_close
       (NewTableRowIter (Partitions t)))"

lemma index_scan_matches:
  assumes "cast_ok (lib T)" and "table_ok t" and "lookup_ok (set (table_rows t)) l"
  shows "index_scan T U PF t l = Some (Inr (filter (matches l) (concat (map (partition_rows t) (tbl_keys t)))))"
proof -
  from match_expression_truth [OF assms(1,3), of U PF] obtain e where e: "match_expression T U PF l = Inr e"
    "lookup_expr (set (table_rows t)) l e" by (elim exE conjE)
  have "EvaluateCondition PF e r = Inr (matches l r)" if r: "r \<in> set (table_rows t)" for r
  proof -
    from e(2) r obtain tr where "has_truth e r tr" "tr = Some True \<longleftrightarrow> matches l r" by (auto simp: lookup_expr_def)
    then show ?thesis using truth_condition [of e r tr PF] by simp
  qed
  then have "rel_option (\<lambda>e q. \<forall>r \<in> set (table_rows t). EvaluateCondition PF e r = Inr (q r)) (Some e) (Some (matches l))" by simp
  from table_scan [OF assms(2) _ this, of "[]" "\<lambda>_. True"] e(1) show ?thesis by (simp add: index_scan_def)
qed



end
