(* ===== verification/Dml_Iters.thy ===== *)
theory Dml_Iters
  imports Table_Scan
begin

text \<open>
  The iterators of INSERT, REPLACE, UPDATE and DELETE (\<^verbatim>\<open>sql/plan/insert.go\<close>, \<^verbatim>\<open>update.go\<close>, \<^verbatim>\<open>update_source.go\<close>, \<^verbatim>\<open>delete.go\<close>,
  \<^verbatim>\<open>row_update_accumulator.go\<close>, \<^verbatim>\<open>sql/expression/set.go\<close>).

  These iterators change the table they read from. The state of the table is a component \<open>'w\<close> of their own state, and the
  iterators they read from take it as an argument: a row source has a next function \<open>'w \<Rightarrow> ('s, row) nextfun\<close>. The editors
  of the table are functions on \<open>'w\<close>.
\<close>

section \<open>SET\<close>

text \<open>An update expression returns a value of any type; \<^const>\<open>Inr\<close> is a row.\<close>

type_synonym update_expr = "row \<Rightarrow> sql_error + (val + row)"

definition SetField_Eval :: "ColType \<Rightarrow> colexpr \<Rightarrow> expr \<Rightarrow> update_expr" where
  "SetField_Eval fieldType left right row = (case left of
     GetField i name \<Rightarrow>
       if i < 0 \<or> i \<ge> int (length row) then Inl (ErrNew ''ErrIndexOutOfBounds'' name)
       else bindE (right row) (\<lambda>v.
         bindE (if v = VNil then Inr v else Convert fieldType v) (\<lambda>v'.
           Inr (Inr (row[nat i := v']))))
   | Node _ _ \<Rightarrow> Inl (ErrNew ''errCannotSetField'' []))"

fun applyUpdateExpressions :: "update_expr list \<Rightarrow> row \<Rightarrow> sql_error + row" where
  "applyUpdateExpressions [] prev = Inr prev"
| "applyUpdateExpressions (e # es) prev =
     bindE (e prev) (\<lambda>v. case v of
       Inl _ \<Rightarrow> Inl (ErrNew ''ErrUpdateUnexpectedSetResult'' [])
     | Inr prev' \<Rightarrow> applyUpdateExpressions es prev')"

text \<open>Rows can be longer than the schema, with the values of outer scopes in front.\<close>

definition last_columns :: "nat \<Rightarrow> row \<Rightarrow> row" where
  "last_columns n row = (if n < length row then drop (length row - n) row else row)"

definition schema_equals :: "Schema \<Rightarrow> row \<Rightarrow> row \<Rightarrow> sql_error + bool" where
  "schema_equals schema = Row_Equals TypeCompare (map ColumnType schema)"

definition old_half :: "row \<Rightarrow> row" where
  "old_half row = take (length row div 2) row"

definition new_half :: "row \<Rightarrow> row" where
  "new_half row = drop (length row div 2) row"

section \<open>DELETE\<close>

text \<open>The state of the iterators of INSERT, DELETE and UPDATE.\<close>

record ('s, 'w) editIter =
  ei_child :: 's
  ei_world :: 'w
  ei_closed :: bool

type_synonym ('s, 'w) source = "'w \<Rightarrow> ('s, row) nextfun"

definition deleteIter_Next ::
    "Schema \<Rightarrow> ('s, 'w) source \<Rightarrow> (row \<Rightarrow> 'w \<Rightarrow> (sql_error + unit) \<times> 'w) \<Rightarrow> (('s, 'w) editIter, row) nextfun" where
  "deleteIter_Next schema src delete d = (case src (ei_world d) (ei_child d) of
     None \<Rightarrow> None
   | Some (s, NEOF) \<Rightarrow> Some (d\<lparr>ei_child := s\<rparr>, NEOF)
   | Some (s, NErr e) \<Rightarrow> Some (d\<lparr>ei_child := s\<rparr>, NErr e)
   | Some (s, NRow row) \<Rightarrow>
       (case delete (last_columns (length schema) row) (ei_world d) of
          (Inl e, w) \<Rightarrow> Some (d\<lparr>ei_child := s, ei_world := w\<rparr>, NErr e)
        | (Inr _, w) \<Rightarrow> Some (d\<lparr>ei_child := s, ei_world := w\<rparr>, NRow (last_columns (length schema) row))))"

text \<open>\<^verbatim>\<open>Close\<close> of both iterators: the editor, then the source; only once.\<close>

definition editIter_Close ::
    "('w \<Rightarrow> sql_error option) \<Rightarrow> ('s \<Rightarrow> sql_error option) \<Rightarrow> ('s, 'w) editIter \<Rightarrow> ('s, 'w) editIter \<times> sql_error option" where
  "editIter_Close editorClose cls d =
     (if ei_closed d then (d, None)
      else (d\<lparr>ei_closed := True\<rparr>, case editorClose (ei_world d) of Some e \<Rightarrow> Some e | None \<Rightarrow> cls (ei_child d)))"

section \<open>UPDATE\<close>

definition updateSourceIter_Next :: "Schema \<Rightarrow> update_expr list \<Rightarrow> ('s, row) nextfun \<Rightarrow> ('s, row) nextfun" where
  "updateSourceIter_Next tableSchema updateExprs nxt s = (case nxt s of
     None \<Rightarrow> None
   | Some (s', NEOF) \<Rightarrow> Some (s', NEOF)
   | Some (s', NErr e) \<Rightarrow> Some (s', NErr e)
   | Some (s', NRow oldRow) \<Rightarrow>
       (case applyUpdateExpressions updateExprs oldRow of
          Inl e \<Rightarrow> Some (s', NErr e)
        | Inr newRow \<Rightarrow>
            if length tableSchema < length oldRow then
              (if length newRow < length tableSchema then Some (s', NErr (Panic ''slice bounds out of range''))
               else Some (s', NRow (drop (length oldRow - length tableSchema) oldRow @ drop (length newRow - length tableSchema) newRow)))
            else Some (s', NRow (oldRow @ newRow))))"

definition updateIter_Next ::
    "Schema \<Rightarrow> ('s, 'w) source \<Rightarrow> (row \<Rightarrow> row \<Rightarrow> 'w \<Rightarrow> (sql_error + unit) \<times> 'w) \<Rightarrow> (('s, 'w) editIter, row) nextfun" where
  "updateIter_Next schema src update u = (case src (ei_world u) (ei_child u) of
     None \<Rightarrow> None
   | Some (s, NEOF) \<Rightarrow> Some (u\<lparr>ei_child := s\<rparr>, NEOF)
   | Some (s, NErr e) \<Rightarrow> Some (u\<lparr>ei_child := s\<rparr>, NErr e)
   | Some (s, NRow row) \<Rightarrow>
       (case schema_equals schema (old_half row) (new_half row) of
          Inl e \<Rightarrow> Some (u\<lparr>ei_child := s\<rparr>, NErr e)
        | Inr equals \<Rightarrow>
            if equals then Some (u\<lparr>ei_child := s\<rparr>, NRow row)
            else (case update (old_half row) (new_half row) (ei_world u) of
              (Inl e, w) \<Rightarrow> Some (u\<lparr>ei_child := s, ei_world := w\<rparr>, NErr e)
            | (Inr _, w) \<Rightarrow> Some (u\<lparr>ei_child := s, ei_world := w\<rparr>, NRow row))))"

section \<open>INSERT and REPLACE\<close>

fun validateNullability :: "Schema \<Rightarrow> row \<Rightarrow> sql_error + unit" where
  "validateNullability [] row = Inr ()"
| "validateNullability (c # cs) [] =
     (if Nullable c then validateNullability cs [] else Inl (Panic ''index out of range''))"
| "validateNullability (c # cs) (v # vs) =
     (if \<not> Nullable c \<and> v = VNil then Inl (ErrNew ''ErrInsertIntoNonNullableProvidedNull'' (Name c))
      else validateNullability cs vs)"

fun convert_row :: "Schema \<Rightarrow> row \<Rightarrow> sql_error + row" where
  "convert_row [] row = Inr row"
| "convert_row (c # cs) [] = Inl (Panic ''index out of range'')"
| "convert_row (c # cs) (v # vs) =
     bindE (if v \<noteq> VNil then Convert (ColumnType c) v else Inr VNil) (\<lambda>v'.
     bindE (convert_row cs vs) (\<lambda>vs'. Inr (v' # vs')))"

text \<open>
  \<^verbatim>\<open>NewEquals(NewGetField(index, ...), NewLiteral(value, col.Type))\<close>: both sides have the type of the column, so that the type
  compares them, and NULL on one side gives NULL.
\<close>

definition column_equals :: "nat \<Rightarrow> Column \<Rightarrow> val \<Rightarrow> expr" where
  "column_equals index col value row =
     bindE (colexpr_Eval (GetField (int index) (Name col)) row) (\<lambda>left.
       if left = VNil \<or> value = VNil then Inr VNil
       else bindE (TypeCompare (ColumnType col) left value) (\<lambda>c. Inr (VBool (c = 0))))"

fun pkExpression :: "parse_float \<Rightarrow> row \<Rightarrow> nat \<Rightarrow> Schema \<Rightarrow> expr option \<Rightarrow> sql_error + expr option" where
  "pkExpression PF row index [] acc = Inr acc"
| "pkExpression PF row index (c # cs) acc =
     (if \<not> PrimaryKey c then pkExpression PF row (index + 1) cs acc
      else if index \<ge> length row then Inl (Panic ''index out of range'')
      else
        (let e = column_equals index c (row ! index) in
         pkExpression PF row (index + 1) cs (Some (case acc of None \<Rightarrow> e | Some a \<Rightarrow> And PF a e))))"

text \<open>
  The iterator has the same state as those of DELETE and UPDATE; its child is where the rows come from. What it calls: the source with its \<^verbatim>\<open>Close\<close>, the editor of the table,
  and the rows of the table itself, which ON DUPLICATE KEY UPDATE searches.
\<close>

record ('s, 'w, 'i) insertEnv =
  env_source :: "('s, 'w) source"
  env_close :: "'s \<Rightarrow> 's"
  env_insert :: "row \<Rightarrow> 'w \<Rightarrow> (sql_error + unit) \<times> 'w"
  env_delete :: "row \<Rightarrow> 'w \<Rightarrow> (sql_error + unit) \<times> 'w"
  env_update :: "row \<Rightarrow> row \<Rightarrow> 'w \<Rightarrow> (sql_error + unit) \<times> 'w"
  env_open :: "'w \<Rightarrow> 'i"
  env_rows :: "('i, 'w) source"

text \<open>REPLACE: the row that is deleted is the one with the same key; the result has NULLs in front if there was none.\<close>

definition replace_row ::
    "('s, 'w, 'i) insertEnv \<Rightarrow> row \<Rightarrow> ('s, 'w) editIter \<Rightarrow> ('s, 'w) editIter \<times> row nextres" where
  "replace_row env row i = (case env_delete env row (ei_world i) of
     (res, w) \<Rightarrow>
       if (case res of Inl e \<Rightarrow> e \<noteq> ErrDeleteRowNotFound | Inr _ \<Rightarrow> False)
       then (i\<lparr>ei_child := env_close env (ei_child i), ei_world := w\<rparr>, NErr (projl res))
       else
         (case env_insert env row w of
            (Inl e, w') \<Rightarrow> (i\<lparr>ei_child := env_close env (ei_child i), ei_world := w'\<rparr>, NErr e)
          | (Inr _, w') \<Rightarrow>
              (i\<lparr>ei_world := w'\<rparr>, NRow ((if isl res then map (\<lambda>_. VNil) row else row) @ row))))"

text \<open>ON DUPLICATE KEY UPDATE: the first row of the table with the same key is updated.\<close>

definition on_duplicate ::
    "parse_float \<Rightarrow> Schema \<Rightarrow> update_expr list \<Rightarrow> ('s, 'w, 'i) insertEnv \<Rightarrow> row \<Rightarrow> ('s, 'w) editIter \<Rightarrow>
     (('s, 'w) editIter \<times> row nextres) option" where
  "on_duplicate PF schema updateExprs env row i = (case pkExpression PF row 0 schema None of
     Inl e \<Rightarrow> Some (i, NErr e)
   | Inr None \<Rightarrow> Some (i, NErr (Panic ''invalid memory address or nil pointer dereference''))
   | Inr (Some pk) \<Rightarrow>
       (case FilterIter_Next (env_rows env (ei_world i)) (EvaluateCondition PF pk) (env_open env (ei_world i)) of
          None \<Rightarrow> None
        | Some (f, NEOF) \<Rightarrow> Some (i, NEOF)
        | Some (f, NErr e) \<Rightarrow> Some (i, NErr e)
        | Some (f, NRow rowToUpdate) \<Rightarrow>
            (case applyUpdateExpressions updateExprs rowToUpdate of
               Inl e \<Rightarrow> Some (i, NErr e)
             | Inr newRow \<Rightarrow>
                 (case env_update env rowToUpdate newRow (ei_world i) of
                    (Inl e, w) \<Rightarrow> Some (i\<lparr>ei_world := w\<rparr>, NErr e)
                  | (Inr _, w) \<Rightarrow> Some (i\<lparr>ei_world := w\<rparr>, NRow (rowToUpdate @ newRow))))))"

definition is_unique_violation :: "sql_error \<Rightarrow> bool" where
  "is_unique_violation e = (case e of ErrUniqueKeyViolation _ \<Rightarrow> True | _ \<Rightarrow> False)"

definition insertIter_Next ::
    "parse_float \<Rightarrow> Schema \<Rightarrow> bool \<Rightarrow> update_expr list \<Rightarrow> ('s, 'w, 'i) insertEnv \<Rightarrow> (('s, 'w) editIter, row) nextfun" where
  "insertIter_Next PF schema isReplace updateExprs env i = (case env_source env (ei_world i) (ei_child i) of
     None \<Rightarrow> None
   | Some (s, NEOF) \<Rightarrow> Some (i\<lparr>ei_child := s\<rparr>, NEOF)
   | Some (s, NErr e) \<Rightarrow> Some (i\<lparr>ei_child := env_close env s\<rparr>, NErr e)
   | Some (s, NRow row0) \<Rightarrow>
       (let row1 = last_columns (length schema) row0; i1 = i\<lparr>ei_child := s\<rparr>; i2 = i\<lparr>ei_child := env_close env s\<rparr> in
        case validateNullability schema row1 of
          Inl e \<Rightarrow> Some (i2, NErr e)
        | Inr _ \<Rightarrow>
            (case convert_row schema row1 of
               Inl e \<Rightarrow> Some (i1, NErr e)
             | Inr row \<Rightarrow>
                 if isReplace then Some (replace_row env row i1)
                 else
                   (case env_insert env row (ei_world i) of
                      (Inl e, w) \<Rightarrow>
                        if \<not> is_unique_violation e \<or> updateExprs = [] then Some (i2\<lparr>ei_world := w\<rparr>, NErr e)
                        else on_duplicate PF schema updateExprs env row (i1\<lparr>ei_world := w\<rparr>)
                    | (Inr _, w) \<Rightarrow> Some (i1\<lparr>ei_world := w\<rparr>, NRow row)))))"

text \<open>
  \<^verbatim>\<open>Close\<close> closes the editors that are there and then the source, up to the first error. It has a value receiver, so that the flag
  it sets is lost and a second call closes everything again.
\<close>

fun close_all :: "sql_error option list \<Rightarrow> sql_error option" where
  "close_all [] = None"
| "close_all (r # rs) = (case r of Some e \<Rightarrow> Some e | None \<Rightarrow> close_all rs)"

definition insertIter_Close ::
    "bool \<Rightarrow> update_expr list \<Rightarrow> ('w \<Rightarrow> sql_error option) \<Rightarrow> ('w \<Rightarrow> sql_error option) \<Rightarrow> ('w \<Rightarrow> sql_error option) \<Rightarrow>
     ('s \<Rightarrow> sql_error option) \<Rightarrow> ('s, 'w) editIter \<Rightarrow> sql_error option" where
  "insertIter_Close isReplace updateExprs inserterClose replacerClose updaterClose cls i =
     close_all ((if isReplace then [replacerClose (ei_world i)]
                 else inserterClose (ei_world i) # (if updateExprs = [] then [] else [updaterClose (ei_world i)]))
       @ [cls (ei_child i)])"

section \<open>Counting the rows\<close>

record UpdateInfo =
  Matched :: nat
  Updated :: nat
  Warnings :: nat

record OkResult =
  RowsAffected :: nat
  InsertID :: nat
  Info :: "UpdateInfo option"

definition NewOkResult :: "nat \<Rightarrow> OkResult" where
  "NewOkResult rowsAffected = \<lparr>RowsAffected = rowsAffected, InsertID = 0, Info = None\<rparr>"

datatype (plugins only: "code" "size") RowUpdateType =
    UpdateTypeInsert | UpdateTypeReplace | UpdateTypeDuplicateKeyUpdate | UpdateTypeUpdate | UpdateTypeDelete

text \<open>The handlers with their counters: rows affected, and for UPDATE first the rows matched.\<close>

datatype (plugins only: "code" "size") handler =
    insertRowHandler nat
  | replaceRowHandler nat
  | onDuplicateUpdateHandler nat Schema
  | updateRowHandler nat nat Schema
  | deleteRowHandler nat

definition handleRowUpdate :: "handler \<Rightarrow> row \<Rightarrow> sql_error + handler" where
  "handleRowUpdate h row = (case h of
     insertRowHandler n \<Rightarrow> Inr (insertRowHandler (n + 1))
   | replaceRowHandler n \<Rightarrow>
       Inr (replaceRowHandler (if list_ex (\<lambda>v. v \<noteq> VNil) (old_half row) then n + 2 else n + 1))
   | onDuplicateUpdateHandler n schema \<Rightarrow>
       if length row = length schema then Inr (onDuplicateUpdateHandler (n + 1) schema)
       else (case schema_equals schema (old_half row) (new_half row) of
         Inr equals \<Rightarrow> Inr (onDuplicateUpdateHandler (if equals then n else n + 2) schema)
       | Inl e \<Rightarrow> Inr (onDuplicateUpdateHandler (n + 1) schema))
   | updateRowHandler m n schema \<Rightarrow>
       bindE (schema_equals schema (old_half row) (new_half row)) (\<lambda>equals.
         Inr (updateRowHandler (m + 1) (if equals then n else n + 1) schema))
   | deleteRowHandler n \<Rightarrow> Inr (deleteRowHandler (n + 1)))"

definition okResult :: "handler \<Rightarrow> OkResult" where
  "okResult h = (case h of
     insertRowHandler n \<Rightarrow> NewOkResult n
   | replaceRowHandler n \<Rightarrow> NewOkResult n
   | onDuplicateUpdateHandler n schema \<Rightarrow> NewOkResult n
   | updateRowHandler m n schema \<Rightarrow>
       \<lparr>RowsAffected = n, InsertID = 0, Info = Some \<lparr>Matched = m, Updated = n, Warnings = 0\<rparr>\<rparr>
   | deleteRowHandler n \<Rightarrow> NewOkResult n)"

record 's accumulatorIter =
  acc_iter :: 's
  acc_once :: bool
  acc_handler :: handler

text \<open>The loop of \<^verbatim>\<open>Next\<close>: it reads the iterator to its end.\<close>

partial_function (option) accumulate ::
    "('s, row) nextfun \<Rightarrow> 's accumulatorIter \<Rightarrow> ('s accumulatorIter \<times> OkResult nextres) option" where
  "accumulate nxt a = (case nxt (acc_iter a) of
     None \<Rightarrow> None
   | Some (s, NEOF) \<Rightarrow> Some (a\<lparr>acc_iter := s\<rparr>, NRow (okResult (acc_handler a)))
   | Some (s, NErr e) \<Rightarrow> Some (a\<lparr>acc_iter := s\<rparr>, NErr e)
   | Some (s, NRow row) \<Rightarrow>
       (case handleRowUpdate (acc_handler a) row of
          Inl e \<Rightarrow> Some (a\<lparr>acc_iter := s\<rparr>, NErr e)
        | Inr h \<Rightarrow> accumulate nxt (a\<lparr>acc_iter := s, acc_handler := h\<rparr>)))"

declare accumulate.simps [code]

definition accumulatorIter_Next :: "('s, row) nextfun \<Rightarrow> ('s accumulatorIter, OkResult) nextfun" where
  "accumulatorIter_Next nxt a = (if acc_once a then Some (a, NEOF) else accumulate nxt (a\<lparr>acc_once := True\<rparr>))"

text \<open>\<^verbatim>\<open>RowUpdateAccumulator.RowIter\<close>; \<open>schema\<close> is the schema of the child.\<close>

definition row_handler :: "RowUpdateType \<Rightarrow> Schema \<Rightarrow> handler" where
  "row_handler ty schema = (case ty of
     UpdateTypeInsert \<Rightarrow> insertRowHandler 0
   | UpdateTypeReplace \<Rightarrow> replaceRowHandler 0
   | UpdateTypeDuplicateKeyUpdate \<Rightarrow> onDuplicateUpdateHandler 0 schema
   | UpdateTypeUpdate \<Rightarrow> updateRowHandler 0 0 (take (length schema div 2) schema)
   | UpdateTypeDelete \<Rightarrow> deleteRowHandler 0)"

definition newAccumulatorIter :: "RowUpdateType \<Rightarrow> Schema \<Rightarrow> 's \<Rightarrow> 's accumulatorIter" where
  "newAccumulatorIter ty schema s = \<lparr>acc_iter = s, acc_once = False, acc_handler = row_handler ty schema\<rparr>"

end
