(* ===== verification/Dml_Statements.thy ===== *)
theory Dml_Statements
  imports Dml_Iters
begin

text \<open>
  INSERT, REPLACE, UPDATE and DELETE on a table in memory: the iterators of \<^verbatim>\<open>Dml_Iters\<close> over a scan of the table
  that they change, with the editor of the table. The order in which the editor's loops visit the partitions is different for
  every call; \<open>ords n\<close> is the one of the \<open>n\<close>-th call.
\<close>

section \<open>Editing the rows of a source\<close>

text \<open>
  What DELETE and UPDATE have in common: a row of the source, an action on the table, and a row to count.
\<close>

definition edit_Next :: "('s, 'w) source \<Rightarrow> (row \<Rightarrow> 'w \<Rightarrow> (sql_error + row) \<times> 'w) \<Rightarrow> (('s, 'w) editIter, row) nextfun" where
  "edit_Next src act d = (case src (ei_world d) (ei_child d) of
     None \<Rightarrow> None
   | Some (s, NEOF) \<Rightarrow> Some (d\<lparr>ei_child := s\<rparr>, NEOF)
   | Some (s, NErr e) \<Rightarrow> Some (d\<lparr>ei_child := s\<rparr>, NErr e)
   | Some (s, NRow row) \<Rightarrow>
       (case act row (ei_world d) of
          (Inl e, w) \<Rightarrow> Some (d\<lparr>ei_child := s, ei_world := w\<rparr>, NErr e)
        | (Inr out, w) \<Rightarrow> Some (d\<lparr>ei_child := s, ei_world := w\<rparr>, NRow out)))"

definition delete_act :: "Schema \<Rightarrow> (row \<Rightarrow> 'w \<Rightarrow> (sql_error + unit) \<times> 'w) \<Rightarrow> row \<Rightarrow> 'w \<Rightarrow> (sql_error + row) \<times> 'w" where
  "delete_act schema delete row w =
     (case delete (last_columns (length schema) row) w of
        (Inl e, w') \<Rightarrow> (Inl e, w') | (Inr _, w') \<Rightarrow> (Inr (last_columns (length schema) row), w'))"

definition update_act :: "Schema \<Rightarrow> (row \<Rightarrow> row \<Rightarrow> 'w \<Rightarrow> (sql_error + unit) \<times> 'w) \<Rightarrow> row \<Rightarrow> 'w \<Rightarrow> (sql_error + row) \<times> 'w" where
  "update_act schema update row w =
     (case schema_equals schema (old_half row) (new_half row) of
        Inl e \<Rightarrow> (Inl e, w)
      | Inr equals \<Rightarrow>
          if equals then (Inr row, w)
          else (case update (old_half row) (new_half row) w of (Inl e, w') \<Rightarrow> (Inl e, w') | (Inr _, w') \<Rightarrow> (Inr row, w')))"

lemma deleteIter_edit: "deleteIter_Next schema src delete = edit_Next src (delete_act schema delete)"
  by (auto simp: fun_eq_iff deleteIter_Next_def edit_Next_def delete_act_def split: option.splits nextres.splits prod.splits sum.splits)

lemma updateIter_edit: "updateIter_Next schema src update = edit_Next src (update_act schema update)"
  by (auto simp: fun_eq_iff updateIter_Next_def edit_Next_def update_act_def split: option.splits nextres.splits prod.splits sum.splits)

text \<open>The actions on a list of rows, with the counting.\<close>

fun run_acts :: "(row \<Rightarrow> 'w \<Rightarrow> (sql_error + row) \<times> 'w) \<Rightarrow> handler \<Rightarrow> row list \<Rightarrow> 'w \<Rightarrow> (sql_error + handler) \<times> 'w" where
  "run_acts act h [] w = (Inr h, w)"
| "run_acts act h (r # rs) w = (case act r w of
     (Inl e, w') \<Rightarrow> (Inl e, w')
   | (Inr out, w') \<Rightarrow>
       (case handleRowUpdate h out of Inl e \<Rightarrow> (Inl e, w') | Inr h' \<Rightarrow> run_acts act h' rs w'))"

definition acc_result :: "sql_error + handler \<Rightarrow> OkResult nextres" where
  "acc_result res = (case res of Inl e \<Rightarrow> NErr e | Inr h \<Rightarrow> NRow (okResult h))"

text \<open>
  A source that keeps the contract of row iterators whatever the state of the table. It reads the table while the table
  changes, so its contents depend on the table; \<open>steady\<close> says that an action leaves alone what is still to be read.
\<close>

definition steady ::
    "('s, 'w) source \<Rightarrow> ('w \<Rightarrow> 's \<Rightarrow> row todo) \<Rightarrow> ('s \<Rightarrow> bool) \<Rightarrow> (row \<Rightarrow> 'w \<Rightarrow> (sql_error + row) \<times> 'w) \<Rightarrow>
     (row list \<Rightarrow> 's \<Rightarrow> 'w \<Rightarrow> bool) \<Rightarrow> bool" where
  "steady src contents good act J \<longleftrightarrow> (\<forall>r rs s w s' out w'. J (r # rs) s w \<and> src w s = Some (s', NRow r) \<and> good s' \<and>
     contents w s' = (rs, None) \<and> act r w = (Inr out, w') \<longrightarrow> contents w' s' = (rs, None) \<and> J rs s' w')"

text \<open>An iterator that does the same, except for the state after an error, on the rows and tables that \<open>G\<close> accepts.\<close>

definition edit_like ::
    "(row \<Rightarrow> 'w \<Rightarrow> bool) \<Rightarrow> (('s, 'w) editIter, row) nextfun \<Rightarrow> ('s, 'w) source \<Rightarrow> (row \<Rightarrow> 'w \<Rightarrow> (sql_error + row) \<times> 'w) \<Rightarrow> bool" where
  "edit_like G nxt src act \<longleftrightarrow> (\<forall>d. (\<forall>s r. src (ei_world d) (ei_child d) = Some (s, NRow r) \<longrightarrow> G r (ei_world d)) \<longrightarrow>
     (case edit_Next src act d of
        Some (d1, NErr e) \<Rightarrow> \<exists>d2. nxt d = Some (d2, NErr e) \<and> ei_world d2 = ei_world d1
      | y \<Rightarrow> nxt d = y))"

lemma edit_like_refl: "edit_like (\<lambda>_ _. True) (edit_Next src act) src act"
  by (auto simp: edit_like_def split: option.splits nextres.splits)

locale edit_source =
  fixes src :: "('s, 'w) source" and contents :: "'w \<Rightarrow> 's \<Rightarrow> row todo" and good :: "'s \<Rightarrow> bool"
  assumes src_iter: "row_iter (src w) (contents w) good"
begin

lemma accumulate_edit:
  assumes "steady src contents good act J" and like: "edit_like G nxt src act" "\<forall>r rs s w. J (r # rs) s w \<longrightarrow> G r w"
    and "good s" and "contents w s = (rs, None)" and "J rs s w"
  shows "\<exists>a. accumulate nxt \<lparr>acc_iter = \<lparr>ei_child = s, ei_world = w, ei_closed = c\<rparr>, acc_once = once, acc_handler = h\<rparr> =
      Some (a, acc_result (fst (run_acts act h rs w))) \<and> ei_world (acc_iter a) = snd (run_acts act h rs w)"
  using assms(4-6)
proof (induction rs arbitrary: s w h)
  case Nil
  let ?d = "\<lparr>ei_child = s, ei_world = w, ei_closed = c\<rparr>"
  from row_iter.nxt_eof [OF src_iter Nil.prems(1,2)] obtain s' where s': "src w s = Some (s', NEOF)" by blast
  then have "edit_Next src act ?d = Some (\<lparr>ei_child = s', ei_world = w, ei_closed = c\<rparr>, NEOF)" by (simp add: edit_Next_def)
  with like(1) [unfolded edit_like_def, rule_format, of ?d] s'
  have "nxt ?d = Some (\<lparr>ei_child = s', ei_world = w, ei_closed = c\<rparr>, NEOF)" by simp
  then show ?case by (subst accumulate.simps) (simp add: acc_result_def)
next
  case (Cons r rs)
  let ?d = "\<lparr>ei_child = s, ei_world = w, ei_closed = c\<rparr>"
  from row_iter.nxt_row [OF src_iter Cons.prems(1,2)] obtain s' where
    s': "src w s = Some (s', NRow r)" "good s'" "contents w s' = (rs, None)" by blast
  have G: "G r w" using like(2) Cons.prems(3) by blast
  obtain res w' where act: "act r w = (res, w')" by fastforce
  let ?d' = "\<lparr>ei_child = s', ei_world = w', ei_closed = c\<rparr>"
  have edit: "edit_Next src act ?d = Some (?d', case res of Inl e \<Rightarrow> NErr e | Inr out \<Rightarrow> NRow out)"
    using s'(1) act by (simp add: edit_Next_def split: sum.splits)
  note nxt = like(1) [unfolded edit_like_def, rule_format, of ?d]
  show ?case
  proof (cases res)
    case (Inl e)
    with nxt edit s'(1) G obtain d2 where "nxt ?d = Some (d2, NErr e)" "ei_world d2 = w'" by auto
    with act Inl show ?thesis by (subst accumulate.simps) (simp add: acc_result_def)
  next
    case (Inr out)
    with act s' Cons.prems(3) assms(1) have w': "contents w' s' = (rs, None)" "J rs s' w'"
      unfolding steady_def by blast+
    have d': "nxt ?d = Some (?d', NRow out)" using nxt edit s'(1) G Inr by simp
    show ?thesis
    proof (cases "handleRowUpdate h out")
      case (Inl e)
      with act Inr d' show ?thesis by (subst accumulate.simps) (simp add: acc_result_def)
    next
      case h': (Inr h')
      with Cons.IH [OF s'(2) w', of h'] d' act Inr show ?thesis by (subst accumulate.simps) simp
    qed
  qed
qed

lemma accumulate_edit_Next:
  assumes "steady src contents good act J" "good s" "contents w s = (rs, None)" "J rs s w"
  shows "\<exists>a. accumulate (edit_Next src act) \<lparr>acc_iter = \<lparr>ei_child = s, ei_world = w, ei_closed = c\<rparr>, acc_once = once, acc_handler = h\<rparr> =
      Some (a, acc_result (fst (run_acts act h rs w))) \<and> ei_world (acc_iter a) = snd (run_acts act h rs w)"
  by (rule accumulate_edit [OF assms(1) edit_like_refl _ assms(2-4)]) simp

end

section \<open>A table as a source\<close>

text \<open>The state of the table, and the number of calls of the editor so far.\<close>

type_synonym world = "MemTable \<times> nat"

definition mem_Insert :: "(nat \<Rightarrow> string list) \<Rightarrow> row \<Rightarrow> world \<Rightarrow> (sql_error + unit) \<times> world" where
  "mem_Insert ords row w = (case editor_Insert (ords (snd w)) (fst w) row of (res, t) \<Rightarrow> (res, (t, snd w + 1)))"

definition mem_Delete :: "(nat \<Rightarrow> string list) \<Rightarrow> row \<Rightarrow> world \<Rightarrow> (sql_error + unit) \<times> world" where
  "mem_Delete ords row w = (case editor_Delete (ords (snd w)) (fst w) row of (res, t) \<Rightarrow> (res, (t, snd w + 1)))"

definition mem_Update :: "(nat \<Rightarrow> string list) \<Rightarrow> row \<Rightarrow> row \<Rightarrow> world \<Rightarrow> (sql_error + unit) \<times> world" where
  "mem_Update ords old new w = (case editor_Update (ords (snd w)) (fst w) old new of (res, t) \<Rightarrow> (res, (t, snd w + 1)))"

text \<open>A scan of the table, and the scan with the filter of a WHERE clause.\<close>

definition mem_scan :: "parse_float \<Rightarrow> (tableIter TableRowIter, world) source" where
  "mem_scan PF w = TableRowIter_Next None (PartitionRows (fst w) [] None) (tableIter_Next PF) (\<lambda>_. None)"

definition mem_where :: "parse_float \<Rightarrow> expr \<Rightarrow> (tableIter TableRowIter, world) source" where
  "mem_where PF e w = FilterIter_Next (mem_scan PF w) (EvaluateCondition PF e)"

definition scan_contents :: "parse_float \<Rightarrow> expr \<Rightarrow> world \<Rightarrow> tableIter TableRowIter \<Rightarrow> row todo" where
  "scan_contents PF e w = filter_contents (EvaluateCondition PF e) (tr_contents (PartitionRows (fst w) [] None) (table_contents PF))"

interpretation memfilter: filter_over "mem_scan PF w" "tr_contents (PartitionRows (fst w) [] None) (table_contents PF)" "tr_good ti_good"
    "EvaluateCondition PF e" for PF w e
  unfolding filter_over_def mem_scan_def by (rule memscan.scan.row_iter_axioms)

interpretation mem: edit_source "mem_where PF e" "scan_contents PF e" "tr_good ti_good" for PF e
  by (rule edit_source.intro) (unfold mem_where_def scan_contents_def, rule memfilter.flt.row_iter_axioms)

section \<open>What is left of a scan\<close>

definition unopened :: "'i TableRowIter \<Rightarrow> string list" where
  "unopened i =
     (let ks = drop (pi_pos (tr_partitions i)) (pi_keys (tr_partitions i)) in
      case tr_rows i of Some r \<Rightarrow> ks | None \<Rightarrow> (case tr_partition i of Some k \<Rightarrow> k # ks | None \<Rightarrow> ks))"

lemma tr_contents_split:
  "tr_contents openp contents i =
     append_todo (case tr_rows i of Some r \<Rightarrow> contents r | None \<Rightarrow> ([], None)) (rest_contents openp contents (unopened i))"
  by (auto simp: tr_contents_def unopened_def append_todo_def Let_def split: option.splits)

lemma rest_contents_cong: "(\<And>k. k \<in> set ks \<Longrightarrow> openp k = openp' k) \<Longrightarrow> rest_contents openp contents ks = rest_contents openp' contents ks"
  by (induction ks) (auto split: sum.splits)

text \<open>A table that changes only in partitions that the scan has already opened does not change what is left of the scan.\<close>

lemma scan_contents_frame:
  assumes "\<forall>k \<in> set (unopened s). map_of (partitions t') k = map_of (partitions t) k" and "tbl_columns t' = tbl_columns t"
  shows "scan_contents PF e (t', n') s = scan_contents PF e (t, n) s"
proof -
  have "rest_contents (PartitionRows t' [] None) (table_contents PF) (unopened s) =
      rest_contents (PartitionRows t [] None) (table_contents PF) (unopened s)"
    using assms by (intro rest_contents_cong) (simp add: PartitionRows_def split: option.split)
  then show ?thesis by (simp add: scan_contents_def filter_contents_def tr_contents_split)
qed

lemma filter_rows_end:
  "snd (filter_rows cond xs e) = None \<Longrightarrow> e = None \<and> fst (filter_rows cond xs e) = filter (\<lambda>r. cond r = Inr True) xs"
  by (induction xs) (auto split: sum.splits if_splits)

lemma scan_contents_rows:
  assumes "scan_contents PF e w s = (rs, None)"
  shows "\<exists>xs. tr_contents (PartitionRows (fst w) [] None) (table_contents PF) s = (xs, None) \<and>
    rs = filter (\<lambda>r. EvaluateCondition PF e r = Inr True) xs"
proof (cases "tr_contents (PartitionRows (fst w) [] None) (table_contents PF) s")
  case (Pair xs err)
  with assms have "filter_rows (EvaluateCondition PF e) xs err = (rs, None)" by (simp add: scan_contents_def filter_contents_def)
  with filter_rows_end [of "EvaluateCondition PF e" xs err] Pair show ?thesis by simp
qed

lemma scan_row_true: "scan_contents PF e w s = (rs, None) \<Longrightarrow> r \<in> set rs \<Longrightarrow> EvaluateCondition PF e r = Inr True"
  using scan_contents_rows by fastforce

lemma rest_contents_mem:
  "rest_contents openp contents ks = (xs, None) \<Longrightarrow> k \<in> set ks \<Longrightarrow> openp k = Inr i \<Longrightarrow> set (fst (contents i)) \<subseteq> set xs"
proof (induction ks arbitrary: xs)
  case (Cons k' ks)
  from Cons.prems(1) obtain r where r: "openp k' = Inr r" "append_todo (contents r) (rest_contents openp contents ks) = (xs, None)"
    by (auto split: sum.splits)
  then obtain ys where "rest_contents openp contents ks = (ys, None)" "xs = fst (contents r) @ ys"
    by (cases "rest_contents openp contents ks") (auto simp: append_todo_def split: option.splits)
  with Cons r show ?case by fastforce
qed simp

lemma unopened_row_left:
  assumes "scan_contents PF e (t, n) s = (rs, None)" and "k \<in> set (unopened s)" and "p \<in> set (partition_rows t k)"
    and "EvaluateCondition PF e p = Inr True" and "tbl_columns t = []"
  shows "p \<in> set rs"
proof -
  from scan_contents_rows [OF assms(1)] obtain xs where
    xs: "tr_contents (PartitionRows t [] None) (table_contents PF) s = (xs, None)"
    "rs = filter (\<lambda>r. EvaluateCondition PF e r = Inr True) xs" by auto
  from assms(3) have "map_of (partitions t) k \<noteq> None" by (cases "map_of (partitions t) k") (simp_all add: partition_rows_def)
  then obtain i where i: "PartitionRows t [] None k = Inr i" by (auto simp: PartitionRows_def)
  have i': "table_contents PF i = (partition_rows t k, None)"
    using partition_contents [OF i, of PF "\<lambda>_. True" None] assms(5) by simp
  obtain ys where ys: "rest_contents (PartitionRows t [] None) (table_contents PF) (unopened s) = (ys, None)" "set ys \<subseteq> set xs"
    using xs(1) unfolding tr_contents_split
    by (cases "rest_contents (PartitionRows t [] None) (table_contents PF) (unopened s)")
      (auto simp: append_todo_def split: option.splits prod.splits)
  have "set (fst (table_contents PF i)) \<subseteq> set ys"
    by (rule rest_contents_mem [where openp = "PartitionRows t [] None", OF ys(1) assms(2) i])
  then show ?thesis using i' ys(2) assms(3,4) xs(2) by auto
qed

section \<open>One edit\<close>

lemma loop_place:
  assumes "map_ok (partitions t)" "visits ord t" and hit: "\<forall>p \<in> set (table_rows t). hit p = Inr (h p)"
    and ex: "\<exists>p \<in> set (table_rows t). h p"
  shows "\<exists>k us p vs. k \<in> set (keys (partitions t)) \<and> partition_rows t k = us @ p # vs \<and> h p \<and> p \<in> set (table_rows t) \<and>
    partition_loop hit repl t ord = Inr (Some (t\<lparr>partitions := AList.update k (us @ repl @ vs) (partitions t)\<rparr>))"
proof -
  have rows: "set (concat (map (partition_rows t) ord)) = set (table_rows t)"
    using visited_rows [OF assms(2,1)] by (metis set_mset_mset)
  from partition_loop_spec [OF hit [folded rows], of repl] ex rows obtain k us p vs where
    k: "k \<in> set ord" "partition_rows t k = us @ p # vs" "h p"
    "partition_loop hit repl t ord = Inr (Some (t\<lparr>partitions := AList.update k (us @ repl @ vs) (partitions t)\<rparr>))"
    by (elim disjE bexE exE conjE) auto
  moreover have "k \<in> set (keys (partitions t))" using k(1) assms(2) by (simp add: visits_def)
  moreover have "p \<in> set (table_rows t)" using k(1,2) by (auto simp: rows [symmetric] intro!: bexI [of _ k])
  ultimately show ?thesis by blast
qed

text \<open>One row of the table has been replaced by \<open>new\<close>, which is no row or one row, in its place.\<close>

definition replaced :: "MemTable \<Rightarrow> row \<Rightarrow> row list \<Rightarrow> MemTable \<Rightarrow> bool" where
  "replaced t r new t' \<longleftrightarrow> (\<exists>k us vs. k \<in> set (keys (partitions t)) \<and> partition_rows t k = us @ r # vs \<and>
     t' = t\<lparr>partitions := AList.update k (us @ new @ vs) (partitions t)\<rparr>)"

lemma replaced_rows:
  assumes "replaced t r new t'" and "map_ok (partitions t)"
  shows "mset (table_rows t') + {#r#} = mset (table_rows t) + mset new"
    and "tbl_schema t' = tbl_schema t" and "tbl_columns t' = tbl_columns t" and "r \<in> set (table_rows t)"
    and "visits ord t \<Longrightarrow> visits ord t'"
proof -
  from assms(1) obtain k us vs where k: "k \<in> set (keys (partitions t))" "partition_rows t k = us @ r # vs"
    and t': "t' = t\<lparr>partitions := AList.update k (us @ new @ vs) (partitions t)\<rparr>" by (auto simp: replaced_def)
  show "mset (table_rows t') + {#r#} = mset (table_rows t) + mset new"
    using partition_update_rows [OF assms(2) k(1), of "us @ new @ vs"] k(2) t' by simp
  show "tbl_schema t' = tbl_schema t" "tbl_columns t' = tbl_columns t" by (simp_all add: t')
  have "visits (keys (partitions t)) t" using assms(2) by (simp add: visits_def map_ok_def)
  from visited_rows [OF this assms(2)] have "set (table_rows t) = set (concat (map (partition_rows t) (keys (partitions t))))"
    by (metis set_mset_mset)
  moreover have "r \<in> set (concat (map (partition_rows t) (keys (partitions t))))"
    unfolding set_concat set_map by (rule UN_I [OF imageI [OF k(1) [unfolded set_map]]]) (simp add: k(2))
  ultimately show "r \<in> set (table_rows t)" by simp
  show "visits ord t \<Longrightarrow> visits ord t'" using k(1) by (simp add: visits_def t' AList.update_keys del: set_map)
qed

lemma replaced_ok:
  assumes "replaced t r new t'" and "table_ok t"
    and "new = [] \<or> (\<exists>u. new = [u] \<and> checkRow (tbl_schema t) u = Inr () \<and> list_all comparable u \<and>
      pk_key (tbl_schema t) u = pk_key (tbl_schema t) r)"
  shows "table_ok t'"
proof -
  from assms(1) obtain k us vs where k: "k \<in> set (keys (partitions t))"
    and t': "t' = t\<lparr>partitions := AList.update k (us @ new @ vs) (partitions t)\<rparr>" by (auto simp: replaced_def)
  have map: "map_ok (partitions t)" using assms(2) by (simp add: table_ok_def)
  show ?thesis
    using assms(3) by (intro table_ok_replace [OF assms(2) k replaced_rows(4) [OF assms(1) map] t' replaced_rows(1) [OF assms(1) map]]) auto
qed

text \<open>
  The rows that an edit can hit are told apart: by their key, or, in a table without key, because there is no negative zero,
  which is equal to zero without being the same value.
\<close>

definition exact_rows :: "MemTable \<Rightarrow> bool" where
  "exact_rows t \<longleftrightarrow> pk_cols (tbl_schema t) \<noteq> [] \<or> (\<forall>r \<in> set (table_rows t). map canon r = r)"

lemma exact_hit:
  assumes "table_ok t" "exact_rows t" and "r \<in> set (table_rows t)" "p \<in> set (table_rows t)"
    and "deletes (tbl_schema t) r p \<or> map canon p = map canon r"
  shows "p = r"
proof (cases "pk_cols (tbl_schema t) = []")
  case True
  then have "map canon p = map canon r" using assms(5) by (auto simp: deletes_def)
  moreover have "map canon p = p" "map canon r = r" using assms(2-4) True by (auto simp: exact_rows_def)
  ultimately show ?thesis by simp
next
  case False
  have len: "length p = length (tbl_schema t)" "length r = length (tbl_schema t)" using table_row [OF assms(1)] assms(3,4) by auto
  from assms(5) have "pk_key (tbl_schema t) p = pk_key (tbl_schema t) r"
  proof
    assume "deletes (tbl_schema t) r p"
    with False show ?thesis by (simp add: deletes_def)
  next
    assume "map canon p = map canon r"
    with len show ?thesis by (rule pk_key_canon)
  qed
  moreover have "inj_on (pk_key (tbl_schema t)) (set (table_rows t))" using assms(1) False by (simp add: table_ok_def distinct_map)
  ultimately show ?thesis using assms(3,4) by (simp add: inj_on_eq_iff)
qed

lemma delete_step:
  assumes "table_ok t" "visits (ords n) t" "exact_rows t" and "r \<in> set (table_rows t)"
  shows "\<exists>t'. mem_Delete ords r (t, n) = (Inr (), (t', n + 1)) \<and> replaced t r [] t'"
proof -
  note r = table_row [OF assms(1,4)]
  have map: "map_ok (partitions t)" using assms(1) by (simp add: table_ok_def)
  have hit: "\<forall>p \<in> set (table_rows t). delete_hit (pkColumnIndexes t) r p = Inr (deletes (tbl_schema t) r p)"
    using delete_hit_spec [OF assms(1)] r by blast
  have "deletes (tbl_schema t) r r" by (simp add: deletes_def)
  with assms(4) have "\<exists>p \<in> set (table_rows t). deletes (tbl_schema t) r p" by blast
  from loop_place [OF map assms(2) hit this, of "[]"] obtain k us p vs where
    k: "k \<in> set (keys (partitions t))" "partition_rows t k = us @ p # vs" "deletes (tbl_schema t) r p" "p \<in> set (table_rows t)"
    and loop: "partition_loop (delete_hit (pkColumnIndexes t) r) [] t (ords n) =
      Inr (Some (t\<lparr>partitions := AList.update k (us @ [] @ vs) (partitions t)\<rparr>))" by (elim exE conjE)
  have "p = r" using exact_hit [OF assms(1,3,4) k(4)] k(3) by simp
  with k have "replaced t r [] (t\<lparr>partitions := AList.update k (us @ [] @ vs) (partitions t)\<rparr>)"
    unfolding replaced_def by (intro exI [of _ k] exI [of _ us] exI [of _ vs]) simp
  with loop r show ?thesis by (simp add: mem_Delete_def editor_Delete_def)
qed

lemma update_step:
  assumes "table_ok t" "visits (ords n) t" "exact_rows t" and "r \<in> set (table_rows t)"
    and "checkRow (tbl_schema t) u = Inr ()" "list_all comparable u" "pk_key (tbl_schema t) u = pk_key (tbl_schema t) r"
  shows "\<exists>t'. mem_Update ords r u (t, n) = (Inr (), (t', n + 1)) \<and> replaced t r [u] t'"
proof -
  note r = table_row [OF assms(1,4)]
  have len: "length u = length (tbl_schema t)" using assms(5) by (auto simp: checkRow_def split: if_splits)
  have map: "map_ok (partitions t)" using assms(1) by (simp add: table_ok_def)
  have diff: "pkColsDiffer t r u = Inr False"
    using pk_match [OF assms(1) _ _ len assms(6)] r assms(7) by (simp add: pkColsDiffer_def)
  have hit: "\<forall>p \<in> set (table_rows t). total_match r p = Inr (map canon r = map canon p)"
    using table_row [OF assms(1)] r by (auto intro!: total_match_canon)
  have "\<exists>p \<in> set (table_rows t). map canon r = map canon p" using assms(4) by blast
  from loop_place [OF map assms(2) hit this, of "[u]"] obtain k us p vs where
    k: "k \<in> set (keys (partitions t))" "partition_rows t k = us @ p # vs" "map canon r = map canon p" "p \<in> set (table_rows t)"
    and loop: "partition_loop (total_match r) [u] t (ords n) =
      Inr (Some (t\<lparr>partitions := AList.update k (us @ [u] @ vs) (partitions t)\<rparr>))" by (elim exE conjE)
  have "p = r" using exact_hit [OF assms(1,3,4) k(4)] k(3) by simp
  with k have "replaced t r [u] (t\<lparr>partitions := AList.update k (us @ [u] @ vs) (partitions t)\<rparr>)"
    unfolding replaced_def by (intro exI [of _ k] exI [of _ us] exI [of _ vs]) simp
  with loop r diff assms(5) show ?thesis by (simp add: mem_Update_def editor_Update_def)
qed

section \<open>The invariant of the scan\<close>

text \<open>A scan of at most one partition, which has been opened as soon as a row has been read.\<close>

definition last_partition :: "'i TableRowIter \<Rightarrow> bool" where
  "last_partition i \<longleftrightarrow> length (pi_keys (tr_partitions i)) \<le> 1 \<and> (tr_partition i \<noteq> None \<longrightarrow> pi_pos (tr_partitions i) \<ge> 1)"

lemma next_partition_last:
  assumes "next_partition i = (i1, res)" and "last_partition i"
  shows "last_partition i1 \<and> (\<forall>k. res = NRow k \<longrightarrow> drop (pi_pos (tr_partitions i1)) (pi_keys (tr_partitions i1)) = [] \<and> tr_partition i1 \<noteq> None)"
  using assms
  by (auto simp: next_partition_def partitionIter_Next_def last_partition_def split: option.splits if_splits)

lemma TableRowIter_last:
  assumes "TableRowIter_Next ctxErr openp nxt cls i = Some y" and "last_partition i"
  shows "last_partition (fst y) \<and> (\<forall>r. snd y = NRow r \<longrightarrow> unopened (fst y) = [])"
proof -
  let ?P = "\<lambda>ctxErr openp nxt cls i y. last_partition i \<longrightarrow> last_partition (fst y) \<and> (\<forall>r. snd y = NRow r \<longrightarrow> unopened (fst y) = [])"
  have "?P ctxErr openp nxt cls i y"
  proof (rule TableRowIter_Next.raw_induct [where P = ?P, OF _ assms(1)], goal_cases)
    case (1 rec c opn nx cl j z)
    show ?case
    proof
      assume last: "last_partition j"
      obtain j1 res where j1: "next_partition j = (j1, res)" by fastforce
      note n = next_partition_last [OF j1 last]
      from n have again: "last_partition (j1\<lparr>tr_partition := None, tr_rows := None\<rparr>)" by (simp add: last_partition_def)
      show "last_partition (fst z) \<and> (\<forall>r. snd z = NRow r \<longrightarrow> unopened (fst z) = [])"
        using 1(2) j1 n last 1(1) [of c opn nx cl "j1\<lparr>tr_partition := None, tr_rows := None\<rparr>" z] again
        by (auto simp: last_partition_def unopened_def split: option.splits nextres.splits sum.splits prod.splits)
    qed
  qed
  with assms(2) show ?thesis by simp
qed

lemma FilterIter_last:
  assumes "FilterIter_Next nxt cond i = Some y" and "last_partition i"
    and step: "\<And>i y. nxt i = Some y \<Longrightarrow> last_partition i \<Longrightarrow> last_partition (fst y) \<and> (\<forall>r. snd y = NRow r \<longrightarrow> unopened (fst y) = [])"
  shows "last_partition (fst y) \<and> (\<forall>r. snd y = NRow r \<longrightarrow> unopened (fst y) = [])"
proof -
  let ?P = "\<lambda>n c i y. n = nxt \<longrightarrow> last_partition i \<longrightarrow> last_partition (fst y) \<and> (\<forall>r. snd y = NRow r \<longrightarrow> unopened (fst y) = [])"
  have "?P nxt cond i y"
  proof (rule FilterIter_Next.raw_induct [where P = ?P, OF _ assms(1)], goal_cases)
    case (1 rec n c j z)
    show ?case
    proof (intro impI)
      assume n: "n = nxt" and last: "last_partition j"
      from 1(2) obtain y where y: "nxt j = Some y" using n by (auto split: option.splits)
      from step [OF y last] show "last_partition (fst z) \<and> (\<forall>r. snd z = NRow r \<longrightarrow> unopened (fst z) = [])"
        using 1(2) 1(1) [of nxt c "fst y" z] y n
        by (cases y) (auto split: nextres.splits sum.splits if_splits)
    qed
  qed
  with assms(2) show ?thesis by simp
qed

lemma mem_where_last:
  assumes "mem_where PF e w i = Some (i', NRow r)" and "last_partition i"
  shows "last_partition i' \<and> unopened i' = []"
proof -
  have "last_partition (fst (i', NRow r)) \<and> (\<forall>q. snd (i', NRow r) = NRow q \<longrightarrow> unopened (fst (i', NRow r)) = [])"
    using assms(1) unfolding mem_where_def by (rule FilterIter_last [OF _ assms(2)]) (rule TableRowIter_last, simp_all add: mem_scan_def)
  then show ?thesis by simp
qed

definition scan_inv :: "(nat \<Rightarrow> string list) \<Rightarrow> Schema \<Rightarrow> parse_float \<Rightarrow> expr \<Rightarrow> row list \<Rightarrow> tableIter TableRowIter \<Rightarrow> world \<Rightarrow> bool" where
  "scan_inv ords sch PF e rs s w \<longleftrightarrow>
     table_ok (fst w) \<and> tbl_schema (fst w) = sch \<and> (\<forall>m. visits (ords m) (fst w)) \<and> exact_rows (fst w) \<and>
     mset rs \<subseteq># mset (table_rows (fst w)) \<and> scan_contents PF e w s = (rs, None) \<and> tr_good ti_good s \<and>
     (pk_cols sch \<noteq> [] \<or> last_partition s)"

lemma replaced_opened:
  assumes "replaced t r new t'" and "table_ok t" and "mset (r # rs) \<subseteq># mset (table_rows t)"
    and "scan_contents PF e (t, n) s = (rs, None)" and "EvaluateCondition PF e r = Inr True"
    and "pk_cols (tbl_schema t) \<noteq> [] \<or> unopened s = []"
  shows "scan_contents PF e (t', n') s = (rs, None)"
proof -
  from assms(1) obtain k us vs where k: "partition_rows t k = us @ r # vs"
    and t': "t' = t\<lparr>partitions := AList.update k (us @ new @ vs) (partitions t)\<rparr>" by (auto simp: replaced_def)
  have cols: "tbl_columns t = []" using assms(2) by (simp add: table_ok_def)
  have "k \<notin> set (unopened s)"
  proof
    assume u: "k \<in> set (unopened s)"
    then have "distinct (table_rows t)" using assms(2,6) by (auto simp: table_ok_def distinct_map)
    moreover have "r \<in> set rs" using unopened_row_left [OF assms(4) u _ assms(5) cols] k by simp
    then have "count (mset (r # rs)) r \<ge> 2" by (simp add: Suc_le_eq)
    with mset_subset_eq_count [OF assms(3), of r] have "count (mset (table_rows t)) r \<ge> 2" by (rule order_trans [rotated])
    ultimately show False by (simp add: distinct_count_atmost_1 split: if_splits)
  qed
  then have "\<forall>k' \<in> set (unopened s). map_of (partitions t') k' = map_of (partitions t) k'"
    by (auto simp: t' update_conv')
  then show ?thesis using scan_contents_frame [of s t' t PF e n' n] assms(4) by (simp add: t')
qed

lemma scan_inv_step:
  assumes "scan_inv ords sch PF e (r # rs) s (t, n)" and "mem_where PF e (t, n) s = Some (s', NRow r)" and "tr_good ti_good s'"
    and "scan_contents PF e (t, n) s' = (rs, None)" and "replaced t r new t'"
    and new: "new = [] \<or> (\<exists>u. new = [u] \<and> checkRow sch u = Inr () \<and> list_all comparable u \<and> pk_key sch u = pk_key sch r \<and>
      (pk_cols sch = [] \<longrightarrow> map canon u = u))"
  shows "scan_inv ords sch PF e rs s' (t', n')"
proof -
  from assms(1) have t: "table_ok t" "tbl_schema t = sch" "\<forall>m. visits (ords m) t" "exact_rows t" "mset (r # rs) \<subseteq># mset (table_rows t)"
    and scan: "scan_contents PF e (t, n) s = (r # rs, None)" and last: "pk_cols sch \<noteq> [] \<or> last_partition s"
    by (simp_all add: scan_inv_def)
  have map: "map_ok (partitions t)" using t(1) by (simp add: table_ok_def)
  note rows = replaced_rows [OF assms(5) map]
  have ok: "table_ok t'" using new by (intro replaced_ok [OF assms(5) t(1)]) (auto simp: t(2))
  have "mset (table_rows t') + {#r#} = mset (table_rows t) + mset new" by (rule rows(1))
  moreover have "mset rs + {#r#} \<subseteq># mset (table_rows t) + mset new"
    using t(5) by (simp add: subset_mset.add_increasing2)
  ultimately have sub: "mset rs \<subseteq># mset (table_rows t')" by (metis mset_subset_eq_mono_add_right_cancel)
  have exact: "exact_rows t'"
  proof (cases "pk_cols sch = []")
    case True
    have "set (table_rows t') \<subseteq> set (table_rows t) \<union> set new" using rows(1) by (metis set_mset_mset set_mset_union sup_ge1)
    then show ?thesis using True t(2,4) rows(2) new by (auto simp: exact_rows_def)
  qed (simp add: exact_rows_def rows(2) t(2))
  have last': "pk_cols sch \<noteq> [] \<or> last_partition s' \<and> unopened s' = []" using last mem_where_last [OF assms(2)] by blast
  have "scan_contents PF e (t', n') s' = (rs, None)"
    by (rule replaced_opened [OF assms(5) t(1) t(5) assms(4)])
      (use scan_row_true [OF scan] last' in \<open>auto simp: t(2)\<close>)
  then show ?thesis using ok rows(2,5) t(2,3) exact sub assms(3) last' by (auto simp: scan_inv_def)
qed

lemma scan_inv_start:
  assumes "table_ok t" and "\<forall>m. visits (ords m) t" and "\<forall>r \<in> set (table_rows t). EvaluateCondition PF e r = Inr (P r)"
    and "exact_rows t" and "pk_cols (tbl_schema t) \<noteq> [] \<or> length (tbl_keys t) = 1"
    and "rs = filter P (concat (map (partition_rows t) (tbl_keys t)))"
  shows "scan_inv ords (tbl_schema t) PF e rs (NewTableRowIter (Partitions t)) (t, 0)"
proof -
  let ?all = "concat (map (partition_rows t) (tbl_keys t))"
  have all: "mset ?all = mset (table_rows t)"
    using visited_rows [OF visits_keys [OF assms(1)]] assms(1) by (simp add: table_ok_def)
  then have mem: "set ?all = set (table_rows t)" by (metis set_mset_mset)
  from scan_start [OF assms(1), of PF "[]" "\<lambda>_. True" None None] have
    s: "tr_contents (PartitionRows t [] None) (table_contents PF) (NewTableRowIter (Partitions t)) = (?all, None)"
    "tr_good ti_good (NewTableRowIter (Partitions t))" by simp_all
  have "filter_rows (EvaluateCondition PF e) ?all None = (rs, None)"
    unfolding assms(6) using assms(3) by (intro filter_rows_total) (simp add: mem [symmetric] del: set_concat)
  with s have "scan_contents PF e (t, 0) (NewTableRowIter (Partitions t)) = (rs, None)"
    by (simp add: scan_contents_def filter_contents_def)
  moreover have "mset rs \<subseteq># mset (table_rows t)" using all by (simp add: assms(6) multiset_filter_subset flip: all)
  moreover have "length (tbl_keys t) = 1 \<Longrightarrow> last_partition (NewTableRowIter (Partitions t))"
    using length_filter_le [of _ "tbl_keys t"] by (simp add: last_partition_def NewTableRowIter_def Partitions_def)
  ultimately show ?thesis using assms(1,2,4,5) s(2) by (auto simp: scan_inv_def)
qed

section \<open>DELETE\<close>

text \<open>\<^verbatim>\<open>RowUpdateAccumulator(DeleteFrom(Filter(e, ResolvedTable(t))))\<close>.\<close>

definition delete_statement ::
    "parse_float \<Rightarrow> (nat \<Rightarrow> string list) \<Rightarrow> expr \<Rightarrow> MemTable \<Rightarrow>
     ((tableIter TableRowIter, world) editIter accumulatorIter \<times> OkResult nextres) option" where
  "delete_statement PF ords e t =
     accumulatorIter_Next (deleteIter_Next (tbl_schema t) (mem_where PF e) (mem_Delete ords))
       (newAccumulatorIter UpdateTypeDelete (tbl_schema t)
         \<lparr>ei_child = NewTableRowIter (Partitions t), ei_world = (t, 0), ei_closed = False\<rparr>)"

lemma delete_act_row: "length r = length sch \<Longrightarrow> delete r w = (Inr (), w') \<Longrightarrow> delete_act sch delete r w = (Inr r, w')"
  by (simp add: delete_act_def last_columns_def)

lemma delete_steady:
  "steady (mem_where PF e) (scan_contents PF e) (tr_good ti_good) (delete_act sch (mem_Delete ords)) (scan_inv ords sch PF e)"
  unfolding steady_def
proof (intro allI impI, elim conjE)
  fix r rs s w s' out w'
  assume inv: "scan_inv ords sch PF e (r # rs) s w" and src: "mem_where PF e w s = Some (s', NRow r)" "tr_good ti_good s'"
    "scan_contents PF e w s' = (rs, None)" and act: "delete_act sch (mem_Delete ords) r w = (Inr out, w')"
  obtain t n where w: "w = (t, n)" by (cases w)
  from inv have t: "table_ok t" "tbl_schema t = sch" "visits (ords n) t" "exact_rows t" "mset (r # rs) \<subseteq># mset (table_rows t)"
    by (simp_all add: scan_inv_def w)
  have r: "r \<in> set (table_rows t)" using set_mset_mono [OF t(5)] by simp
  from delete_step [where ords = ords, OF t(1,3,4) r] obtain t' where t': "mem_Delete ords r (t, n) = (Inr (), (t', n + 1))" "replaced t r [] t'" by blast
  have "w' = (t', n + 1)" using act delete_act_row [of r sch "mem_Delete ords"] t'(1) table_row [OF t(1) r] t(2) by (simp add: w)
  with scan_inv_step [OF inv [unfolded w] src [unfolded w] t'(2), of "n + 1"] show "scan_contents PF e w' s' = (rs, None) \<and> scan_inv ords sch PF e rs s' w'"
    by (simp add: scan_inv_def)
qed

lemma delete_acts:
  assumes "table_ok t" "\<forall>m. visits (ords m) t" "exact_rows t" "mset rs \<subseteq># mset (table_rows t)"
  shows "\<exists>t' n'. run_acts (delete_act (tbl_schema t) (mem_Delete ords)) (deleteRowHandler c) rs (t, n) =
      (Inr (deleteRowHandler (c + length rs)), (t', n')) \<and> table_ok t' \<and> mset (table_rows t') + mset rs = mset (table_rows t)"
  using assms
proof (induction rs arbitrary: t n c)
  case (Cons r rs)
  have r: "r \<in> set (table_rows t)" using set_mset_mono [OF Cons.prems(4)] by simp
  from delete_step [where ords = ords and n = n, OF Cons.prems(1) _ Cons.prems(3) r] Cons.prems(2) obtain t' where
    t': "mem_Delete ords r (t, n) = (Inr (), (t', n + 1))" "replaced t r [] t'" by blast
  have map: "map_ok (partitions t)" using Cons.prems(1) by (simp add: table_ok_def)
  note rows = replaced_rows [OF t'(2) map]
  have ok: "table_ok t'" by (rule replaced_ok [OF t'(2) Cons.prems(1)]) simp
  have eq: "mset (table_rows t) = add_mset r (mset (table_rows t'))" using rows(1) by simp
  have "set (table_rows t') \<subseteq> set (table_rows t)" using eq by (metis insert_iff set_mset_add_mset_insert set_mset_mset subsetI)
  then have ex: "exact_rows t'" using Cons.prems(3) rows(2) by (auto simp: exact_rows_def)
  have sub: "mset rs \<subseteq># mset (table_rows t')" using Cons.prems(4) eq by simp
  have vis: "\<forall>m. visits (ords m) t'" using Cons.prems(2) rows(5) by blast
  from Cons.IH [OF ok vis ex sub, of "c + 1" "n + 1"] obtain t2 n2 where
    "run_acts (delete_act (tbl_schema t') (mem_Delete ords)) (deleteRowHandler (c + 1)) rs (t', n + 1) =
      (Inr (deleteRowHandler (c + 1 + length rs)), (t2, n2))" "table_ok t2" "mset (table_rows t2) + mset rs = mset (table_rows t')"
    by blast
  moreover have "delete_act (tbl_schema t) (mem_Delete ords) r (t, n) = (Inr r, (t', n + 1))"
    using table_row [OF Cons.prems(1) r] t'(1) by (intro delete_act_row) simp_all
  ultimately show ?case using eq rows(2) by (auto simp: handleRowUpdate_def)
qed simp

lemma filter_mset_not: "mset xs = mset (filter P xs) + mset (filter (\<lambda>x. \<not> P x) xs)"
  by (simp add: multiset_partition)



section \<open>UPDATE\<close>

text \<open>\<^verbatim>\<open>RowUpdateAccumulator(Update(UpdateSource(Filter(e, ResolvedTable(t)), exprs)))\<close>.\<close>

definition mem_update_source :: "parse_float \<Rightarrow> expr \<Rightarrow> Schema \<Rightarrow> update_expr list \<Rightarrow> (tableIter TableRowIter, world) source" where
  "mem_update_source PF e schema exprs w = updateSourceIter_Next schema exprs (mem_where PF e w)"

definition update_statement ::
    "parse_float \<Rightarrow> (nat \<Rightarrow> string list) \<Rightarrow> expr \<Rightarrow> update_expr list \<Rightarrow> MemTable \<Rightarrow>
     ((tableIter TableRowIter, world) editIter accumulatorIter \<times> OkResult nextres) option" where
  "update_statement PF ords e exprs t =
     accumulatorIter_Next (updateIter_Next (tbl_schema t) (mem_update_source PF e (tbl_schema t) exprs) (mem_Update ords))
       (newAccumulatorIter UpdateTypeUpdate (tbl_schema t @ tbl_schema t)
         \<lparr>ei_child = NewTableRowIter (Partitions t), ei_world = (t, 0), ei_closed = False\<rparr>)"

definition update_row :: "Schema \<Rightarrow> update_expr list \<Rightarrow> row \<Rightarrow> sql_error + row" where
  "update_row schema exprs old = bindE (applyUpdateExpressions exprs old) (\<lambda>new.
     if length schema < length old then
       (if length new < length schema then Inl (Panic ''slice bounds out of range'')
        else Inr (drop (length old - length schema) old @ drop (length new - length schema) new))
     else Inr (old @ new))"

lemma updateSource_project: "updateSourceIter_Next schema exprs nxt = projectIter_Next nxt (update_row schema exprs)"
  by (auto simp: fun_eq_iff updateSourceIter_Next_def projectIter_Next_def update_row_def split: option.splits nextres.splits sum.splits)

definition update_contents :: "parse_float \<Rightarrow> expr \<Rightarrow> Schema \<Rightarrow> update_expr list \<Rightarrow> world \<Rightarrow> tableIter TableRowIter \<Rightarrow> row todo" where
  "update_contents PF e schema exprs w = project_contents (update_row schema exprs) (scan_contents PF e w)"

interpretation memupdate: project_over "mem_where PF e w" "scan_contents PF e w" "tr_good ti_good" "update_row schema exprs"
  for PF e w schema exprs
  unfolding project_over_def by (rule mem.src_iter)

interpretation upd: edit_source "mem_update_source PF e schema exprs" "update_contents PF e schema exprs" "tr_good ti_good"
  for PF e schema exprs
  by (rule edit_source.intro)
    (unfold mem_update_source_def updateSource_project update_contents_def, rule memupdate.proj.row_iter_axioms)

text \<open>
  The update that is expected on the rows \<open>S\<close>: the expressions compute \<open>u\<close>, which is a row of the table with the same key;
  \<open>same\<close> tells the rows that do not change.
\<close>

definition updates_to :: "Schema \<Rightarrow> update_expr list \<Rightarrow> row set \<Rightarrow> (row \<Rightarrow> row) \<Rightarrow> (row \<Rightarrow> bool) \<Rightarrow> bool" where
  "updates_to sch exprs S u same \<longleftrightarrow> (\<forall>r \<in> S. applyUpdateExpressions exprs r = Inr (u r) \<and> schema_equals sch r (u r) = Inr (same r) \<and>
     checkRow sch (u r) = Inr () \<and> list_all comparable (u r) \<and> pk_key sch (u r) = pk_key sch r \<and>
     (pk_cols sch = [] \<longrightarrow> map canon (u r) = u r))"

definition update_inv ::
    "(nat \<Rightarrow> string list) \<Rightarrow> Schema \<Rightarrow> parse_float \<Rightarrow> expr \<Rightarrow> row set \<Rightarrow> (row \<Rightarrow> row) \<Rightarrow> row list \<Rightarrow> tableIter TableRowIter \<Rightarrow> world \<Rightarrow> bool" where
  "update_inv ords sch PF e S u qs s w \<longleftrightarrow>
     (\<exists>rs. qs = map (\<lambda>r. r @ u r) rs \<and> set rs \<subseteq> S \<and> scan_inv ords sch PF e rs s w)"

lemma halves [simp]: "length r = length q \<Longrightarrow> old_half (r @ q) = r" "length r = length q \<Longrightarrow> new_half (r @ q) = q"
  by (simp_all add: old_half_def new_half_def)

lemma update_row_append: "applyUpdateExpressions exprs r = Inr q \<Longrightarrow> length r = length sch \<Longrightarrow> update_row sch exprs r = Inr (r @ q)"
  by (simp add: update_row_def)

lemma scan_inv_row:
  assumes "scan_inv ords sch PF e (r # rs) s (t, n)"
  shows "r \<in> set (table_rows t)" "length r = length sch"
proof -
  from assms have t: "mset (r # rs) \<subseteq># mset (table_rows t)" "table_ok t" "tbl_schema t = sch" by (simp_all add: scan_inv_def)
  show r: "r \<in> set (table_rows t)" using set_mset_mono [OF t(1)] by simp
  show "length r = length sch" using table_row [OF t(2) r] t(3) by simp
qed

lemma scan_inv_length: "scan_inv ords sch PF e rs s w \<Longrightarrow> r \<in> set rs \<Longrightarrow> length r = length sch"
proof -
  assume a: "scan_inv ords sch PF e rs s w" "r \<in> set rs"
  then have t: "mset rs \<subseteq># mset (table_rows (fst w))" "table_ok (fst w)" "tbl_schema (fst w) = sch" by (simp_all add: scan_inv_def)
  have "r \<in> set (table_rows (fst w))" using set_mset_mono [OF t(1)] a(2) by auto
  with table_row [OF t(2)] t(3) show ?thesis by simp
qed

lemma update_contents_map:
  assumes "updates_to sch exprs S u same" and "set rs \<subseteq> S" and "scan_inv ords sch PF e rs s w"
  shows "update_contents PF e sch exprs w s = (map (\<lambda>r. r @ u r) rs, None)"
proof -
  have "map_rows (update_row sch exprs) rs None = (map (\<lambda>r. r @ u r) rs, None)"
    using assms(1,2) scan_inv_length [OF assms(3)] by (intro map_rows_total update_row_append) (auto simp: updates_to_def)
  then show ?thesis using assms(3) by (simp add: update_contents_def project_contents_def scan_inv_def)
qed

lemma scan_inv_skip:
  assumes "scan_inv ords sch PF e (r # rs) s w" and "mem_where PF e w s = Some (s', NRow r)" and "tr_good ti_good s'"
    and "scan_contents PF e w s' = (rs, None)"
  shows "scan_inv ords sch PF e rs s' w"
proof -
  have "mset rs \<subseteq># mset (table_rows (fst w))" using assms(1) by (auto simp: scan_inv_def dest!: mset_subset_eq_insertD intro: subset_mset.less_imp_le)
  moreover have "pk_cols sch \<noteq> [] \<or> last_partition s'" using assms(1) mem_where_last [OF assms(2)] by (auto simp: scan_inv_def)
  ultimately show ?thesis using assms(1,3,4) by (simp add: scan_inv_def)
qed

lemma update_one:
  assumes "updates_to sch exprs S u same" and "r \<in> S"
    and t: "table_ok t" "tbl_schema t = sch" "visits (ords n) t" "exact_rows t" "r \<in> set (table_rows t)"
  shows "(if same r then update_act sch (mem_Update ords) (r @ u r) (t, n) = (Inr (r @ u r), (t, n))
    else \<exists>t'. update_act sch (mem_Update ords) (r @ u r) (t, n) = (Inr (r @ u r), (t', n + 1)) \<and> replaced t r [u r] t')"
proof -
  from assms(1,2) have u: "schema_equals sch r (u r) = Inr (same r)" "checkRow sch (u r) = Inr ()" "list_all comparable (u r)"
    "pk_key sch (u r) = pk_key sch r" by (simp_all add: updates_to_def)
  have len: "length r = length (u r)" using u(2) table_row [OF t(1,5)] t(2) by (auto simp: checkRow_def split: if_splits)
  show ?thesis
  proof (cases "same r")
    case True
    then show ?thesis using u(1) len by (simp add: update_act_def)
  next
    case False
    from update_step [where ords = ords, OF t(1,3,4,5), of "u r"] u(2-4) t(2) obtain t' where
      t': "mem_Update ords r (u r) (t, n) = (Inr (), (t', n + 1))" "replaced t r [u r] t'" by blast
    then have "update_act sch (mem_Update ords) (r @ u r) (t, n) = (Inr (r @ u r), (t', n + 1))"
      using False u(1) len by (simp add: update_act_def)
    with t'(2) False show ?thesis by auto
  qed
qed

lemma update_steady:
  assumes "updates_to sch exprs S u same"
  shows "steady (mem_update_source PF e sch exprs) (update_contents PF e sch exprs) (tr_good ti_good)
    (update_act sch (mem_Update ords)) (update_inv ords sch PF e S u)"
  unfolding steady_def
proof (intro allI impI, elim conjE)
  fix q qs s w s' out w'
  assume inv: "update_inv ords sch PF e S u (q # qs) s w" and src: "mem_update_source PF e sch exprs w s = Some (s', NRow q)"
    and act: "update_act sch (mem_Update ords) q w = (Inr out, w')"
  obtain t n where w: "w = (t, n)" by (cases w)
  from inv obtain r rs where q: "q = r @ u r" "qs = map (\<lambda>r. r @ u r) rs" "r \<in> S" "set rs \<subseteq> S"
    and scan: "scan_inv ords sch PF e (r # rs) s w" by (auto simp: update_inv_def)
  then have "scan_contents PF e w s = (r # rs, None)" "tr_good ti_good s" by (simp_all add: scan_inv_def)
  from row_iter.nxt_row [OF mem.src_iter this(2,1)] obtain s'' where
    s: "mem_where PF e w s = Some (s'', NRow r)" "tr_good ti_good s''" "scan_contents PF e w s'' = (rs, None)" by blast
  have "s'' = s'" using src s(1) by (auto simp: mem_update_source_def updateSource_project projectIter_Next_def split: sum.splits)
  note s = s [unfolded this]
  from scan have t: "table_ok t" "tbl_schema t = sch" "visits (ords n) t" "exact_rows t" by (simp_all add: scan_inv_def w)
  note one = update_one [where ords = ords, OF assms q(3) t scan_inv_row(1) [OF scan [unfolded w]]]
  have "scan_inv ords sch PF e rs s' w'"
  proof (cases "same r")
    case True
    then have "w' = w" using act one by (simp add: q(1) w)
    with scan_inv_skip [OF scan s] show ?thesis by simp
  next
    case False
    with one obtain t' where
      t': "update_act sch (mem_Update ords) (r @ u r) (t, n) = (Inr (r @ u r), (t', n + 1))" "replaced t r [u r] t'" by auto
    have "scan_inv ords sch PF e rs s' (t', n + 1)"
      by (rule scan_inv_step [OF scan [unfolded w] s [unfolded w] t'(2)]) (use assms q(3) in \<open>simp add: updates_to_def\<close>)
    with t'(1) act show ?thesis by (simp add: q(1) w)
  qed
  then show "update_contents PF e sch exprs w' s' = (qs, None) \<and> update_inv ords sch PF e S u qs s' w'"
    using update_contents_map [OF assms q(4)] q(2,4) by (auto simp: update_inv_def)
qed

lemma update_acts:
  assumes "updates_to sch exprs S u same" and "set rs \<subseteq> S"
    and "table_ok t" "tbl_schema t = sch" "\<forall>m. visits (ords m) t" "exact_rows t" "mset rs \<subseteq># mset (table_rows t)"
  shows "\<exists>t' n'. run_acts (update_act sch (mem_Update ords)) (updateRowHandler m c sch) (map (\<lambda>r. r @ u r) rs) (t, n) =
      (Inr (updateRowHandler (m + length rs) (c + length (filter (\<lambda>r. \<not> same r) rs)) sch), (t', n')) \<and> table_ok t' \<and>
      mset (table_rows t') + mset (filter (\<lambda>r. \<not> same r) rs) =
        mset (table_rows t) + mset (map u (filter (\<lambda>r. \<not> same r) rs))"
  using assms(2-)
proof (induction rs arbitrary: t n m c)
  case (Cons r rs)
  have r: "r \<in> set (table_rows t)" "r \<in> S" using set_mset_mono [OF Cons.prems(6)] Cons.prems(1) by auto
  have vis: "visits (ords n) t" using Cons.prems(4) by blast
  note one = update_one [where ords = ords, OF assms(1) r(2) Cons.prems(2,3) vis Cons.prems(5) r(1)]
  from assms(1) r(2) have u: "schema_equals sch r (u r) = Inr (same r)" "checkRow sch (u r) = Inr ()" "list_all comparable (u r)"
    "pk_key sch (u r) = pk_key sch r" "pk_cols sch = [] \<longrightarrow> map canon (u r) = u r" by (simp_all add: updates_to_def)
  have len: "length r = length (u r)" using u(2) table_row [OF Cons.prems(2) r(1)] Cons.prems(3) by (auto simp: checkRow_def split: if_splits)
  have S: "set rs \<subseteq> S" using Cons.prems(1) by simp
  show ?case
  proof (cases "same r")
    case True
    have sub: "mset rs \<subseteq># mset (table_rows t)" using Cons.prems(6) by (auto dest!: mset_subset_eq_insertD intro: subset_mset.less_imp_le)
    from Cons.IH [OF S Cons.prems(2-5) sub, of "m + 1" c n] show ?thesis
      using one True u(1) len by (auto simp: handleRowUpdate_def)
  next
    case False
    with one obtain t' where t': "update_act sch (mem_Update ords) (r @ u r) (t, n) = (Inr (r @ u r), (t', n + 1))" "replaced t r [u r] t'"
      by auto
    have map: "map_ok (partitions t)" using Cons.prems(2) by (simp add: table_ok_def)
    note rows = replaced_rows [OF t'(2) map]
    have ok: "table_ok t'" by (rule replaced_ok [OF t'(2) Cons.prems(2)]) (use u Cons.prems(3) in simp)
    have eq: "add_mset r (mset (table_rows t')) = add_mset (u r) (mset (table_rows t))" using rows(1) by simp
    have "mset (r # rs) \<subseteq># add_mset (u r) (mset (table_rows t))" using Cons.prems(6) by (metis add_mset_add_single subset_mset.add_increasing2 subset_mset.zero_le)
    then have sub: "mset rs \<subseteq># mset (table_rows t')" using eq by (metis mset.simps(2) mset_subset_eq_add_mset_cancel)
    have "set (table_rows t') \<subseteq> insert (u r) (set (table_rows t))"
      using eq by (metis set_mset_add_mset_insert set_mset_mset subset_insertI)
    then have ex: "exact_rows t'" using Cons.prems(3,5) rows(2) u(5) by (auto simp: exact_rows_def)
    have vis: "\<forall>m. visits (ords m) t'" using Cons.prems(4) rows(5) by blast
    have sch: "tbl_schema t' = sch" using rows(2) Cons.prems(3) by simp
    from Cons.IH [OF S ok sch vis ex sub, of "m + 1" "c + 1" "n + 1"] obtain t2 n2 where
      run: "run_acts (update_act sch (mem_Update ords)) (updateRowHandler (m + 1) (c + 1) sch) (map (\<lambda>r. r @ u r) rs) (t', n + 1) =
        (Inr (updateRowHandler (m + 1 + length rs) (c + 1 + length (filter (\<lambda>r. \<not> same r) rs)) sch), (t2, n2))" "table_ok t2"
      "mset (table_rows t2) + mset (filter (\<lambda>r. \<not> same r) rs) = mset (table_rows t') + mset (map u (filter (\<lambda>r. \<not> same r) rs))"
      by (elim exE conjE)
    have "mset (table_rows t2) + add_mset r (mset (filter (\<lambda>r. \<not> same r) rs)) =
        add_mset r (mset (table_rows t')) + mset (map u (filter (\<lambda>r. \<not> same r) rs))" using run(3) by simp
    then show ?thesis using run(1,2) t'(1) False u(1) len eq by (simp add: handleRowUpdate_def)
  qed
qed (simp add: exI)

lemma mset_map_if:
  "mset (map (\<lambda>x. if Q x then f x else x) xs) + mset (filter Q xs) = mset xs + mset (map f (filter Q xs))"
  by (induction xs) auto


definition v_column :: Column where
  "v_column = id_column\<lparr>Name := ''v'', PrimaryKey := False,
     ColumnType := \<lparr>Convert = (\<lambda>v. Inr v), TypeCompare = (\<lambda>v w. Inr (if v = w then 0 else 1))\<rparr>\<rparr>"

definition sample_table :: MemTable where
  "sample_table = \<lparr>tbl_name = ''t'', tbl_schema = [id_column, v_column], tbl_columns = [], tbl_indexes = [], tbl_foreignKeys = [],
     partitions = [(''0'', [[VInt64 1, VInt64 7], [VInt64 2, VInt64 8]]), (''1'', [[VInt64 3, VInt64 9]])], tbl_keys = [''0'', ''1''],
     tbl_insert = 0\<rparr>"

lemma sample_table:
  "table_ok sample_table" "visits [''1'', ''0''] sample_table" "pk_cols (tbl_schema sample_table) = [0]"
  "tbl_schema sample_table = [id_column, v_column]"
  "table_rows sample_table = [[VInt64 1, VInt64 7], [VInt64 2, VInt64 8], [VInt64 3, VInt64 9]]"
proof -
  have "ToLower ''id'' \<noteq> ToLower ''v''" by (auto dest: arg_cong [where f = length])
  then show "table_ok sample_table" "visits [''1'', ''0''] sample_table" "pk_cols (tbl_schema sample_table) = [0]"
    "tbl_schema sample_table = [id_column, v_column]"
    "table_rows sample_table = [[VInt64 1, VInt64 7], [VInt64 2, VInt64 8], [VInt64 3, VInt64 9]]"
    by (auto simp: sample_table_def table_ok_def map_ok_def schema_ok_def table_rows_def v_column_def id_column_def checkRow_def
        Check_def comparable_def pk_key_def pk_cols_def canon_def visits_def)
qed


definition dup_table :: MemTable where
  "dup_table = \<lparr>tbl_name = ''t'', tbl_schema = [v_column], tbl_columns = [], tbl_indexes = [], tbl_foreignKeys = [],
     partitions = [(''0'', [[VInt64 1]]), (''1'', [[VInt64 1]])], tbl_keys = [''0'', ''1''], tbl_insert = 0\<rparr>"

text \<open>
  Without a key, and with more than one partition, DELETE can leave rows behind: the row of the first partition is deleted from
  the second one, which is empty when the scan opens it.
\<close>

lemma delete_leaves_duplicate:
  "\<exists>a t' n. delete_statement (\<lambda>s. None) (\<lambda>m. [''1'', ''0'']) (\<lambda>r. Inr (VBool True)) dup_table = Some (a, NRow (NewOkResult 1)) \<and>
     ei_world (acc_iter a) = (t', n) \<and> table_rows t' = [[VInt64 1]]"
proof -
  let ?t = "dup_table\<lparr>partitions := [(''0'', [[VInt64 1]]), (''1'', [])]\<rparr>"
  let ?i = "\<lambda>k. \<lparr>ti_columns = [], ti_filters = [], ti_rows = [[VInt64 1]], indexValues = None, ti_pos = k\<rparr>"
  let ?s = "\<lambda>k. \<lparr>tr_partitions = \<lparr>pi_keys = [''0'', ''1''], pi_pos = 1\<rparr>, tr_partition = Some ''0'', tr_rows = Some (?i k)\<rparr>"
  let ?e = "\<lambda>r. Inr (VBool True)" and ?src = "mem_where (\<lambda>s. None) (\<lambda>r. Inr (VBool True))" and ?del = "mem_Delete (\<lambda>m. [''1'', ''0''])"
  note run = mem_where_def mem_scan_def next_partition_def partitionIter_Next_def PartitionRows_def getRow_def projectOnRow_def EvaluateCondition_def
  have t: "Partitions dup_table = [''0'', ''1'']" "map_of (partitions dup_table) ''0'' = Some [[VInt64 1]]" "tbl_columns dup_table = []"
    by (simp_all add: Partitions_def dup_table_def)
  have "TableRowIter_Next None (PartitionRows dup_table [] None) (tableIter_Next (\<lambda>s. None)) (\<lambda>_. None) (NewTableRowIter [''0'', ''1'']) =
      Some (?s 1, NRow [VInt64 1])"
    by (subst TableRowIter_Next.simps, simp add: NewTableRowIter_def run t, subst tableIter_Next.simps, simp add: run)
  then have 1: "?src (dup_table, 0) (NewTableRowIter [''0'', ''1'']) = Some (?s 1, NRow [VInt64 1])"
    by (simp add: mem_where_def mem_scan_def, subst FilterIter_Next.simps, simp add: EvaluateCondition_def)
  have del: "?del [VInt64 1] (dup_table, 0) = (Inr (), (?t, 1))"
    by (simp add: mem_Delete_def editor_Delete_def dup_table_def checkRow_def Check_def v_column_def id_column_def pkColumnIndexes_def
        delete_hit_def partition_rows_def go_eq_def comparable_def)
  let ?fin = "\<lparr>tr_partitions = \<lparr>pi_keys = [''0'', ''1''], pi_pos = 2\<rparr>, tr_partition = None, tr_rows = None\<rparr>"
  have "TableRowIter_Next None (PartitionRows ?t [] None) (tableIter_Next (\<lambda>s. None)) (\<lambda>_. None) (?s 1) = Some (?fin, NEOF)"
    by (subst TableRowIter_Next.simps, simp add: run, subst tableIter_Next.simps, simp add: run,
        subst TableRowIter_Next.simps, simp add: run t, subst tableIter_Next.simps, simp add: run,
        subst TableRowIter_Next.simps, simp add: run)
  then have 2: "?src (?t, 1) (?s 1) = Some (?fin, NEOF)"
    by (simp add: mem_where_def mem_scan_def, subst FilterIter_Next.simps, simp)
  have row: "last_columns (length (tbl_schema dup_table)) [VInt64 1] = [VInt64 1]" by (simp add: last_columns_def dup_table_def)
  have rows: "table_rows ?t = [[VInt64 1]]" by (simp add: table_rows_def)
  show ?thesis
    apply (simp add: delete_statement_def accumulatorIter_Next_def newAccumulatorIter_def row_handler_def t(1))
    apply (subst accumulate.simps, simp add: deleteIter_Next_def 1 del row handleRowUpdate_def)
    apply (subst accumulate.simps, simp add: deleteIter_Next_def 2 [unfolded One_nat_def] okResult_def rows)
    done
qed

end
