(* ===== verification/Insert_Statements.thy ===== *)
theory Insert_Statements
  imports Comparison Dml_Statements
begin

text \<open>
  INSERT, REPLACE and INSERT ... ON DUPLICATE KEY UPDATE on a table in memory that has a primary key: the iterator of
  \<^verbatim>\<open>sql/plan/insert.go\<close> with the editor of the table refines an insertion into a set of rows with keys.
\<close>

section \<open>The statement\<close>

text \<open>\<^verbatim>\<open>getUpdateAccumulatorType\<close> for an \<^verbatim>\<open>InsertInto\<close> node.\<close>

definition getUpdateAccumulatorType :: "bool \<Rightarrow> update_expr list \<Rightarrow> RowUpdateType" where
  "getUpdateAccumulatorType isReplace onDupExprs =
     (if isReplace then UpdateTypeReplace else if onDupExprs \<noteq> [] then UpdateTypeDuplicateKeyUpdate else UpdateTypeInsert)"

definition insert_env :: "parse_float \<Rightarrow> (nat \<Rightarrow> string list) \<Rightarrow> (row sliceRowIter, world, tableIter TableRowIter) insertEnv" where
  "insert_env PF ords =
     \<lparr>env_source = (\<lambda>w. sliceRowIter_Next), env_close = sliceRowIter_Close,
      env_insert = mem_Insert ords, env_delete = mem_Delete ords, env_update = mem_Update ords,
      env_open = (\<lambda>w. NewTableRowIter (Partitions (fst w))), env_rows = mem_scan PF\<rparr>"

text \<open>The rows \<open>rs\<close> come from a slice.\<close>

definition insert_statement ::
    "parse_float \<Rightarrow> (nat \<Rightarrow> string list) \<Rightarrow> bool \<Rightarrow> update_expr list \<Rightarrow> row list \<Rightarrow> MemTable \<Rightarrow>
     ((row sliceRowIter, world) editIter accumulatorIter \<times> OkResult nextres) option" where
  "insert_statement PF ords isReplace exprs rs t =
     accumulatorIter_Next (insertIter_Next PF (tbl_schema t) isReplace exprs (insert_env PF ords))
       (newAccumulatorIter (getUpdateAccumulatorType isReplace exprs)
         (if isReplace then tbl_schema t @ tbl_schema t else tbl_schema t)
         \<lparr>ei_child = RowsToRowIter rs, ei_world = (t, 0), ei_closed = False\<rparr>)"

section \<open>The specification\<close>

text \<open>The row that is inserted: the last columns, checked for NULLs and converted.\<close>

definition conv_row :: "Schema \<Rightarrow> row \<Rightarrow> sql_error + row" where
  "conv_row sch row0 =
     (let row = last_columns (length sch) row0 in bindE (validateNullability sch row) (\<lambda>_. convert_row sch row))"

text \<open>
  One row into the rows \<open>R\<close>. If the key is taken, INSERT fails, REPLACE replaces the row, and ON DUPLICATE KEY UPDATE updates it
  by \<open>u\<close>. The number counts a new row once, a replaced or changed row twice.
\<close>

definition insert_spec ::
    "Schema \<Rightarrow> RowUpdateType \<Rightarrow> (row \<Rightarrow> row) \<Rightarrow> (row \<Rightarrow> bool) \<Rightarrow> row multiset \<Rightarrow> row \<Rightarrow> (sql_error + nat) \<times> row multiset" where
  "insert_spec sch ty u same R row = (case checkRow sch row of
     Inl e \<Rightarrow> (Inl e, R)
   | Inr _ \<Rightarrow>
       (let T = filter_mset (\<lambda>r. pk_key sch r = pk_key sch row) R in
        if T = {#} then (Inr 1, add_mset row R)
        else (case ty of
          UpdateTypeReplace \<Rightarrow> (Inr 2, add_mset row (R - T))
        | UpdateTypeDuplicateKeyUpdate \<Rightarrow> (Inr (if \<forall>r \<in># T. same r then 0 else 2), R - T + image_mset u T)
        | _ \<Rightarrow> (Inl (ErrUniqueKeyViolation (map int (pk_cols sch))), R))))"

fun inserts_spec ::
    "Schema \<Rightarrow> RowUpdateType \<Rightarrow> (row \<Rightarrow> row) \<Rightarrow> (row \<Rightarrow> bool) \<Rightarrow> row multiset \<Rightarrow> row list \<Rightarrow> nat \<Rightarrow> (sql_error + nat) \<times> row multiset" where
  "inserts_spec sch ty u same R [] n = (Inr n, R)"
| "inserts_spec sch ty u same R (row0 # rs) n = (case conv_row sch row0 of
     Inl e \<Rightarrow> (Inl e, R)
   | Inr row \<Rightarrow>
       (case insert_spec sch ty u same R row of
          (Inl e, R') \<Rightarrow> (Inl e, R')
        | (Inr k, R') \<Rightarrow> inserts_spec sch ty u same R' rs (n + k)))"

section \<open>The iterator as actions on the table\<close>

definition dup_act ::
    "parse_float \<Rightarrow> Schema \<Rightarrow> update_expr list \<Rightarrow> ('s, 'w, 'i) insertEnv \<Rightarrow> row \<Rightarrow> 'w \<Rightarrow> ((sql_error + row) \<times> 'w) option" where
  "dup_act PF sch exprs env row w = (case pkExpression PF row 0 sch None of
     Inl e \<Rightarrow> Some (Inl e, w)
   | Inr None \<Rightarrow> Some (Inl (Panic ''invalid memory address or nil pointer dereference''), w)
   | Inr (Some pk) \<Rightarrow>
       (case FilterIter_Next (env_rows env w) (EvaluateCondition PF pk) (env_open env w) of
          Some (f, NRow old) \<Rightarrow>
            (case applyUpdateExpressions exprs old of
               Inl e \<Rightarrow> Some (Inl e, w)
             | Inr new \<Rightarrow> (case env_update env old new w of (Inl e, w') \<Rightarrow> Some (Inl e, w') | (Inr _, w') \<Rightarrow> Some (Inr (old @ new), w')))
        | Some (f, NErr e) \<Rightarrow> Some (Inl e, w)
        | _ \<Rightarrow> None))"

definition replace_act :: "('s, 'w, 'i) insertEnv \<Rightarrow> row \<Rightarrow> 'w \<Rightarrow> (sql_error + row) \<times> 'w" where
  "replace_act env row w = (case env_delete env row w of
     (res, w1) \<Rightarrow>
       if (case res of Inl e \<Rightarrow> e \<noteq> ErrDeleteRowNotFound | Inr _ \<Rightarrow> False) then (Inl (projl res), w1)
       else (case env_insert env row w1 of
         (Inl e, w2) \<Rightarrow> (Inl e, w2)
       | (Inr _, w2) \<Rightarrow> (Inr ((if isl res then map (\<lambda>_. VNil) row else row) @ row), w2)))"

definition insert_act ::
    "parse_float \<Rightarrow> Schema \<Rightarrow> bool \<Rightarrow> update_expr list \<Rightarrow> ('s, 'w, 'i) insertEnv \<Rightarrow> row \<Rightarrow> 'w \<Rightarrow> ((sql_error + row) \<times> 'w) option" where
  "insert_act PF sch isReplace exprs env row0 w = (case conv_row sch row0 of
     Inl e \<Rightarrow> Some (Inl e, w)
   | Inr row \<Rightarrow>
       if isReplace then Some (replace_act env row w)
       else (case env_insert env row w of
         (Inr _, w1) \<Rightarrow> Some (Inr row, w1)
       | (Inl e, w1) \<Rightarrow>
           if \<not> is_unique_violation e \<or> exprs = [] then Some (Inl e, w1) else dup_act PF sch exprs env row w1))"

lemma replace_row_act:
  "\<exists>s. replace_row env row d = (case replace_act env row (ei_world d) of
     (Inl e, w) \<Rightarrow> (d\<lparr>ei_child := s, ei_world := w\<rparr>, NErr e) | (Inr out, w) \<Rightarrow> (d\<lparr>ei_world := w\<rparr>, NRow out))"
  by (cases "env_delete env row (ei_world d)") (auto simp: replace_row_def replace_act_def split: prod.splits sum.splits)

lemma on_duplicate_act:
  "dup_act PF sch exprs env row (ei_world d) = Some y \<Longrightarrow> on_duplicate PF sch exprs env row d = (case y of
     (Inl e, w) \<Rightarrow> Some (d\<lparr>ei_world := w\<rparr>, NErr e) | (Inr out, w) \<Rightarrow> Some (d\<lparr>ei_world := w\<rparr>, NRow out))"
  by (auto simp: dup_act_def on_duplicate_def split: sum.splits option.splits prod.splits nextres.splits)

lemma insertIter_row:
  assumes src: "env_source env (ei_world d) (ei_child d) = Some (s, NRow row0)"
    and act: "insert_act PF sch isReplace exprs env row0 (ei_world d) = Some (res, w)"
  shows "case res of
      Inl e \<Rightarrow> \<exists>d'. insertIter_Next PF sch isReplace exprs env d = Some (d', NErr e) \<and> ei_world d' = w
    | Inr out \<Rightarrow> insertIter_Next PF sch isReplace exprs env d = Some (d\<lparr>ei_child := s, ei_world := w\<rparr>, NRow out)"
proof (cases "conv_row sch row0")
  case (Inl e)
  then show ?thesis using src act
    by (auto simp: insertIter_Next_def insert_act_def conv_row_def Let_def bindE_eq_Inl_iff split: sum.splits)
next
  case (Inr row)
  then have conv: "validateNullability sch (last_columns (length sch) row0) = Inr ()" "convert_row sch (last_columns (length sch) row0) = Inr row"
    by (auto simp: conv_row_def Let_def bindE_eq_Inr_iff)
  let ?d = "d\<lparr>ei_child := s\<rparr>"
  show ?thesis
  proof (cases isReplace)
    case True
    from replace_row_act [of env row ?d] obtain s' where
      "replace_row env row ?d = (case replace_act env row (ei_world d) of
         (Inl e, w) \<Rightarrow> (?d\<lparr>ei_child := s', ei_world := w\<rparr>, NErr e) | (Inr out, w) \<Rightarrow> (?d\<lparr>ei_world := w\<rparr>, NRow out))"
      by (elim exE) simp
    then show ?thesis using src act Inr conv True by (auto simp: insertIter_Next_def insert_act_def split: sum.splits)
  next
    case False
    obtain r1 w1 where ins: "env_insert env row (ei_world d) = (r1, w1)" by fastforce
    show ?thesis
    proof (cases "\<exists>e. r1 = Inl e \<and> is_unique_violation e \<and> exprs \<noteq> []")
      case True
      then obtain e where e: "r1 = Inl e" "is_unique_violation e" "exprs \<noteq> []" by blast
      have "dup_act PF sch exprs env row (ei_world (?d\<lparr>ei_world := w1\<rparr>)) = Some (res, w)"
        using act Inr False ins e by (simp add: insert_act_def)
      from on_duplicate_act [OF this] show ?thesis
        using src Inr conv False ins e by (auto simp: insertIter_Next_def split: sum.splits)
    next
      case other: False
      then show ?thesis using src act Inr conv False ins
        by (auto simp: insertIter_Next_def insert_act_def split: sum.splits if_splits)
    qed
  qed
qed

lemma insertIter_edit:
  "edit_like (\<lambda>row0 w. insert_act PF sch isReplace exprs env row0 w \<noteq> None)
     (insertIter_Next PF sch isReplace exprs env) (env_source env) (\<lambda>row0 w. the (insert_act PF sch isReplace exprs env row0 w))"
  unfolding edit_like_def
proof (intro allI impI, goal_cases)
  case (1 d)
  show ?case
  proof (cases "\<exists>s row0. env_source env (ei_world d) (ei_child d) = Some (s, NRow row0)")
    case True
    then obtain s row0 where src: "env_source env (ei_world d) (ei_child d) = Some (s, NRow row0)" by blast
    with 1 obtain res w where act: "insert_act PF sch isReplace exprs env row0 (ei_world d) = Some (res, w)" by fastforce
    from insertIter_row [OF src act] show ?thesis using src act by (auto simp: edit_Next_def split: sum.splits)
  next
    case False
    then show ?thesis by (auto simp: edit_Next_def insertIter_Next_def split: option.splits nextres.splits)
  qed
qed

section \<open>One row\<close>

text \<open>
  Rows in the form in which an INSERT stores them: the values are results of the conversion to the type of their
  column, which does not change them any more.
\<close>

definition stored :: "Column \<Rightarrow> val \<Rightarrow> bool" where
  "stored c x \<longleftrightarrow> x = VNil \<or> Convert (ColumnType c) x = Inr x"

definition stored_rows :: "Schema \<Rightarrow> row set" where
  "stored_rows sch = {r. checkRow sch r = Inr () \<and> list_all comparable r \<and> list_all2 stored sch r}"

text \<open>What the search for a key needs of the types: converting a value twice is converting it once, key columns are not
  nullable, and values of a key column in the form that is stored compare as equal exactly if they are equal.\<close>

definition converts_once :: "Schema \<Rightarrow> bool" where
  "converts_once sch \<longleftrightarrow> (\<forall>c \<in> set sch. \<forall>v w. Convert (ColumnType c) v = Inr w \<longrightarrow> stored c w)"

definition keys_not_null :: "Schema \<Rightarrow> bool" where
  "keys_not_null sch \<longleftrightarrow> (\<forall>c \<in> set sch. PrimaryKey c \<longrightarrow> \<not> Nullable c)"

definition keys_compare :: "Schema \<Rightarrow> bool" where
  "keys_compare sch \<longleftrightarrow> (\<forall>c \<in> set sch. PrimaryKey c \<longrightarrow> (\<forall>x y. stored c x \<and> stored c y \<and> x \<noteq> VNil \<and> y \<noteq> VNil \<and>
     comparable x \<and> comparable y \<longrightarrow> (\<exists>n. ColType.TypeCompare (ColumnType c) x y = Inr n \<and> (n = 0 \<longleftrightarrow> canon x = canon y))))"

lemma check_types_nth: "check_types cs vs = Inr () \<Longrightarrow> length vs = length cs \<Longrightarrow> k < length cs \<Longrightarrow> Check (cs ! k) (vs ! k)"
  by (induction cs vs arbitrary: k rule: check_types.induct) (auto simp: nth_Cons split: if_splits nat.splits)

lemma checkRow_nth:
  "checkRow sch row = Inr () \<Longrightarrow> length row = length sch \<and> (\<forall>k < length sch. Check (sch ! k) (row ! k))"
  using check_types_nth [of sch row] by (auto simp: checkRow_def split: if_splits)

lemma checkRow_error: "checkRow sch row = Inl e \<Longrightarrow> \<not> is_unique_violation e \<and> e \<noteq> ErrDeleteRowNotFound"
proof -
  assume a: "checkRow sch row = Inl e"
  have "check_types cs vs = Inl e \<Longrightarrow> e = ErrInvalidType" for cs vs
    by (induction cs vs rule: check_types.induct) (auto split: if_splits)
  from a this [of sch row] have "e = ErrUnexpectedRowLength (length sch) (length row) \<or> e = ErrInvalidType"
    by (auto simp: checkRow_def split: if_splits)
  then show ?thesis by (auto simp: is_unique_violation_def)
qed

text \<open>The condition that ON DUPLICATE KEY UPDATE searches with is true of the rows with the same key.\<close>

lemma stored_rows_nth:
  assumes "r \<in> stored_rows sch" and "k < length sch"
  shows "length r = length sch" "Check (sch ! k) (r ! k)" "comparable (r ! k)" "stored (sch ! k) (r ! k)"
proof -
  from assms(1) have r: "checkRow sch r = Inr ()" "list_all comparable r" "list_all2 stored sch r" by (simp_all add: stored_rows_def)
  from checkRow_nth [OF r(1)] assms(2) show "length r = length sch" "Check (sch ! k) (r ! k)" by simp_all
  with r(2,3) assms(2) show "comparable (r ! k)" "stored (sch ! k) (r ! k)"
    by (simp_all add: list_all_length list_all2_nthD)
qed

lemma column_equals_truth:
  assumes "keys_not_null sch" "keys_compare sch" and "k < length sch" "PrimaryKey (sch ! k)"
    and "row \<in> stored_rows sch" and "r \<in> stored_rows sch"
  shows "column_equals k (sch ! k) (row ! k) r = Inr (VBool (canon (r ! k) = canon (row ! k)))"
proof -
  note row = stored_rows_nth [OF assms(5,3)] and r = stored_rows_nth [OF assms(6,3)]
  have c: "sch ! k \<in> set sch" using assms(3) by simp
  have nn: "r ! k \<noteq> VNil" "row ! k \<noteq> VNil"
    using assms(1) [unfolded keys_not_null_def, rule_format, OF c assms(4)] row(2) r(2) by (auto simp: Check_def split: if_splits)
  with row r have "stored (sch ! k) (r ! k) \<and> stored (sch ! k) (row ! k) \<and> r ! k \<noteq> VNil \<and> row ! k \<noteq> VNil \<and>
    comparable (r ! k) \<and> comparable (row ! k)" by simp
  from assms(2) [unfolded keys_compare_def, rule_format, OF c assms(4) this] obtain n where
    "ColType.TypeCompare (ColumnType (sch ! k)) (r ! k) (row ! k) = Inr n" "n = 0 \<longleftrightarrow> canon (r ! k) = canon (row ! k)"
    by (elim exE conjE)
  with nn r(1) assms(3) show ?thesis by (auto simp: column_equals_def)
qed

lemma And_bools: "a r = Inr (VBool x) \<Longrightarrow> b r = Inr (VBool y) \<Longrightarrow> And PF a b r = Inr (VBool (x \<and> y))"
  by (auto simp: And_def is_false_def ConvertToBool_def)

definition pk_upto :: "Schema \<Rightarrow> nat \<Rightarrow> nat list" where
  "pk_upto sch i = filter (\<lambda>k. PrimaryKey (sch ! k)) [0..<i]"

lemma pk_upto_Suc: "pk_upto sch (Suc i) = pk_upto sch i @ (if PrimaryKey (sch ! i) then [i] else [])"
  by (simp add: pk_upto_def)

text \<open>The expression for the key columns before \<open>i\<close>.\<close>

definition key_acc :: "Schema \<Rightarrow> row \<Rightarrow> nat \<Rightarrow> expr option \<Rightarrow> bool" where
  "key_acc sch row i acc \<longleftrightarrow> (case acc of
     None \<Rightarrow> pk_upto sch i = []
   | Some a \<Rightarrow> \<forall>r \<in> stored_rows sch.
       a r = Inr (VBool (\<forall>k \<in> set (pk_upto sch i). canon (r ! k) = canon (row ! k))))"

lemma pkExpression_acc:
  assumes "keys_not_null sch" "keys_compare sch" and "row \<in> stored_rows sch"
    and "rest = drop i sch" and "key_acc sch row i acc"
  shows "\<exists>acc'. pkExpression PF row i rest acc = Inr acc' \<and> key_acc sch row (i + length rest) acc'"
  using assms(4-5)
proof (induction rest arbitrary: i acc)
  case (Cons c cs)
  then have dr: "drop i sch = c # cs" by simp
  have i: "i < length sch" using dr by (metis drop_all list.distinct(1) not_le)
  have c: "sch ! i = c" "cs = drop (Suc i) sch" using dr by (simp_all add: nth_via_drop drop_Suc flip: tl_drop)
  show ?case
  proof (cases "PrimaryKey c")
    case False
    then have "pk_upto sch (Suc i) = pk_upto sch i" using c(1) by (simp add: pk_upto_Suc)
    then have "key_acc sch row (Suc i) acc" using Cons.prems(2) by (simp add: key_acc_def split: option.splits)
    from Cons.IH [OF c(2) this] False show ?thesis by simp
  next
    case True
    then have upto: "pk_upto sch (Suc i) = pk_upto sch i @ [i]" using c(1) by (simp add: pk_upto_Suc)
    let ?e = "column_equals i c (row ! i)"
    let ?a = "case acc of None \<Rightarrow> ?e | Some a \<Rightarrow> And PF a ?e"
    have "?a r = Inr (VBool (\<forall>k \<in> set (pk_upto sch (Suc i)). canon (r ! k) = canon (row ! k)))"
      if r: "r \<in> stored_rows sch" for r
    proof -
      have e: "?e r = Inr (VBool (canon (r ! i) = canon (row ! i)))"
        using column_equals_truth [OF assms(1,2) i _ assms(3) r] c(1) True by simp
      show ?thesis
      proof (cases acc)
        case None
        with Cons.prems(2) have "pk_upto sch i = []" by (simp add: key_acc_def)
        with None e show ?thesis by (simp add: upto)
      next
        case (Some a)
        with Cons.prems(2) r have a: "a r = Inr (VBool (\<forall>k \<in> set (pk_upto sch i). canon (r ! k) = canon (row ! k)))"
          by (simp add: key_acc_def)
        have "And PF a ?e r = Inr (VBool ((\<forall>k \<in> set (pk_upto sch i). canon (r ! k) = canon (row ! k)) \<and> canon (r ! i) = canon (row ! i)))"
          using a e by (rule And_bools)
        with Some show ?thesis by (simp add: upto ball_Un conj_commute)
      qed
    qed
    then have "key_acc sch row (Suc i) (Some ?a)" by (simp add: key_acc_def)
    from Cons.IH [OF c(2) this] True i show ?thesis
      using checkRow_nth [of sch row] assms(3) by (simp add: Let_def stored_rows_def)
  qed
qed simp

lemma pkExpression_truth:
  assumes "keys_not_null sch" "keys_compare sch" and "row \<in> stored_rows sch" and "pk_cols sch \<noteq> []"
  shows "\<exists>pk. pkExpression PF row 0 sch None = Inr (Some pk) \<and>
    (\<forall>r \<in> stored_rows sch. pk r = Inr (VBool (pk_key sch r = pk_key sch row)))"
proof -
  have upto: "pk_upto sch (length sch) = pk_cols sch" by (simp add: pk_upto_def pk_cols_def)
  have "key_acc sch row 0 None" by (simp add: key_acc_def pk_upto_def)
  from pkExpression_acc [OF assms(1-3) _ this, of sch PF] obtain acc where
    acc: "pkExpression PF row 0 sch None = Inr acc" "key_acc sch row (length sch) acc" by auto
  then obtain pk where pk: "acc = Some pk" using assms(4) upto by (cases acc) (simp_all add: key_acc_def)
  have "(\<forall>k \<in> set (pk_cols sch). canon (r ! k) = canon (row ! k)) \<longleftrightarrow> pk_key sch r = pk_key sch row" for r
    by (simp add: pk_key_def)
  with acc pk upto show ?thesis by (simp add: key_acc_def)
qed

text \<open>A well-formed table with a key, visited in any order.\<close>

definition keyed_table :: "(nat \<Rightarrow> string list) \<Rightarrow> Schema \<Rightarrow> MemTable \<Rightarrow> bool" where
  "keyed_table ords sch t \<longleftrightarrow> table_ok t \<and> tbl_schema t = sch \<and> pk_cols sch \<noteq> [] \<and> (\<forall>m. visits (ords m) t)"

lemma keyed_edit:
  assumes "keyed_table ords sch t" and "apply_edit (ords n) t e = (res, t')" and "table_ok t'" "tbl_schema t' = tbl_schema t"
  shows "keyed_table ords sch t'"
proof -
  have "keys (partitions t') = keys (partitions t)"
    using assms(1) by (intro apply_edit_keys [OF _ _ assms(2)]) (simp_all add: keyed_table_def)
  then have "visits ord t' \<longleftrightarrow> visits ord t" for ord by (simp add: visits_def)
  then show ?thesis using assms by (simp add: keyed_table_def)
qed

lemma filter_mset_empty: "filter_mset P M = {#} \<longleftrightarrow> (\<forall>x \<in># M. \<not> P x)"
  by (induction M) auto

lemma distinct_key_filter: "distinct (map f xs) \<Longrightarrow> x \<in> set xs \<Longrightarrow> filter_mset (\<lambda>y. f y = f x) (mset xs) = {#x#}"
proof (induction xs)
  case (Cons a xs)
  show ?case
  proof (cases "a = x")
    case True
    then have "filter_mset (\<lambda>y. f y = f x) (mset xs) = {#}" using Cons.prems(1) unfolding filter_mset_empty by (auto simp: image_iff)
    with True show ?thesis by simp
  next
    case False
    with Cons show ?thesis by (auto simp: image_iff)
  qed
qed simp

lemma keyed_filter:
  assumes "keyed_table ords sch t"
  shows "filter_mset (\<lambda>r. pk_key sch r = pk_key sch row) (mset (table_rows t)) = {#} \<and> \<not> key_taken t row \<or>
    (\<exists>old \<in> set (table_rows t). pk_key sch old = pk_key sch row \<and> key_taken t row \<and>
      filter_mset (\<lambda>r. pk_key sch r = pk_key sch row) (mset (table_rows t)) = {#old#})"
proof (cases "key_taken t row")
  case True
  then obtain old where old: "old \<in> set (table_rows t)" "pk_key sch old = pk_key sch row"
    using assms by (auto simp: key_taken_def keyed_table_def)
  have "distinct (map (pk_key sch) (table_rows t))" using assms by (auto simp: keyed_table_def table_ok_def)
  from distinct_key_filter [OF this old(1)] old True show ?thesis by auto
next
  case False
  then show ?thesis using assms by (auto simp: key_taken_def keyed_table_def filter_mset_empty)
qed

lemma mem_Insert_step:
  assumes "keyed_table ords sch t" and "list_all comparable row"
  shows "case checkRow sch row of
      Inl e \<Rightarrow> mem_Insert ords row (t, n) = (Inl e, (t, n + 1))
    | Inr _ \<Rightarrow>
        if key_taken t row then mem_Insert ords row (t, n) = (Inl (ErrUniqueKeyViolation (map int (pk_cols sch))), (t, n + 1))
        else \<exists>t'. mem_Insert ords row (t, n) = (Inr (), (t', n + 1)) \<and> keyed_table ords sch t' \<and>
          mset (table_rows t') = add_mset row (mset (table_rows t))"
proof -
  have t: "table_ok t" "visits (ords n) t" "tbl_schema t = sch" using assms(1) by (simp_all add: keyed_table_def)
  note spec = editor_Insert_spec [OF t(1,2) assms(2), unfolded t(3)]
  have "keyed_table ords sch t'" if "editor_Insert (ords n) t row = (Inr (), t')" "table_ok t'" "tbl_schema t' = sch" for t'
    using that t(3) by (intro keyed_edit [OF assms(1), of n "EInsert row" "Inr ()"]) (simp_all add: apply_edit_def)
  with spec pk_indexes [OF t(1)] t(3) show ?thesis by (auto simp: mem_Insert_def split: sum.splits)
qed

lemma mem_Delete_step:
  assumes "keyed_table ords sch t" and "list_all comparable row"
  shows "case checkRow sch row of
      Inl e \<Rightarrow> mem_Delete ords row (t, n) = (Inl e, (t, n + 1))
    | Inr _ \<Rightarrow>
        if key_taken t row then \<exists>t' r. mem_Delete ords row (t, n) = (Inr (), (t', n + 1)) \<and> keyed_table ords sch t' \<and>
          pk_key sch r = pk_key sch row \<and> mset (table_rows t) = add_mset r (mset (table_rows t'))
        else mem_Delete ords row (t, n) = (Inl ErrDeleteRowNotFound, (t, n + 1))"
proof -
  have t: "table_ok t" "visits (ords n) t" "tbl_schema t = sch" "pk_cols sch \<noteq> []" using assms(1) by (simp_all add: keyed_table_def)
  note spec = editor_Delete_spec [OF t(1,2) assms(2), unfolded t(3)]
  have taken: "key_taken t row \<longleftrightarrow> (\<exists>r \<in> set (table_rows t). deletes sch row r)" using t(3,4) by (auto simp: key_taken_def deletes_def)
  have "keyed_table ords sch t'" if "editor_Delete (ords n) t row = (Inr (), t')" "table_ok t'" "tbl_schema t' = sch" for t'
    using that t(3) by (intro keyed_edit [OF assms(1), of n "EDelete row" "Inr ()"]) (simp_all add: apply_edit_def)
  note keyed = this
  show ?thesis
  proof (cases "checkRow sch row")
    case (Inl e)
    with spec show ?thesis by (simp add: mem_Delete_def)
  next
    case (Inr v)
    show ?thesis
    proof (cases "key_taken t row")
      case True
      with spec Inr taken obtain t' r where "editor_Delete (ords n) t row = (Inr (), t')" "table_ok t'" "tbl_schema t' = sch"
        "deletes sch row r" "mset (table_rows t) = add_mset r (mset (table_rows t'))" by auto
      with keyed [of t'] Inr True t(4) show ?thesis by (auto simp: mem_Delete_def deletes_def)
    qed (use spec Inr taken in \<open>simp add: mem_Delete_def\<close>)
  qed
qed

text \<open>The search for the row with the same key.\<close>

lemma duplicate_found:
  assumes "keyed_table ords sch t" and "old \<in> set (table_rows t)" "pk_key sch old = pk_key sch row"
    and "\<forall>r \<in> stored_rows sch. pk r = Inr (VBool (pk_key sch r = pk_key sch row))" and "set (table_rows t) \<subseteq> stored_rows sch"
  shows "\<exists>f. FilterIter_Next (mem_scan PF (t, n)) (EvaluateCondition PF pk) (NewTableRowIter (Partitions t)) = Some (f, NRow old)"
proof -
  have t: "table_ok t" "tbl_schema t = sch" "pk_cols sch \<noteq> []" "\<forall>m. visits (ords m) t" using assms(1) by (simp_all add: keyed_table_def)
  let ?P = "\<lambda>r. pk_key sch r = pk_key sch row" and ?all = "concat (map (partition_rows t) (tbl_keys t))"
  have cond: "\<forall>r \<in> set (table_rows t). EvaluateCondition PF pk r = Inr (?P r)"
    using assms(4,5) by (auto simp: EvaluateCondition_def)
  have "exact_rows t" using t(2,3) by (simp add: exact_rows_def)
  from scan_inv_start [OF t(1,4) cond this _ refl] t(2,3) have
    start: "tr_good ti_good (NewTableRowIter (Partitions t))" "scan_contents PF pk (t, 0) (NewTableRowIter (Partitions t)) = (filter ?P ?all, None)"
    by (simp_all add: scan_inv_def)
  have all: "mset ?all = mset (table_rows t)"
    using visited_rows [OF visits_keys [OF t(1)]] t(1) by (simp add: table_ok_def)
  have "distinct (map (pk_key sch) (table_rows t))" using t(1-3) by (auto simp: table_ok_def)
  from distinct_key_filter [OF this assms(2)] assms(3) all have "mset (filter ?P ?all) = {#old#}" by simp
  then have one: "filter ?P ?all = [old]" by (metis mset_single_iff)
  have "mem_where PF pk (t, 0) = mem_where PF pk (t, n)" by (simp add: mem_where_def mem_scan_def)
  with row_iter.nxt_row [OF mem.src_iter [of PF pk "(t, 0)"] start(1), of old "[]" None] start(2) one show ?thesis
    by (auto simp: mem_where_def)
qed

lemma mem_Update_step:
  assumes "keyed_table ords sch t" and "old \<in> set (table_rows t)"
    and "checkRow sch u = Inr ()" "list_all comparable u" "pk_key sch u = pk_key sch old"
  shows "\<exists>t'. mem_Update ords old u (t, n) = (Inr (), (t', n + 1)) \<and> keyed_table ords sch t' \<and>
    mset (table_rows t') + {#old#} = mset (table_rows t) + {#u#}"
proof -
  have t: "table_ok t" "tbl_schema t = sch" "pk_cols sch \<noteq> []" "\<forall>m. visits (ords m) t" using assms(1) by (simp_all add: keyed_table_def)
  have "exact_rows t" using t(2,3) by (simp add: exact_rows_def)
  from update_step [where ords = ords and n = n, OF t(1) _ this assms(2), of u] assms(3-5) t(2,4) obtain t' where
    t': "mem_Update ords old u (t, n) = (Inr (), (t', n + 1))" "replaced t old [u] t'" by auto
  have map: "map_ok (partitions t)" using t(1) by (simp add: table_ok_def)
  note rows = replaced_rows [OF t'(2) map]
  have "table_ok t'" by (rule replaced_ok [OF t'(2) t(1)]) (use assms(3-5) t(2) in simp)
  then have "keyed_table ords sch t'" using rows(2,5) t(2-4) by (simp add: keyed_table_def)
  with t'(1) rows(1) show ?thesis by auto
qed

text \<open>What the updates of ON DUPLICATE KEY UPDATE have to do on every row of the table.\<close>

definition insert_ok :: "Schema \<Rightarrow> bool \<Rightarrow> update_expr list \<Rightarrow> (row \<Rightarrow> row) \<Rightarrow> (row \<Rightarrow> bool) \<Rightarrow> bool" where
  "insert_ok sch isReplace exprs u same \<longleftrightarrow>
     (isReplace \<or> exprs \<noteq> [] \<longrightarrow> keys_not_null sch) \<and>
     (exprs \<noteq> [] \<longrightarrow> keys_compare sch \<and> converts_once sch \<and> updates_to sch exprs (stored_rows sch) u same \<and>
        u ` stored_rows sch \<subseteq> stored_rows sch)"

text \<open>The rows of the table are in that form if rows are searched for.\<close>

definition rows_stored :: "update_expr list \<Rightarrow> Schema \<Rightarrow> row multiset \<Rightarrow> bool" where
  "rows_stored exprs sch R \<longleftrightarrow> (exprs \<noteq> [] \<longrightarrow> set_mset R \<subseteq> stored_rows sch)"

lemma convert_row_stored:
  "convert_row cs vs = Inr vs' \<Longrightarrow> \<forall>c \<in> set cs. \<forall>v w. Convert (ColumnType c) v = Inr w \<longrightarrow> stored c w \<Longrightarrow>
   length vs' = length cs \<Longrightarrow> list_all2 stored cs vs'"
proof (induction cs vs arbitrary: vs' rule: convert_row.induct)
  case (3 c cs v vs)
  then show ?case by (auto simp: bindE_eq_Inr_iff stored_def split: if_splits)
qed (auto simp: stored_def)

lemma conv_row_stored:
  assumes "conv_row sch row0 = Inr row" and "converts_once sch" and "checkRow sch row = Inr ()" and "list_all comparable row"
  shows "row \<in> stored_rows sch"
  using assms convert_row_stored [of sch _ row] checkRow_nth [OF assms(3)]
  by (auto simp: conv_row_def Let_def bindE_eq_Inr_iff converts_once_def stored_rows_def)

text \<open>Inserting keeps that form.\<close>

lemma insert_spec_stored:
  assumes "conv_row sch row0 = Inr row" and "list_all comparable row" and "insert_ok sch isReplace exprs u same"
    and "rows_stored exprs sch R" and "insert_spec sch ty u same R row = (k, R')"
  shows "rows_stored exprs sch R'"
proof (cases "exprs = [] \<or> isl (checkRow sch row)")
  case True
  then show ?thesis using assms(4,5) by (cases "checkRow sch row") (auto simp: rows_stored_def insert_spec_def)
next
  case False
  then obtain x where x: "checkRow sch row = Inr x" by (cases "checkRow sch row") auto
  then have "checkRow sch row = Inr ()" by simp
  from conv_row_stored [OF assms(1) _ this assms(2)] assms(3,4) False
  have "row \<in> stored_rows sch" "set_mset R \<subseteq> stored_rows sch" "u ` stored_rows sch \<subseteq> stored_rows sch"
    by (simp_all add: insert_ok_def rows_stored_def)
  moreover define T where "T = filter_mset (\<lambda>r. pk_key sch r = pk_key sch row) R"
  moreover have "R' = R \<or> R' = add_mset row R \<or> R' = add_mset row (R - T) \<or> R' = R - T + image_mset u T"
    using assms(5) x by (auto simp: insert_spec_def Let_def T_def split: if_splits RowUpdateType.splits)
  moreover have "set_mset (R - T) \<subseteq> set_mset R" "set_mset T \<subseteq> set_mset R" by (auto simp: T_def dest: in_diffD)
  ultimately have "set_mset R' \<subseteq> stored_rows sch"
    by (elim disjE) (simp_all only: set_mset_union set_mset_add_mset_insert set_image_mset, blast+)
  then show ?thesis by (simp add: rows_stored_def)
qed

definition insert_handler :: "Schema \<Rightarrow> bool \<Rightarrow> update_expr list \<Rightarrow> nat \<Rightarrow> handler" where
  "insert_handler sch isReplace exprs n =
     (if isReplace then replaceRowHandler n else if exprs \<noteq> [] then onDuplicateUpdateHandler n sch else insertRowHandler n)"

text \<open>The result of an action on the table, and what the specification says.\<close>

definition act_refines ::
    "(nat \<Rightarrow> string list) \<Rightarrow> Schema \<Rightarrow> (nat \<Rightarrow> handler) \<Rightarrow> (sql_error + row) \<times> world \<Rightarrow> (sql_error + nat) \<times> row multiset \<Rightarrow> bool" where
  "act_refines ords sch h y z \<longleftrightarrow> keyed_table ords sch (fst (snd y)) \<and> mset (table_rows (fst (snd y))) = snd z \<and>
     (case fst z of
        Inl e \<Rightarrow> fst y = Inl e
      | Inr k \<Rightarrow> \<exists>out. fst y = Inr out \<and> (\<forall>c. handleRowUpdate (h c) out = Inr (h (c + k))))"

lemma key_not_nil:
  assumes "keys_not_null sch" "pk_cols sch \<noteq> []" "checkRow sch row = Inr ()"
  shows "list_ex (\<lambda>v. v \<noteq> VNil) row"
proof -
  from assms(2) obtain k where k: "k \<in> set (pk_cols sch)" by (cases "pk_cols sch") auto
  then have "k < length sch" "PrimaryKey (sch ! k)" by (auto simp: pk_cols_def)
  moreover from this have "\<not> Nullable (sch ! k)" using assms(1) by (auto simp: keys_not_null_def)
  ultimately have "row ! k \<noteq> VNil" "k < length row" using checkRow_nth [OF assms(3)] by (auto simp: Check_def split: if_splits)
  then show ?thesis by (auto simp: list_ex_length)
qed

lemma replace_one:
  assumes "keyed_table ords sch t" and "list_all comparable row" and "keys_not_null sch"
  shows "act_refines ords sch replaceRowHandler (replace_act (insert_env PF ords) row (t, n))
    (insert_spec sch UpdateTypeReplace u same (mset (table_rows t)) row)"
proof (cases "checkRow sch row")
  case (Inl e)
  then have "mem_Delete ords row (t, n) = (Inl e, (t, n + 1))" using mem_Delete_step [OF assms(1,2), of n] by simp
  with Inl checkRow_error [OF Inl] assms(1) show ?thesis
    by (simp add: act_refines_def replace_act_def insert_env_def insert_spec_def)
next
  case (Inr v)
  have nn: "list_ex (\<lambda>v. v \<noteq> VNil) row" using assms(1,3) Inr by (intro key_not_nil) (simp_all add: keyed_table_def)
  from keyed_filter [OF assms(1), of row] show ?thesis
  proof (elim disjE bexE conjE)
    assume none: "filter_mset (\<lambda>r. pk_key sch r = pk_key sch row) (mset (table_rows t)) = {#}" "\<not> key_taken t row"
    then have del: "mem_Delete ords row (t, n) = (Inl ErrDeleteRowNotFound, (t, n + 1))"
      using mem_Delete_step [OF assms(1,2), of n] Inr by simp
    from mem_Insert_step [OF assms(1,2), of "n + 1"] Inr none obtain t' where
      ins: "mem_Insert ords row (t, n + 1) = (Inr (), (t', n + 1 + 1))" "keyed_table ords sch t'"
        "mset (table_rows t') = add_mset row (mset (table_rows t))" by auto
    have "\<not> list_ex (\<lambda>v. v \<noteq> VNil) (map (\<lambda>_. VNil) row)" by (simp add: list_ex_iff)
    then show ?thesis using del ins none Inr
      by (simp add: act_refines_def replace_act_def insert_env_def insert_spec_def handleRowUpdate_def)
  next
    fix old assume old: "old \<in> set (table_rows t)" "pk_key sch old = pk_key sch row" "key_taken t row"
      "filter_mset (\<lambda>r. pk_key sch r = pk_key sch row) (mset (table_rows t)) = {#old#}"
    from mem_Delete_step [OF assms(1,2), of n] Inr old(3) obtain t1 r where
      del: "mem_Delete ords row (t, n) = (Inr (), (t1, n + 1))" "keyed_table ords sch t1" "pk_key sch r = pk_key sch row"
        "mset (table_rows t) = add_mset r (mset (table_rows t1))" by auto
    from old(4) del(3,4) have r: "r = old" "filter_mset (\<lambda>r. pk_key sch r = pk_key sch row) (mset (table_rows t1)) = {#}" by simp_all
    from keyed_filter [OF del(2), of row] r(2) have "\<not> key_taken t1 row" by auto
    with mem_Insert_step [OF del(2) assms(2), of "n + 1"] Inr obtain t' where
      ins: "mem_Insert ords row (t1, n + 1) = (Inr (), (t', n + 1 + 1))" "keyed_table ords sch t'"
        "mset (table_rows t') = add_mset row (mset (table_rows t1))" by auto
    have "insert_spec sch UpdateTypeReplace u same (mset (table_rows t)) row = (Inr 2, add_mset row (mset (table_rows t) - {#old#}))"
      using Inr unfolding insert_spec_def Let_def old(4) by simp
    with ins del(1,4) r(1) nn show ?thesis
      by (simp add: act_refines_def replace_act_def insert_env_def handleRowUpdate_def)
  qed
qed

lemma duplicate_one:
  assumes "keyed_table ords sch t" and "row \<in> stored_rows sch" and "keys_not_null sch" "keys_compare sch"
    and "updates_to sch exprs (stored_rows sch) u same" and "set (table_rows t) \<subseteq> stored_rows sch"
    and old: "old \<in> set (table_rows t)" "pk_key sch old = pk_key sch row"
      "filter_mset (\<lambda>r. pk_key sch r = pk_key sch row) (mset (table_rows t)) = {#old#}"
  shows "\<exists>y. dup_act PF sch exprs (insert_env PF ords) row (t, n) = Some y \<and>
    act_refines ords sch (\<lambda>c. onDuplicateUpdateHandler c sch) y
      (insert_spec sch UpdateTypeDuplicateKeyUpdate u same (mset (table_rows t)) row)"
proof -
  have t: "table_ok t" "tbl_schema t = sch" "pk_cols sch \<noteq> []" using assms(1) by (simp_all add: keyed_table_def)
  from pkExpression_truth [OF assms(3,4,2) t(3), of PF] obtain pk where pk: "pkExpression PF row 0 sch None = Inr (Some pk)"
    "\<forall>r \<in> stored_rows sch. pk r = Inr (VBool (pk_key sch r = pk_key sch row))"
    by (elim exE conjE)
  from duplicate_found [OF assms(1) old(1,2) pk(2) assms(6), of PF n] obtain f where
    f: "FilterIter_Next (mem_scan PF (t, n)) (EvaluateCondition PF pk) (NewTableRowIter (Partitions t)) = Some (f, NRow old)" by blast
  have "old \<in> stored_rows sch" using old(1) assms(6) by blast
  with assms(5) have u: "applyUpdateExpressions exprs old = Inr (u old)" "schema_equals sch old (u old) = Inr (same old)"
    "checkRow sch (u old) = Inr ()" "list_all comparable (u old)" "pk_key sch (u old) = pk_key sch old" by (simp_all add: updates_to_def)
  from mem_Update_step [OF assms(1) old(1) u(3-5), of n] obtain t' where
    t': "mem_Update ords old (u old) (t, n) = (Inr (), (t', n + 1))" "keyed_table ords sch t'"
      "mset (table_rows t') + {#old#} = mset (table_rows t) + {#u old#}" by blast
  have "dup_act PF sch exprs (insert_env PF ords) row (t, n) = Some (Inr (old @ u old), (t', n + 1))"
    using pk(1) f u(1) t'(1) by (simp add: dup_act_def insert_env_def)
  moreover have "insert_spec sch UpdateTypeDuplicateKeyUpdate u same (mset (table_rows t)) row =
      (Inr (if same old then 0 else 2), mset (table_rows t) - {#old#} + {#u old#})"
    using assms(2) unfolding insert_spec_def Let_def old(3) by (simp add: stored_rows_def)
  moreover have "mset (table_rows t') = mset (table_rows t) - {#old#} + {#u old#}"
  proof -
    have "mset (table_rows t') = mset (table_rows t) + {#u old#} - {#old#}" using t'(3) by (metis add_diff_cancel_right')
    moreover have "{#old#} \<subseteq># mset (table_rows t)" using old(1) by simp
    ultimately show ?thesis by (simp only: multiset_diff_union_assoc subset_mset.add_diff_assoc2)
  qed
  moreover have "length old = length sch" "length (u old) = length sch" "sch \<noteq> []"
    using table_row [OF t(1) old(1)] t(2,3) checkRow_nth [OF u(3)] by (auto simp: pk_cols_def)
  ultimately show ?thesis using t'(2) u(2) by (simp add: act_refines_def handleRowUpdate_def)
qed

lemma insert_one:
  assumes "keyed_table ords sch t" and "conv_row sch row0 = Inr row" "list_all comparable row" and "insert_ok sch isReplace exprs u same"
    and "rows_stored exprs sch (mset (table_rows t))"
  shows "\<exists>y. insert_act PF sch isReplace exprs (insert_env PF ords) row0 (t, n) = Some y \<and>
    act_refines ords sch (insert_handler sch isReplace exprs) y
      (insert_spec sch (getUpdateAccumulatorType isReplace exprs) u same (mset (table_rows t)) row)"
proof (cases isReplace)
  case True
  then have "insert_handler sch isReplace exprs = replaceRowHandler" by (simp add: fun_eq_iff insert_handler_def)
  moreover have "keys_not_null sch" using assms(4) True by (simp add: insert_ok_def)
  ultimately show ?thesis using replace_one [OF assms(1,3)] assms(2) True
    by (simp add: insert_act_def getUpdateAccumulatorType_def)
next
  case False
  note step = mem_Insert_step [OF assms(1,3), of n]
  show ?thesis
  proof (cases "checkRow sch row")
    case (Inl e)
    then show ?thesis using step assms(1,2) False checkRow_error [OF Inl]
      by (simp add: insert_act_def insert_env_def act_refines_def insert_spec_def)
  next
    case (Inr v)
    from keyed_filter [OF assms(1), of row] show ?thesis
    proof (elim disjE bexE conjE)
      assume none: "filter_mset (\<lambda>r. pk_key sch r = pk_key sch row) (mset (table_rows t)) = {#}" "\<not> key_taken t row"
      with step Inr obtain t' where t': "mem_Insert ords row (t, n) = (Inr (), (t', n + 1))" "keyed_table ords sch t'"
        "mset (table_rows t') = add_mset row (mset (table_rows t))" by auto
      have len: "length row = length sch" using checkRow_nth Inr by auto
      have "insert_spec sch (getUpdateAccumulatorType isReplace exprs) u same (mset (table_rows t)) row = (Inr 1, add_mset row (mset (table_rows t)))"
        using Inr unfolding insert_spec_def Let_def none(1) by simp
      then show ?thesis using t' assms(2) False len
        by (simp add: insert_act_def insert_env_def act_refines_def handleRowUpdate_def insert_handler_def)
    next
      fix old assume old: "old \<in> set (table_rows t)" "pk_key sch old = pk_key sch row" "key_taken t row"
        "filter_mset (\<lambda>r. pk_key sch r = pk_key sch row) (mset (table_rows t)) = {#old#}"
      with step Inr have ins: "mem_Insert ords row (t, n) = (Inl (ErrUniqueKeyViolation (map int (pk_cols sch))), (t, n + 1))" by simp
      have uv: "is_unique_violation (ErrUniqueKeyViolation ks)" for ks by (simp add: is_unique_violation_def)
      show ?thesis
      proof (cases "exprs = []")
        case True
        have "insert_spec sch UpdateTypeInsert u same (mset (table_rows t)) row =
            (Inl (ErrUniqueKeyViolation (map int (pk_cols sch))), mset (table_rows t))"
          using Inr unfolding insert_spec_def Let_def old(4) by simp
        then show ?thesis using ins assms(1,2) False True
          by (simp add: insert_act_def insert_env_def act_refines_def getUpdateAccumulatorType_def)
      next
        case dup: False
        have ok: "keys_not_null sch" "keys_compare sch" "updates_to sch exprs (stored_rows sch) u same" "converts_once sch"
          "set (table_rows t) \<subseteq> stored_rows sch"
          using assms(4,5) dup by (simp_all add: insert_ok_def rows_stored_def)
        have "row \<in> stored_rows sch" using conv_row_stored [OF assms(2) ok(4) _ assms(3)] Inr by simp
        moreover have "insert_handler sch isReplace exprs = (\<lambda>c. onDuplicateUpdateHandler c sch)"
          using False dup by (simp add: fun_eq_iff insert_handler_def)
        ultimately show ?thesis using duplicate_one [OF assms(1) _ ok(1-3,5) old(1,2,4), of PF "n + 1"] Inr
          using ins assms(2) False dup uv by (simp add: insert_act_def insert_env_def getUpdateAccumulatorType_def)
      qed
    qed
  qed
qed

section \<open>All rows\<close>

interpretation rows_source: edit_source "\<lambda>w :: world. sliceRowIter_Next" "\<lambda>w. slice_contents" "\<lambda>_. True"
  by (rule edit_source.intro) (rule slice.row_iter_axioms)

definition rows_comparable :: "Schema \<Rightarrow> row list \<Rightarrow> bool" where
  "rows_comparable sch rs \<longleftrightarrow> (\<forall>row0 \<in> set rs. \<forall>row. conv_row sch row0 = Inr row \<longrightarrow> list_all comparable row)"

definition insert_inv :: "(nat \<Rightarrow> string list) \<Rightarrow> update_expr list \<Rightarrow> Schema \<Rightarrow> row list \<Rightarrow> 's \<Rightarrow> world \<Rightarrow> bool" where
  "insert_inv ords exprs sch rs s w \<longleftrightarrow> keyed_table ords sch (fst w) \<and> rows_comparable sch rs \<and>
     rows_stored exprs sch (mset (table_rows (fst w)))"

lemma insert_act_defined:
  assumes "keyed_table ords sch (fst w)" and "rows_comparable sch (row0 # rs)" and "insert_ok sch isReplace exprs u same"
    and "rows_stored exprs sch (mset (table_rows (fst w)))"
  shows "\<exists>y. insert_act PF sch isReplace exprs (insert_env PF ords) row0 w = Some y \<and> (case conv_row sch row0 of
      Inl e \<Rightarrow> y = (Inl e, w)
    | Inr row \<Rightarrow> act_refines ords sch (insert_handler sch isReplace exprs) y
        (insert_spec sch (getUpdateAccumulatorType isReplace exprs) u same (mset (table_rows (fst w))) row) \<and>
        rows_stored exprs sch (mset (table_rows (fst (snd y)))))"
proof (cases "conv_row sch row0")
  case (Inl e)
  then show ?thesis by (simp add: insert_act_def)
next
  case (Inr row)
  then have c: "list_all comparable row" using assms(2) by (simp add: rows_comparable_def)
  from insert_one [OF assms(1) Inr c assms(3,4), of PF "snd w"] obtain y where
    y: "insert_act PF sch isReplace exprs (insert_env PF ords) row0 w = Some y"
      "act_refines ords sch (insert_handler sch isReplace exprs) y
        (insert_spec sch (getUpdateAccumulatorType isReplace exprs) u same (mset (table_rows (fst w))) row)" by auto
  have "rows_stored exprs sch (mset (table_rows (fst (snd y))))"
    using insert_spec_stored [OF Inr c assms(3,4) surjective_pairing] y(2) by (simp add: act_refines_def)
  with y Inr show ?thesis by simp
qed

lemma insert_steady:
  assumes "insert_ok sch isReplace exprs u same"
  shows "steady (\<lambda>w. sliceRowIter_Next) (\<lambda>w. slice_contents) (\<lambda>_. True)
    (\<lambda>row0 w. the (insert_act PF sch isReplace exprs (insert_env PF ords) row0 w)) (insert_inv ords exprs sch)"
  unfolding steady_def
proof (intro allI impI, elim conjE)
  fix r rs s w s' out w'
  assume inv: "insert_inv ords exprs sch (r # rs) s w" and c: "slice_contents s' = (rs, None)"
    and act: "the (insert_act PF sch isReplace exprs (insert_env PF ords) r w) = (Inr out, w')"
  from inv have "keyed_table ords sch (fst w)" "rows_comparable sch (r # rs)"
    "rows_stored exprs sch (mset (table_rows (fst w)))" by (simp_all add: insert_inv_def)
  from insert_act_defined [OF this(1,2) assms this(3), of PF] obtain y where
    y: "insert_act PF sch isReplace exprs (insert_env PF ords) r w = Some y" "case conv_row sch r of Inl e \<Rightarrow> y = (Inl e, w)
      | Inr row \<Rightarrow> act_refines ords sch (insert_handler sch isReplace exprs) y
        (insert_spec sch (getUpdateAccumulatorType isReplace exprs) u same (mset (table_rows (fst w))) row) \<and>
        rows_stored exprs sch (mset (table_rows (fst (snd y))))" by (elim exE conjE)
  with act have "y = (Inr out, w')" by simp
  with y(2) have "keyed_table ords sch (fst w')" "rows_stored exprs sch (mset (table_rows (fst w')))"
    by (cases "conv_row sch r"; simp add: act_refines_def)+
  moreover have "rows_comparable sch rs" using inv by (simp add: insert_inv_def rows_comparable_def)
  ultimately show "slice_contents s' = (rs, None) \<and> insert_inv ords exprs sch rs s' w'" using c by (simp add: insert_inv_def)
qed

lemma insert_acts:
  assumes "insert_ok sch isReplace exprs u same" and "keyed_table ords sch (fst w)" and "rows_comparable sch rs"
    and "rows_stored exprs sch (mset (table_rows (fst w)))" and "y = run_acts (\<lambda>row0 w. the (insert_act PF sch isReplace exprs (insert_env PF ords) row0 w)) (insert_handler sch isReplace exprs c) rs w"
    and "z = inserts_spec sch (getUpdateAccumulatorType isReplace exprs) u same (mset (table_rows (fst w))) rs c"
  shows "keyed_table ords sch (fst (snd y)) \<and> mset (table_rows (fst (snd y))) = snd z \<and>
    fst y = map_sum (\<lambda>e. e) (insert_handler sch isReplace exprs) (fst z)"
  using assms(2-)
proof (induction rs arbitrary: w c y z)
  case (Cons r rs)
  have rest: "rows_comparable sch rs" using Cons.prems(2) by (simp add: rows_comparable_def)
  let ?h = "insert_handler sch isReplace exprs"
  from insert_act_defined [OF Cons.prems(1,2) assms(1) Cons.prems(3), of PF] obtain x where
    x: "insert_act PF sch isReplace exprs (insert_env PF ords) r w = Some x" "case conv_row sch r of Inl e \<Rightarrow> x = (Inl e, w)
      | Inr row \<Rightarrow> act_refines ords sch ?h x
        (insert_spec sch (getUpdateAccumulatorType isReplace exprs) u same (mset (table_rows (fst w))) row) \<and>
        rows_stored exprs sch (mset (table_rows (fst (snd x))))" by (elim exE conjE)
  obtain res w' where rw: "x = (res, w')" by (cases x)
  have act: "insert_act PF sch isReplace exprs (insert_env PF ords) r w = Some (res, w')" using x(1) rw by simp
  have spec: "case conv_row sch r of Inl e \<Rightarrow> (res, w') = (Inl e, w)
      | Inr row \<Rightarrow> act_refines ords sch ?h (res, w')
        (insert_spec sch (getUpdateAccumulatorType isReplace exprs) u same (mset (table_rows (fst w))) row) \<and>
        rows_stored exprs sch (mset (table_rows (fst w')))" using x(2) unfolding rw snd_conv .
  show ?case
  proof (cases "conv_row sch r")
    case (Inl e)
    then show ?thesis using spec act Cons.prems by simp
  next
    case (Inr row)
    obtain k R where z: "insert_spec sch (getUpdateAccumulatorType isReplace exprs) u same (mset (table_rows (fst w))) row = (k, R)"
      by fastforce
    with spec Inr have w': "keyed_table ords sch (fst w')" "mset (table_rows (fst w')) = R"
      "case k of Inl e \<Rightarrow> res = Inl e | Inr k \<Rightarrow> \<exists>out. res = Inr out \<and> (\<forall>c. handleRowUpdate (?h c) out = Inr (?h (c + k)))"
      by (cases k; simp add: act_refines_def)+
    have st: "rows_stored exprs sch (mset (table_rows (fst w')))" using spec Inr by simp
    show ?thesis
    proof (cases k)
      case (Inl e)
      then show ?thesis using act Inr z w' Cons.prems(4,5) by simp
    next
      case k: (Inr k)
      with w'(3) obtain out where out: "res = Inr out" "handleRowUpdate (?h c) out = Inr (?h (c + k))" by auto
      have "y = run_acts (\<lambda>row0 w. the (insert_act PF sch isReplace exprs (insert_env PF ords) row0 w)) (?h (c + k)) rs w'"
        using Cons.prems(4) act out by simp
      moreover have "z = inserts_spec sch (getUpdateAccumulatorType isReplace exprs) u same (mset (table_rows (fst w'))) rs (c + k)"
        using Cons.prems(5) Inr z k w'(2) by simp
      ultimately show ?thesis using Cons.IH [OF w'(1) rest st] by blast
    qed
  qed
qed simp

section \<open>Columns of integer and string types\<close>

text \<open>The types of the engine meet what is required of the columns.\<close>

definition engine_type :: "typelib \<Rightarrow> sql_type \<Rightarrow> ColType" where
  "engine_type T t = \<lparr>Convert = TypeConvert T t, ColType.TypeCompare = Type_Values.TypeCompare T t\<rparr>"

fun key_type :: "sql_type \<Rightarrow> bool" where
  "key_type (NumberT q) = (int_range q \<noteq> None)"
| "key_type (StringT q n c) = (c \<in> known_collations \<and> 0 \<le> sint n \<and> sint n < 2 ^ 61)"
| "key_type _ = False"

lemma NumberConvert_result:
  assumes "NumberConvert L q v = Inr w" and "int_range q \<noteq> None"
  shows "w = VNil \<or> (\<exists>n. in_range q n \<and> w = int_val q n)"
proof (cases "v = VNil")
  case False
  have s: "\<exists>n. lo \<le> n \<and> n < hi + 1 \<and> w = f (word_of_int n)" if "convert_signed L u lo hi f = Inr w" for u lo hi f
  proof -
    from that obtain x where "\<not> hi < sint x" "\<not> sint x < lo" "w = f x"
      by (auto simp: convert_signed_def bindE_eq_Inr_iff split: if_splits)
    then show ?thesis by (intro exI [of _ "sint x"]) simp
  qed
  have u: "\<exists>n. 0 \<le> n \<and> n < uint hi + 1 \<and> w = f (word_of_int n)" if "convert_unsigned L u hi f = Inr w" for u hi f
  proof -
    from that obtain x where "\<not> uint hi < uint x" "w = f x"
      by (auto simp: convert_unsigned_def bindE_eq_Inr_iff word_less_def split: if_splits)
    then show ?thesis by (intro exI [of _ "uint x"]) simp
  qed
  have i: "\<exists>n. - (2 ^ 63) \<le> n \<and> n < 2 ^ 63 \<and> w = VInt64 (word_of_int n)" if "convert_int64 L u = Inr w" for u
  proof -
    from that obtain x where "w = VInt64 x" by (auto simp: convert_int64_def bindE_eq_Inr_iff split: val.splits if_splits)
    then show ?thesis using sint_ge [of x] sint_lt [of x] by (intro exI [of _ "sint x"]) simp
  qed
  have b: "\<exists>n. 0 \<le> n \<and> n < 2 ^ 64 \<and> w = VUint64 (word_of_int n)"
    if "bindE (ToUint64E L u) (\<lambda>num. Inr (VUint64 num)) = Inr w" for u
  proof -
    from that obtain x where "w = VUint64 x" by (auto simp: bindE_eq_Inr_iff)
    then show ?thesis using uint_lt2p [of x] by (intro exI [of _ "uint x"]) simp
  qed
  show ?thesis using assms False
    by (cases q) (auto simp: NumberConvert_def Let_def int_range_def in_range_def int_val_def ucast_word_of_int dest!: s u i b)
qed (use assms(1) in \<open>simp add: NumberConvert_def\<close>)

lemma StringConvert_again:
  assumes "cast_ok L" "c \<in> known_collations" "0 \<le> sint n" "sint n < 2 ^ 61" and "StringConvert L q n c v = Inr w"
  shows "w = VNil \<or> (\<exists>s. w = VString s \<and> StringConvert L q n c w = Inr w)"
proof (cases "v = VNil")
  case False
  from StringConvert_via_string [OF assms(1) False assms(5)] obtain s where
    s: "StringConvert L q n c (VString s) = Inr w" "w = string_finish q n s" by blast
  note conv = StringConvert_string [OF assms(1-4), of q]
  have "q = QText \<or> int (length s) \<le> sint n" using s(1) conv [of s] by (auto split: if_splits)
  with s conv show ?thesis by (auto simp: string_finish_def split: if_splits)
qed (use assms(5) in \<open>simp add: StringConvert_def\<close>)

lemma key_type_converts:
  assumes "cast_ok (lib T)" and "key_type t" and "TypeConvert T t v = Inr w" and "w \<noteq> VNil"
  shows "TypeConvert T t w = Inr w \<and>
    (case t of NumberT q \<Rightarrow> \<exists>n. in_range q n \<and> w = int_val q n | _ \<Rightarrow> \<exists>s. w = VString s)"
proof (cases t)
  case (NumberT q)
  with assms NumberConvert_result [of "lib T" q v w] obtain n where n: "in_range q n" "w = int_val q n"
    by (auto simp: TypeConvert_def)
  have "n < 2 ^ 63 \<or> unsigned_type q" using n(1) by (cases q) (auto simp: in_range_def int_range_def unsigned_type_def)
  with NumberConvert_int [OF assms(1) val_int_int_val [OF n(1)]] n assms(2) NumberT show ?thesis
    by (auto simp: TypeConvert_def)
next
  case (StringT q n c)
  with assms StringConvert_again [of "lib T" c n q v w] show ?thesis by (auto simp: TypeConvert_def)
qed (use assms(2) in simp_all)

lemma key_type_compares:
  assumes "cast_ok (lib T)" and "key_type t" and "TypeConvert T t x = Inr x" "TypeConvert T t y = Inr y" and "x \<noteq> VNil" "y \<noteq> VNil"
  shows "\<exists>n. Type_Values.TypeCompare T t x y = Inr n \<and> (n = 0 \<longleftrightarrow> canon x = canon y)"
proof -
  note cx = key_type_converts [OF assms(1-3,5), THEN conjunct2] and cy = key_type_converts [OF assms(1,2,4,6), THEN conjunct2]
  show ?thesis
  proof (cases t)
    case (NumberT q)
    with cx cy obtain n m where nm: "in_range q n" "x = int_val q n" "in_range q m" "y = int_val q m" by auto
    have "canon (int_val q k) = int_val q k" for k by (cases q) (simp_all add: canon_def int_val_def)
    moreover have "int_val q n = int_val q m \<longleftrightarrow> n = m" using val_int_int_val [OF nm(1)] val_int_int_val [OF nm(3)] by (metis option.inject)
    ultimately show ?thesis using NumberCompare_int [OF assms(1) nm(1,3)] nm(2,4) NumberT
      by (simp add: Type_Values.TypeCompare_def compare_by_def)
  next
    case (StringT q n c)
    with cx cy obtain s r where "x = VString s" "y = VString r" by auto
    with StringT show ?thesis
      by (auto simp: Type_Values.TypeCompare_def StringCompare_def compareNulls_def string_operand_def compare_by_def canon_def)
  qed (use assms(2) in simp_all)
qed

text \<open>A schema with such columns, of which only the key columns have to have these types for the keys to compare.\<close>

lemma engine_columns:
  assumes "cast_ok (lib T)" and "\<And>c. c \<in> set sch \<Longrightarrow> \<exists>t. key_type t \<and> ColumnType c = engine_type T t"
  shows "keys_compare sch" and "converts_once sch"
proof -
  have "\<exists>n. ColType.TypeCompare (ColumnType c) x y = Inr n \<and> (n = 0 \<longleftrightarrow> canon x = canon y)"
    if "c \<in> set sch" "stored c x" "stored c y" "x \<noteq> VNil" "y \<noteq> VNil" for c x y
  proof -
    from assms(2) [OF that(1)] obtain t where "key_type t" "ColumnType c = engine_type T t" by blast
    with key_type_compares [OF assms(1), of t x y] that show ?thesis by (simp add: stored_def engine_type_def)
  qed
  then show "keys_compare sch" by (simp add: keys_compare_def)
  have "stored c w" if "c \<in> set sch" "Convert (ColumnType c) v = Inr w" for c v w
  proof -
    from assms(2) [OF that(1)] obtain t where "key_type t" "ColumnType c = engine_type T t" by blast
    with key_type_converts [OF assms(1), of t v w] that(2) show ?thesis by (auto simp: stored_def engine_type_def)
  qed
  then show "converts_once sch" by (auto simp: converts_once_def)
qed

section \<open>Properties\<close>


text \<open>A table with two BIGINT columns.\<close>

definition int_lib :: typelib where
  "int_lib = \<lparr>lib = int_cast, oconv = \<lambda>t v. Inr v, ocomp = \<lambda>t a b. Inr 0, year = \<lambda>w e l. 0\<rparr>"

definition bigint :: ColType where
  "bigint = engine_type int_lib (NumberT QInt64)"

definition key_schema :: Schema where
  "key_schema = [id_column\<lparr>ColumnType := bigint\<rparr>, v_column\<lparr>ColumnType := bigint\<rparr>]"

definition key_table :: MemTable where
  "key_table = sample_table\<lparr>tbl_schema := key_schema\<rparr>"

lemma bigint [simp]:
  "Convert bigint (VInt64 k) = Inr (VInt64 k)"
  "ColType.TypeCompare bigint (VInt64 a) (VInt64 b) = Inr (if a = b then 0 else if a <s b then -1 else 1)"
  by (simp_all add: bigint_def engine_type_def TypeConvert_def Type_Values.TypeCompare_def int_lib_def NumberConvert_def NumberCompare_def
      time_seconds_def convert_int64_def compareSignedInts_def compareNulls_def int_cast_def val_int_def)

lemma bigint8: "Convert bigint (VInt8 1) = Inr (VInt64 1)"
  by (simp add: bigint_def engine_type_def TypeConvert_def int_lib_def NumberConvert_def time_seconds_def convert_int64_def int_cast_def
      val_int_def)

lemma bigint_stored: "Convert bigint x = Inr x \<Longrightarrow> x \<noteq> VNil \<Longrightarrow> \<exists>k. x = VInt64 k"
  using key_type_converts [of int_lib "NumberT QInt64" x x]
  by (auto simp: bigint_def engine_type_def int_lib_def int_cast_ok int_range_def int_val_def)

lemma key_schema:
  "length key_schema = 2" "ColumnType (key_schema ! 0) = bigint" "ColumnType (key_schema ! 1) = bigint"
  "PrimaryKey (key_schema ! 0)" "\<not> PrimaryKey (key_schema ! 1)" "\<not> Nullable (key_schema ! 0)" "\<not> Nullable (key_schema ! 1)"
  "Name (key_schema ! 0) = ''id''" "Name (key_schema ! 1) = ''v''"
  by (simp_all add: key_schema_def v_column_def id_column_def)

lemma key_stored: "r \<in> stored_rows key_schema \<longleftrightarrow> (\<exists>k v. r = [VInt64 k, VInt64 v])"
proof
  assume r: "r \<in> stored_rows key_schema"
  note nth = stored_rows_nth [OF r, of 0] stored_rows_nth [OF r, of 1]
  have "length r = 2" using nth(1) key_schema(1) by simp
  then obtain x y where "r = [x, y]" by (auto simp: length_Suc_conv numeral_2_eq_2)
  moreover from this nth(2,4,6,8) key_schema have "x \<noteq> VNil" "y \<noteq> VNil" "Convert bigint x = Inr x" "Convert bigint y = Inr y"
    by (auto simp: Check_def stored_def split: if_splits)
  ultimately show "\<exists>k v. r = [VInt64 k, VInt64 v]" using bigint_stored by metis
next
  assume "\<exists>k v. r = [VInt64 k, VInt64 v]"
  then show "r \<in> stored_rows key_schema"
    by (auto simp: stored_rows_def key_schema_def checkRow_def Check_def comparable_def stored_def v_column_def id_column_def)
qed

lemma key_table:
  "table_ok key_table" "visits [''1'', ''0''] key_table" "pk_cols key_schema = [0]" "tbl_schema key_table = key_schema"
  "table_rows key_table = [[VInt64 1, VInt64 7], [VInt64 2, VInt64 8], [VInt64 3, VInt64 9]]"
proof -
  have "ToLower ''id'' \<noteq> ToLower ''v''" by (auto dest: arg_cong [where f = length])
  then show "table_ok key_table" "visits [''1'', ''0''] key_table" "pk_cols key_schema = [0]" "tbl_schema key_table = key_schema"
    "table_rows key_table = [[VInt64 1, VInt64 7], [VInt64 2, VInt64 8], [VInt64 3, VInt64 9]]"
    by (auto simp: key_table_def sample_table_def table_ok_def map_ok_def schema_ok_def table_rows_def key_schema_def v_column_def id_column_def
        checkRow_def Check_def comparable_def pk_key_def pk_cols_def canon_def visits_def)
qed


end
