(* ===== verification/Catalogs.thy ===== *)
theory Catalogs
  imports Registry_Spec Similar_Text Memory_Table Row_Iter
begin

text \<open>
  The catalog (\<^verbatim>\<open>sql/catalog.go\<close>) with its functions (\<^verbatim>\<open>sql/functionregistry.go\<close>) and table locks (\<^verbatim>\<open>sql/plan/lock.go\<close>), and the
  databases in memory (\<^verbatim>\<open>memory/database.go\<close>).

  Tables are shared objects: a database maps names to addresses of a heap of tables. The catalog knows its databases only by
  the interface \<^verbatim>\<open>sql.Database\<close>, whose methods are the fields of a record.
\<close>

section \<open>Functions\<close>

text \<open>The constructor functions. The nine types of functions differ in the one they hold.\<close>

datatype (plugins only: "size") 'e CreateFunc =
    CreateFunc0Args "unit \<Rightarrow> 'e"
  | CreateFunc1Args "'e \<Rightarrow> 'e"
  | CreateFunc2Args "'e \<Rightarrow> 'e \<Rightarrow> 'e"
  | CreateFunc3Args "'e \<Rightarrow> 'e \<Rightarrow> 'e \<Rightarrow> 'e"
  | CreateFunc4Args "'e \<Rightarrow> 'e \<Rightarrow> 'e \<Rightarrow> 'e \<Rightarrow> 'e"
  | CreateFunc5Args "'e \<Rightarrow> 'e \<Rightarrow> 'e \<Rightarrow> 'e \<Rightarrow> 'e \<Rightarrow> 'e"
  | CreateFunc6Args "'e \<Rightarrow> 'e \<Rightarrow> 'e \<Rightarrow> 'e \<Rightarrow> 'e \<Rightarrow> 'e \<Rightarrow> 'e"
  | CreateFunc7Args "'e \<Rightarrow> 'e \<Rightarrow> 'e \<Rightarrow> 'e \<Rightarrow> 'e \<Rightarrow> 'e \<Rightarrow> 'e \<Rightarrow> 'e"
  | CreateFuncNArgs "'e list \<Rightarrow> sql_error + 'e"

record 'e Function =
  fn_Name :: string
  Fn :: "'e CreateFunc"

definition Call :: "'e Function \<Rightarrow> 'e list \<Rightarrow> sql_error + 'e" where
  "Call fn args = (case Fn fn of
     CreateFunc0Args f \<Rightarrow>
       if length args \<noteq> 0 then Inl (ErrInvalidArgumentNumber (fn_Name fn) 0 (length args)) else Inr (f ())
   | CreateFunc1Args f \<Rightarrow>
       if length args \<noteq> 1 then Inl (ErrInvalidArgumentNumber (fn_Name fn) 1 (length args)) else Inr (f (args ! 0))
   | CreateFunc2Args f \<Rightarrow>
       if length args \<noteq> 2 then Inl (ErrInvalidArgumentNumber (fn_Name fn) 2 (length args))
       else Inr (f (args ! 0) (args ! 1))
   | CreateFunc3Args f \<Rightarrow>
       if length args \<noteq> 3 then Inl (ErrInvalidArgumentNumber (fn_Name fn) 3 (length args))
       else Inr (f (args ! 0) (args ! 1) (args ! 2))
   | CreateFunc4Args f \<Rightarrow>
       if length args \<noteq> 4 then Inl (ErrInvalidArgumentNumber (fn_Name fn) 4 (length args))
       else Inr (f (args ! 0) (args ! 1) (args ! 2) (args ! 3))
   | CreateFunc5Args f \<Rightarrow>
       if length args \<noteq> 5 then Inl (ErrInvalidArgumentNumber (fn_Name fn) 5 (length args))
       else Inr (f (args ! 0) (args ! 1) (args ! 2) (args ! 3) (args ! 4))
   | CreateFunc6Args f \<Rightarrow>
       if length args \<noteq> 6 then Inl (ErrInvalidArgumentNumber (fn_Name fn) 6 (length args))
       else Inr (f (args ! 0) (args ! 1) (args ! 2) (args ! 3) (args ! 4) (args ! 5))
   | CreateFunc7Args f \<Rightarrow>
       if length args \<noteq> 7 then Inl (ErrInvalidArgumentNumber (fn_Name fn) 7 (length args))
       else Inr (f (args ! 0) (args ! 1) (args ! 2) (args ! 3) (args ! 4) (args ! 5) (args ! 6))
   | CreateFuncNArgs f \<Rightarrow> f args)"

type_synonym 'e FunctionRegistry = "(string, 'e Function) gomap"

definition NewFunctionRegistry :: "'e FunctionRegistry" where
  "NewFunctionRegistry = []"

text \<open>The registry is changed in place: what was registered before an error stays.\<close>

fun RegisterFunctions :: "'e Function list \<Rightarrow> 'e FunctionRegistry \<Rightarrow> (sql_error + unit) \<times> 'e FunctionRegistry" where
  "RegisterFunctions [] r = (Inr (), r)"
| "RegisterFunctions (f # fs) r = (case map_of r (fn_Name f) of
     Some _ \<Rightarrow> (Inl (ErrFunctionAlreadyRegistered (fn_Name f)), r)
   | None \<Rightarrow> RegisterFunctions fs (AList.update (fn_Name f) f r))"

definition MustRegister :: "'e Function list \<Rightarrow> 'e FunctionRegistry \<Rightarrow> (sql_error + unit) \<times> 'e FunctionRegistry" where
  "MustRegister fs r = (case RegisterFunctions fs r of
     (Inl _, r') \<Rightarrow> (Inl (Panic ''function already registered''), r')
   | (Inr _, r') \<Rightarrow> (Inr (), r'))"

definition FindFunction :: "'e FunctionRegistry \<Rightarrow> string \<Rightarrow> sql_error + 'e Function" where
  "FindFunction r name =
     (if r = [] then Inl (ErrFunctionNotFound name)
      else case map_of r name of
        Some fn \<Rightarrow> Inr fn
      | None \<Rightarrow> Inl (ErrFunctionNotFound (name @ FindFromMap r name)))"

section \<open>Databases in memory\<close>

text \<open>The tables a database may hold: tables in memory and others that were added to it.\<close>

datatype (plugins only: "size") 'x sqlTable = MemoryTable MemTable | OtherTable 'x

type_synonym 'x heap = "'x sqlTable list"

record TriggerDefinition =
  trg_Name :: string
  CreateStatement :: string

record Database =
  db_name :: string
  db_tables :: "(string, nat) gomap"
  db_triggers :: "TriggerDefinition list"

definition NewDatabase :: "string \<Rightarrow> Database" where
  "NewDatabase name = \<lparr>db_name = name, db_tables = [], db_triggers = []\<rparr>"

definition GetTableInsensitive :: "string \<Rightarrow> (string, 'a) gomap \<Rightarrow> 'a option" where
  "GetTableInsensitive tblName tables = (case map_of tables tblName of
     Some tbl \<Rightarrow> Some tbl
   | None \<Rightarrow> map_option snd (List.find (\<lambda>(k, _). ToLower tblName = ToLower k) tables))"

definition GetTableNameInsensitive :: "string \<Rightarrow> string list \<Rightarrow> string option" where
  "GetTableNameInsensitive tblName names =
     (if tblName \<in> set names then Some tblName else List.find (\<lambda>n. ToLower tblName = ToLower n) names)"

definition GetTableNames :: "Database \<Rightarrow> string list" where
  "GetTableNames d = keys (db_tables d)"

definition AddTable :: "string \<Rightarrow> nat \<Rightarrow> Database \<Rightarrow> Database" where
  "AddTable name t d = d\<lparr>db_tables := AList.update name t (db_tables d)\<rparr>"

definition CreateTable :: "string \<Rightarrow> Schema \<Rightarrow> 'x heap \<times> Database \<Rightarrow> sql_error + 'x heap \<times> Database" where
  "CreateTable name schema = (\<lambda>(h, d).
     case map_of (db_tables d) name of
       Some _ \<Rightarrow> Inl (ErrNew ''ErrTableAlreadyExists'' name)
     | None \<Rightarrow> Inr (h @ [MemoryTable (NewTable name schema)],
                   d\<lparr>db_tables := AList.update name (length h) (db_tables d)\<rparr>))"

definition DropTable :: "string \<Rightarrow> 'x heap \<times> Database \<Rightarrow> sql_error + 'x heap \<times> Database" where
  "DropTable name = (\<lambda>(h, d).
     case map_of (db_tables d) name of
       None \<Rightarrow> Inl (ErrTableNotFound name)
     | Some _ \<Rightarrow> Inr (h, d\<lparr>db_tables := AList.delete name (db_tables d)\<rparr>))"

definition RenameTable :: "string \<Rightarrow> string \<Rightarrow> 'x heap \<times> Database \<Rightarrow> sql_error + 'x heap \<times> Database" where
  "RenameTable oldName newName = (\<lambda>(h, d).
     case map_of (db_tables d) oldName of
       None \<Rightarrow> Inl (ErrTableNotFound oldName)
     | Some tbl \<Rightarrow>
         if map_of (db_tables d) newName \<noteq> None then Inl (ErrNew ''ErrTableAlreadyExists'' newName)
         else case h ! tbl of
           OtherTable _ \<Rightarrow> Inl (Panic ''interface conversion'')
         | MemoryTable t \<Rightarrow>
             Inr (h[tbl := MemoryTable (t\<lparr>tbl_name := newName\<rparr>)],
                  d\<lparr>db_tables := AList.delete oldName (AList.update newName tbl (db_tables d))\<rparr>))"

definition GetTriggers :: "Database \<Rightarrow> TriggerDefinition list" where
  "GetTriggers d = db_triggers d"

definition CreateTrigger :: "TriggerDefinition \<Rightarrow> Database \<Rightarrow> Database" where
  "CreateTrigger def d = d\<lparr>db_triggers := db_triggers d @ [def]\<rparr>"

fun drop_trigger :: "string \<Rightarrow> TriggerDefinition list \<Rightarrow> TriggerDefinition list option" where
  "drop_trigger name [] = None"
| "drop_trigger name (t # ts) = (if trg_Name t = name then Some ts else map_option (Cons t) (drop_trigger name ts))"

definition DropTrigger :: "string \<Rightarrow> Database \<Rightarrow> sql_error + Database" where
  "DropTrigger name d = (case drop_trigger name (db_triggers d) of
     None \<Rightarrow> Inl (ErrNew ''ErrTriggerDoesNotExist'' name)
   | Some ts \<Rightarrow> Inr (d\<lparr>db_triggers := ts\<rparr>))"

text \<open>A database with revisions of its tables; a revision is named by a value.\<close>

record HistoryDatabase = Database +
  Revisions :: "(string, (val, nat) gomap) gomap"

definition NewHistoryDatabase :: "string \<Rightarrow> HistoryDatabase" where
  "NewHistoryDatabase name = Database.extend (NewDatabase name) \<lparr>Revisions = []\<rparr>"

definition GetTableInsensitiveAsOf :: "HistoryDatabase \<Rightarrow> string \<Rightarrow> val \<Rightarrow> sql_error + nat option" where
  "GetTableInsensitiveAsOf db tblName time = (case map_of (Revisions db) (ToLower tblName) of
     Some revs \<Rightarrow> (case map_of revs time of
        Some table \<Rightarrow> Inr (Some table)
      | None \<Rightarrow> Inl (ErrTableNotFound tblName))
   | None \<Rightarrow> Inr (GetTableInsensitive tblName (db_tables db)))"

definition GetTableNamesAsOf :: "HistoryDatabase \<Rightarrow> val \<Rightarrow> string list" where
  "GetTableNamesAsOf db time = GetTableNames (Database.truncate db)"

definition AddTableAsOf :: "string \<Rightarrow> nat \<Rightarrow> val \<Rightarrow> HistoryDatabase \<Rightarrow> HistoryDatabase" where
  "AddTableAsOf name t asOf db =
     (let revs = (case map_of (Revisions db) (ToLower name) of Some r \<Rightarrow> r | None \<Rightarrow> []) in
      db\<lparr>Revisions := AList.update (ToLower name) (AList.update asOf t revs) (Revisions db),
         db_tables := AList.update name t (db_tables db)\<rparr>)"

section \<open>The catalog\<close>

text \<open>
  The methods of databases \<open>'d\<close> and of their tables \<open>'a\<close>; \<open>'w\<close> is the state of all of them. A database that is not versioned
  has no \<open>m_TablesAsOf\<close>.
\<close>

record ('w, 'd, 'a) dbMethods =
  m_Name :: "'w \<Rightarrow> 'd \<Rightarrow> string"
  m_GetTableInsensitive :: "'w \<Rightarrow> 'd \<Rightarrow> string \<Rightarrow> sql_error + 'a option"
  m_GetTableNames :: "'w \<Rightarrow> 'd \<Rightarrow> sql_error + string list"
  m_TablesAsOf :: "'d \<Rightarrow> (('w \<Rightarrow> string \<Rightarrow> val \<Rightarrow> sql_error + 'a option) \<times> ('w \<Rightarrow> val \<Rightarrow> sql_error + string list)) option"

fun databases_loop :: "('d \<Rightarrow> string) \<Rightarrow> string \<Rightarrow> 'd list \<Rightarrow> string list \<Rightarrow> sql_error + 'd" where
  "databases_loop nm name [] dbNames = Inl (ErrDatabaseNotFound (name @ Find dbNames name))"
| "databases_loop nm name (db # dbs) dbNames =
     (if ToLower (nm db) = name then Inr db else databases_loop nm name dbs (dbNames @ [nm db]))"

definition Databases_Database :: "('w, 'd, 'a) dbMethods \<Rightarrow> 'w \<Rightarrow> 'd list \<Rightarrow> string \<Rightarrow> sql_error + 'd" where
  "Databases_Database M w d name =
     (if d = [] then Inl (ErrDatabaseNotFound name) else databases_loop (m_Name M w) (ToLower name) d [])"

definition Databases_Add :: "'d \<Rightarrow> 'd list \<Rightarrow> 'd list" where
  "Databases_Add db d = d @ [db]"

definition suggestSimilarTables :: "(sql_error + string list) \<Rightarrow> string \<Rightarrow> sql_error" where
  "suggestSimilarTables names tableName =
     (case names of Inl e \<Rightarrow> e | Inr tableNames \<Rightarrow> ErrTableNotFound (tableName @ Find tableNames tableName))"

definition Databases_Table :: "('w, 'd, 'a) dbMethods \<Rightarrow> 'w \<Rightarrow> 'd list \<Rightarrow> string \<Rightarrow> string \<Rightarrow> sql_error + 'a" where
  "Databases_Table M w d dbName tableName =
     bindE (Databases_Database M w d dbName) (\<lambda>db.
     bindE (m_GetTableInsensitive M w db tableName) (\<lambda>tbl. case tbl of
       None \<Rightarrow> Inl (suggestSimilarTables (m_GetTableNames M w db) tableName)
     | Some t \<Rightarrow> Inr t))"

definition Databases_TableAsOf ::
    "('w, 'd, 'a) dbMethods \<Rightarrow> 'w \<Rightarrow> 'd list \<Rightarrow> string \<Rightarrow> string \<Rightarrow> val \<Rightarrow> sql_error + 'a" where
  "Databases_TableAsOf M w d dbName tableName asOf =
     bindE (Databases_Database M w d dbName) (\<lambda>db. case m_TablesAsOf M db of
       None \<Rightarrow> Inl (ErrAsOfNotSupported tableName)
     | Some (get, names) \<Rightarrow>
         bindE (get w tableName asOf) (\<lambda>tbl. case tbl of
           None \<Rightarrow> Inl (suggestSimilarTables (names w asOf) tableName)
         | Some t \<Rightarrow> Inr t))"

text \<open>The locked tables of every session: by database and name, in a map whose values are empty.\<close>

type_synonym tableLocks = "(string, unit) gomap"

type_synonym sessionLocks = "(u32, (string, tableLocks) gomap) gomap"

record ('d, 'e) Catalog =
  fn_registry :: "'e FunctionRegistry"
  dbs :: "'d list"
  locks :: sessionLocks

definition NewCatalog :: "('d, 'e) Catalog" where
  "NewCatalog = \<lparr>fn_registry = NewFunctionRegistry, dbs = [], locks = []\<rparr>"

definition AllDatabases :: "('d, 'e) Catalog \<Rightarrow> 'd list" where
  "AllDatabases c = dbs c"

definition AddDatabase :: "'d \<Rightarrow> ('d, 'e) Catalog \<Rightarrow> ('d, 'e) Catalog" where
  "AddDatabase db c = c\<lparr>dbs := Databases_Add db (dbs c)\<rparr>"

definition HasDB :: "('w, 'd, 'a) dbMethods \<Rightarrow> 'w \<Rightarrow> ('d, 'e) Catalog \<Rightarrow> string \<Rightarrow> bool" where
  "HasDB M w c db = (case Databases_Database M w (dbs c) db of Inl _ \<Rightarrow> False | Inr _ \<Rightarrow> True)"

definition Catalog_Database :: "('w, 'd, 'a) dbMethods \<Rightarrow> 'w \<Rightarrow> ('d, 'e) Catalog \<Rightarrow> string \<Rightarrow> sql_error + 'd" where
  "Catalog_Database M w c db = Databases_Database M w (dbs c) db"

definition Catalog_Table :: "('w, 'd, 'a) dbMethods \<Rightarrow> 'w \<Rightarrow> ('d, 'e) Catalog \<Rightarrow> string \<Rightarrow> string \<Rightarrow> sql_error + 'a" where
  "Catalog_Table M w c db table = Databases_Table M w (dbs c) db table"

definition Catalog_TableAsOf ::
    "('w, 'd, 'a) dbMethods \<Rightarrow> 'w \<Rightarrow> ('d, 'e) Catalog \<Rightarrow> string \<Rightarrow> string \<Rightarrow> val \<Rightarrow> sql_error + 'a" where
  "Catalog_TableAsOf M w c db table time = Databases_TableAsOf M w (dbs c) db table time"

definition at_key :: "'k \<Rightarrow> ('k, 'v list) gomap \<Rightarrow> 'v list" where
  "at_key k m = (case map_of m k of Some v \<Rightarrow> v | None \<Rightarrow> [])"

definition LockTable :: "u32 \<Rightarrow> string \<Rightarrow> string \<Rightarrow> ('d, 'e) Catalog \<Rightarrow> ('d, 'e) Catalog" where
  "LockTable sid db table c =
     (let dbl = at_key sid (locks c); tl = at_key db dbl in
      c\<lparr>locks := AList.update sid (AList.update db (AList.update table () tl) dbl) (locks c)\<rparr>)"

text \<open>\<open>unlock\<close> is the method of a table if it is lockable; the loops collect the errors.\<close>

fun unlock_loop :: "('w, 'd, 'a) dbMethods \<Rightarrow> ('a \<Rightarrow> ('w \<Rightarrow> sql_error option \<times> 'w) option) \<Rightarrow> 'd list
    \<Rightarrow> (string \<times> string) list \<Rightarrow> 'w \<Rightarrow> sql_error list \<Rightarrow> sql_error list \<times> 'w" where
  "unlock_loop M unlock ds [] w errs = (errs, w)"
| "unlock_loop M unlock ds ((db, t) # ts) w errs = (case Databases_Table M w ds db t of
     Inl e \<Rightarrow> unlock_loop M unlock ds ts w (errs @ [e])
   | Inr table \<Rightarrow> (case unlock table of
       None \<Rightarrow> unlock_loop M unlock ds ts w errs
     | Some f \<Rightarrow> (case f w of
         (Some e, w') \<Rightarrow> unlock_loop M unlock ds ts w' (errs @ [e])
       | (None, w') \<Rightarrow> unlock_loop M unlock ds ts w' errs)))"

definition locked_tables :: "u32 \<Rightarrow> ('d, 'e) Catalog \<Rightarrow> (string \<times> string) list" where
  "locked_tables sid c = concat (map (\<lambda>(db, tl). map (\<lambda>t. (db, t)) (keys tl)) (at_key sid (locks c)))"

definition UnlockTables :: "('w, 'd, 'a) dbMethods \<Rightarrow> ('a \<Rightarrow> u32 \<Rightarrow> ('w \<Rightarrow> sql_error option \<times> 'w) option)
    \<Rightarrow> u32 \<Rightarrow> ('d, 'e) Catalog \<Rightarrow> 'w \<Rightarrow> (sql_error + unit) \<times> ('d, 'e) Catalog \<times> 'w" where
  "UnlockTables M unlock sid c w =
     (case unlock_loop M (\<lambda>t. unlock t sid) (dbs c) (locked_tables sid c) w [] of (errs, w') \<Rightarrow>
        (if errs \<noteq> [] then Inl (ErrGeneric ''error unlocking tables'') else Inr (),
         c\<lparr>locks := AList.delete sid (locks c)\<rparr>, w'))"

section \<open>LOCK TABLES and UNLOCK TABLES\<close>

text \<open>The tables under the nodes of the statement: lockable ones, wrappers of tables, and others.\<close>

datatype 'a lockNode = LockableTable 'a | TableWrapper "'a lockNode" | PlainTable string

record 'a TableLock =
  lk_Table :: "'a lockNode option"
  lk_Write :: bool

fun getLockableTable :: "'a lockNode \<Rightarrow> sql_error + 'a" where
  "getLockableTable (LockableTable t) = Inr t"
| "getLockableTable (TableWrapper n) = getLockableTable n"
| "getLockableTable (PlainTable name) = Inl (ErrNew ''ErrTableNotLockable'' name)"

definition getLockable :: "'a lockNode option \<Rightarrow> sql_error + 'a" where
  "getLockable node = (case node of Some t \<Rightarrow> getLockableTable t | None \<Rightarrow> Inl (ErrNew ''ErrTableNotLockable'' ''unknown''))"

text \<open>
  The methods of lockable tables, and the statement of session \<open>sid\<close>, whose current database is \<open>db\<close>. Errors become warnings of
  the session.
\<close>

record ('w, 'a) lockMethods =
  l_Name :: "'a \<Rightarrow> string"
  l_Lock :: "'a \<Rightarrow> u32 \<Rightarrow> bool \<Rightarrow> 'w \<Rightarrow> sql_error option \<times> 'w"
  l_Unlock :: "'a \<Rightarrow> u32 \<Rightarrow> ('w \<Rightarrow> sql_error option \<times> 'w) option"

fun LockTables_RowIter :: "('w, 'a) lockMethods \<Rightarrow> u32 \<Rightarrow> string \<Rightarrow> 'a TableLock list \<Rightarrow> ('d, 'e) Catalog \<Rightarrow> 'w \<Rightarrow> sql_error list
    \<Rightarrow> sql_error list \<times> ('d, 'e) Catalog \<times> 'w" where
  "LockTables_RowIter L sid db [] c w warnings = (warnings, c, w)"
| "LockTables_RowIter L sid db (l # ls) c w warnings = (case getLockable (lk_Table l) of
     Inl e \<Rightarrow> LockTables_RowIter L sid db ls c w (warnings @ [e])
   | Inr t \<Rightarrow> (case l_Lock L t sid (lk_Write l) w of
       (Some e, w') \<Rightarrow> LockTables_RowIter L sid db ls c w' (warnings @ [e])
     | (None, w') \<Rightarrow> LockTables_RowIter L sid db ls (LockTable sid db (l_Name L t) c) w' warnings))"

definition UnlockTables_RowIter :: "('w, 'd, 'a) dbMethods \<Rightarrow> ('w, 'a) lockMethods \<Rightarrow> u32 \<Rightarrow> ('d, 'e) Catalog \<Rightarrow> 'w
    \<Rightarrow> (sql_error + row sliceRowIter) \<times> ('d, 'e) Catalog \<times> 'w" where
  "UnlockTables_RowIter M L sid c w = (case UnlockTables M (l_Unlock L) sid c w of
     (Inl e, c', w') \<Rightarrow> (Inl e, c', w')
   | (Inr _, c', w') \<Rightarrow> (Inr (RowsToRowIter []), c', w'))"

section \<open>Functions by name\<close>

definition functions_ok :: "'e FunctionRegistry \<Rightarrow> bool" where
  "functions_ok r \<longleftrightarrow> map_ok r \<and> (\<forall>(k, f) \<in> set r. fn_Name f = k)"

definition functions_abs :: "'e FunctionRegistry \<Rightarrow> string \<Rightarrow> 'e CreateFunc option" where
  "functions_abs r name = map_option Fn (map_of r name)"

definition reg_function :: "string \<Rightarrow> 'e CreateFunc \<Rightarrow> 'e FunctionRegistry \<Rightarrow> sql_error + 'e FunctionRegistry" where
  "reg_function name f r = (case RegisterFunctions [\<lparr>fn_Name = name, Fn = f\<rparr>] r of (Inl e, _) \<Rightarrow> Inl e | (Inr _, r') \<Rightarrow> Inr r')"

lemma functions_ok_update: "functions_ok r \<Longrightarrow> functions_ok (AList.update (fn_Name f) f r)"
  using set_AList_update_subset [of "fn_Name f" f r] by (fastforce simp: functions_ok_def)

interpretation fr: registry reg_function "\<lambda>k. k" functions_abs functions_ok
proof
  fix r :: "'e FunctionRegistry" and k v
  assume r: "functions_ok r"
  { assume "functions_abs r k = None"
    with functions_ok_update [OF r, of "\<lparr>fn_Name = k, Fn = v\<rparr>"]
    show "\<exists>r'. reg_function k v r = Inr r' \<and> functions_ok r' \<and> functions_abs r' = (functions_abs r)(k \<mapsto> v)"
      by (auto simp: reg_function_def functions_abs_def fun_eq_iff) }
  { assume "functions_abs r k \<noteq> None"
    then show "\<exists>e. reg_function k v r = Inl e" by (auto simp: reg_function_def functions_abs_def) }
qed

text \<open>Registering a list of functions: it succeeds if and only if all their names are new, and every function is then found.\<close>

lemma RegisterFunctions_ok: "functions_ok r \<Longrightarrow> functions_ok (snd (RegisterFunctions fs r))"
  by (induction fs arbitrary: r) (simp_all add: functions_ok_update split: option.split)

lemma RegisterFunctions_keeps: "map_of r n = Some f \<Longrightarrow> map_of (snd (RegisterFunctions fs r)) n = Some f"
proof (induction fs arbitrary: r)
  case (Cons g fs)
  have "map_of (AList.update (fn_Name g) g r) n = Some f" if "map_of r (fn_Name g) = None"
    using that Cons.prems by auto
  with Cons show ?case by (simp split: option.split)
qed simp

lemma RegisterFunctions_succeeds:
  "fst (RegisterFunctions fs r) = Inr () \<longleftrightarrow> distinct (map fn_Name fs) \<and> (\<forall>f \<in> set fs. map_of r (fn_Name f) = None)"
proof (induction fs arbitrary: r)
  case (Cons f fs)
  show ?case
  proof (cases "map_of r (fn_Name f)")
    case None
    then have "fst (RegisterFunctions (f # fs) r) = Inr () \<longleftrightarrow>
        distinct (map fn_Name fs) \<and> (\<forall>g \<in> set fs. ((map_of r)(fn_Name f \<mapsto> f)) (fn_Name g) = None)"
      using Cons.IH [of "AList.update (fn_Name f) f r"] by simp
    also have "\<dots> \<longleftrightarrow> distinct (map fn_Name (f # fs)) \<and> (\<forall>g \<in> set (f # fs). map_of r (fn_Name g) = None)"
      using None by (auto simp: image_iff)
    finally show ?thesis .
  qed simp
qed simp

lemma RegisterFunctions_finds:
  "fst (RegisterFunctions fs r) = Inr () \<Longrightarrow> f \<in> set fs \<Longrightarrow> map_of (snd (RegisterFunctions fs r)) (fn_Name f) = Some f"
proof (induction fs arbitrary: r)
  case (Cons g fs)
  then have g: "map_of r (fn_Name g) = None" by (simp split: option.splits)
  show ?case
  proof (cases "f = g")
    case True
    with RegisterFunctions_keeps [of "AList.update (fn_Name g) g r" "fn_Name g" g fs] g show ?thesis by simp
  qed (use Cons g in auto)
qed simp

lemma FindFunction_Some: "map_of r n = Some f \<Longrightarrow> FindFunction r n = Inr f"
  by (auto simp: FindFunction_def)

section \<open>The tables of a database\<close>

definition heap_table :: "'x heap \<Rightarrow> nat \<Rightarrow> MemTable option" where
  "heap_table h a = (if a < length h then (case h ! a of MemoryTable t \<Rightarrow> Some t | OtherTable _ \<Rightarrow> None) else None)"

text \<open>No two names share a table, and every table has the name it is kept under.\<close>

definition table_addrs :: "Database \<Rightarrow> nat list" where
  "table_addrs d = map snd (db_tables d)"

definition database_ok :: "'x heap \<times> Database \<Rightarrow> bool" where
  "database_ok = (\<lambda>(h, d). map_ok (db_tables d) \<and> distinct (table_addrs d) \<and>
     (\<forall>(k, a) \<in> set (db_tables d). \<exists>t. heap_table h a = Some t \<and> tbl_name t = k))"

definition db_abs :: "'x heap \<times> Database \<Rightarrow> string \<Rightarrow> MemTable option" where
  "db_abs = (\<lambda>(h, d) n. case map_of (db_tables d) n of None \<Rightarrow> None | Some a \<Rightarrow> heap_table h a)"

datatype db_op = CreateOp string Schema | DropOp string | RenameOp string string

definition run_db_op :: "db_op \<Rightarrow> 'x heap \<times> Database \<Rightarrow> 'x heap \<times> Database" where
  "run_db_op op s = (case (case op of
       CreateOp name schema \<Rightarrow> CreateTable name schema s
     | DropOp name \<Rightarrow> DropTable name s
     | RenameOp old new \<Rightarrow> RenameTable old new s) of Inl e \<Rightarrow> s | Inr s' \<Rightarrow> s')"

text \<open>The specification: a map from names to tables in which a taken name cannot be given again.\<close>

definition spec_db_op :: "db_op \<Rightarrow> (string \<Rightarrow> MemTable option) \<Rightarrow> string \<Rightarrow> MemTable option" where
  "spec_db_op op m = (case op of
     CreateOp name schema \<Rightarrow> if m name = None then m(name \<mapsto> NewTable name schema) else m
   | DropOp name \<Rightarrow> m(name := None)
   | RenameOp old new \<Rightarrow> (case m old of
       Some t \<Rightarrow> if m new = None then m(old := None, new \<mapsto> t\<lparr>tbl_name := new\<rparr>) else m
     | None \<Rightarrow> m))"

lemma heap_table_append: "heap_table h a = Some t \<Longrightarrow> heap_table (h @ h') a = Some t"
  by (auto simp: heap_table_def nth_append split: if_splits)

lemma database_ok_entry:
  assumes "database_ok (h, d)" and "map_of (db_tables d) n = Some a"
  obtains t where "heap_table h a = Some t" "tbl_name t = n" "a < length h" "h ! a = MemoryTable t"
proof -
  from map_of_SomeD [OF assms(2)] assms(1) obtain t where "heap_table h a = Some t" "tbl_name t = n"
    by (auto simp: database_ok_def)
  with that show thesis by (auto simp: heap_table_def split: if_splits sqlTable.splits)
qed

lemma db_abs_None: "database_ok (h, d) \<Longrightarrow> db_abs (h, d) n = None \<longleftrightarrow> map_of (db_tables d) n = None"
  by (auto simp: db_abs_def elim: database_ok_entry split: option.splits)

lemma Create_step:
  assumes "database_ok (h, d)" and "CreateTable name schema (h, d) = Inr (h', d')"
  shows "database_ok (h', d') \<and> db_abs (h', d') = (db_abs (h, d))(name \<mapsto> NewTable name schema) \<and>
    h' = h @ [MemoryTable (NewTable name schema)] \<and> table_addrs d' = table_addrs d @ [length h]"
proof -
  from assms(2) have new: "map_of (db_tables d) name = None" and h': "h' = h @ [MemoryTable (NewTable name schema)]"
    and d': "d' = d\<lparr>db_tables := AList.update name (length h) (db_tables d)\<rparr>"
    by (auto simp: CreateTable_def split: option.splits)
  from new have upd: "AList.update name (length h) (db_tables d) = db_tables d @ [(name, length h)]"
    by (simp add: update_append_new)
  have name: "tbl_name (NewTable name schema) = name" by (simp add: NewTable_def NewPartitionedTable_def Let_def)
  have addr: "a < length h" if "(k, a) \<in> set (db_tables d)" for k a
    using that assms(1) by (auto simp: database_ok_def heap_table_def split: if_splits)
  have entry: "\<exists>t. heap_table h' a = Some t \<and> tbl_name t = k" if "(k, a) \<in> set (db_tables d')" for k a
  proof (cases "(k, a) \<in> set (db_tables d)")
    case True
    with assms(1) h' show ?thesis by (fastforce simp: database_ok_def intro: heap_table_append)
  next
    case False
    with that have "k = name" "a = length h" by (simp_all add: d' upd)
    with name show ?thesis by (simp add: h' heap_table_def)
  qed
  have "(k, length h) \<notin> set (db_tables d)" for k using addr by blast
  then have ok: "database_ok (h', d')"
    using assms(1) entry by (auto simp: database_ok_def d' upd table_addrs_def map_ok_def new map_of_eq_None_iff [symmetric])
  have "db_abs (h', d') n = ((db_abs (h, d))(name \<mapsto> NewTable name schema)) n" for n
    using assms(1) heap_table_append
    by (auto simp: db_abs_def d' h' heap_table_def [of _ "length h"] split: option.split elim!: database_ok_entry)
  with ok h' show ?thesis by (auto simp: d' upd table_addrs_def)
qed

lemma Drop_step:
  assumes "database_ok (h, d)" and "DropTable name (h, d) = Inr (h', d')"
  shows "database_ok (h', d') \<and> db_abs (h', d') = (db_abs (h, d))(name := None) \<and>
    h' = h \<and> set (table_addrs d') \<subseteq> set (table_addrs d)"
proof -
  from assms(2) have h': "h' = h" and d': "d' = d\<lparr>db_tables := AList.delete name (db_tables d)\<rparr>"
    by (auto simp: DropTable_def split: option.splits)
  have sub: "set (AList.delete name (db_tables d)) \<subseteq> set (db_tables d)" by (rule set_AList_delete_subset)
  have "distinct (map snd (AList.delete name (db_tables d)))"
    using assms(1) by (auto simp: database_ok_def table_addrs_def AList.delete_eq intro: distinct_map_filter)
  with assms(1) sub have "database_ok (h', d')" by (auto simp: database_ok_def h' d' table_addrs_def)
  moreover have "db_abs (h', d') n = ((db_abs (h, d))(name := None)) n" for n
    by (auto simp: db_abs_def d' h')
  ultimately show ?thesis using h' sub by (auto simp: d' table_addrs_def)
qed

lemma Rename_step:
  assumes "database_ok (h, d)" and "RenameTable old new (h, d) = Inr (h', d')"
  obtains a t where "db_abs (h, d) old = Some t" and "db_abs (h, d) new = None" and "a \<in> set (table_addrs d)"
    and "h' = h[a := MemoryTable (t\<lparr>tbl_name := new\<rparr>)]" and "set (table_addrs d') \<subseteq> set (table_addrs d)"
    and "database_ok (h', d')" and "db_abs (h', d') = (db_abs (h, d))(old := None, new \<mapsto> t\<lparr>tbl_name := new\<rparr>)"
proof -
  from assms(2) obtain a where a: "map_of (db_tables d) old = Some a" and new: "map_of (db_tables d) new = None"
    by (auto simp: RenameTable_def split: option.splits if_splits)
  from database_ok_entry [OF assms(1) a] obtain t where t: "heap_table h a = Some t" "tbl_name t = old" "a < length h" "h ! a = MemoryTable t" .
  let ?h = "h[a := MemoryTable (t\<lparr>tbl_name := new\<rparr>)]"
  let ?m = "AList.delete old (db_tables d @ [(new, a)])"
  have h': "h' = ?h" and d': "d' = d\<lparr>db_tables := ?m\<rparr>"
    using assms(2) a new t(4) by (simp_all add: RenameTable_def update_append_new)
  from a new have ne: "old \<noteq> new" by auto
  have set_m: "set ?m = {(k, b) \<in> set (db_tables d). k \<noteq> old} \<union> {(new, a)}" using ne by (auto simp: AList.delete_eq)
  have uniq: "k = old" if "(k, a) \<in> set (db_tables d)" for k
  proof -
    from that assms(1) obtain t' where "heap_table h a = Some t'" "tbl_name t' = k" by (auto simp: database_ok_def)
    with t show ?thesis by simp
  qed
  have other: "heap_table ?h b = heap_table h b" if "b \<noteq> a" for b using that by (simp add: heap_table_def)
  have new_entry: "heap_table ?h a = Some (t\<lparr>tbl_name := new\<rparr>)" using t(3) by (simp add: heap_table_def)
  have "\<exists>t. heap_table ?h b = Some t \<and> tbl_name t = k" if "(k, b) \<in> set ?m" for k b
  proof (cases "b = a")
    case True
    with that uniq new_entry show ?thesis by (auto simp: set_m)
  next
    case False
    with that assms(1) other show ?thesis by (auto simp: set_m database_ok_def)
  qed
  moreover have "map_ok ?m" using assms(1) new
    by (intro map_ok_delete) (auto simp: database_ok_def map_ok_def map_of_eq_None_iff)
  moreover have "distinct (map snd ?m)"
  proof -
    have "?m = AList.delete old (db_tables d) @ [(new, a)]" using ne by (simp add: AList.delete_eq)
    moreover have "distinct (map snd (AList.delete old (db_tables d)))"
      using assms(1) by (auto simp: database_ok_def table_addrs_def AList.delete_eq intro: distinct_map_filter)
    moreover have "a \<notin> snd ` set (AList.delete old (db_tables d))" using uniq by (auto simp: AList.delete_eq)
    ultimately show ?thesis by simp
  qed
  ultimately have ok: "database_ok (h', d')" by (auto simp: database_ok_def h' d' table_addrs_def)
  have abs: "db_abs (h', d') n = ((db_abs (h, d))(old := None, new \<mapsto> t\<lparr>tbl_name := new\<rparr>)) n" for n
  proof -
    have m: "map_of ?m = (map_of (db_tables d))(old := None, new \<mapsto> a)"
      using ne new by (auto simp: fun_eq_iff map_add_def split: option.splits)
    have "map_of (db_tables d) n \<noteq> Some a" if "n \<noteq> old" using that uniq map_of_SomeD by metis
    then show ?thesis using ne new by (auto simp: db_abs_def h' d' m new_entry other split: option.split)
  qed
  show thesis
  proof (rule that)
    show "db_abs (h, d) old = Some t" "db_abs (h, d) new = None" using a new t(1) by (simp_all add: db_abs_def)
    show "a \<in> set (table_addrs d)" using map_of_SomeD [OF a] by (force simp: table_addrs_def)
    then show "set (table_addrs d') \<subseteq> set (table_addrs d)" using set_m by (auto simp: d' table_addrs_def)
    show "db_abs (h', d') = (db_abs (h, d))(old := None, new \<mapsto> t\<lparr>tbl_name := new\<rparr>)" using abs by blast
  qed (use h' ok in auto)
qed

text \<open>
  What an operation on a database does: it refines the specification, keeps the invariant, and changes no table of the heap that
  is not in the database.
\<close>

lemma run_db_op_step:
  assumes "database_ok (h, d)" and "run_db_op op (h, d) = (h', d')"
  shows "database_ok (h', d') \<and> db_abs (h', d') = spec_db_op op (db_abs (h, d)) \<and> length h \<le> length h' \<and> db_name d' = db_name d \<and>
    (\<forall>b < length h. b \<notin> set (table_addrs d) \<longrightarrow> h' ! b = h ! b) \<and>
    set (table_addrs d') \<subseteq> set (table_addrs d) \<union> {length h..<length h'}"
proof -
  have same: ?thesis if "h' = h" "d' = d" "spec_db_op op (db_abs (h, d)) = db_abs (h, d)"
    using assms(1) that by auto
  show ?thesis
proof (cases op)
  case (CreateOp name schema)
  show ?thesis
  proof (cases "CreateTable name schema (h, d)")
    case (Inl e)
    then have "map_of (db_tables d) name \<noteq> None" by (auto simp: CreateTable_def split: option.splits)
    then have "db_abs (h, d) name \<noteq> None" using db_abs_None [OF assms(1)] by simp
    then show ?thesis using Inl CreateOp assms(2) by (intro same) (auto simp: run_db_op_def spec_db_op_def)
  next
    case (Inr s)
    then have new: "map_of (db_tables d) name = None" by (auto simp: CreateTable_def split: option.splits)
    have c: "CreateTable name schema (h, d) = Inr (h', d')" using Inr CreateOp assms(2) by (simp add: run_db_op_def)
    then have "db_name d' = db_name d" using new by (auto simp: CreateTable_def)
    moreover have "db_abs (h, d) name = None" using db_abs_None [OF assms(1)] new by simp
    moreover note Create_step [OF assms(1) c]
    ultimately show ?thesis unfolding CreateOp by (elim conjE) (simp add: spec_db_op_def nth_append)
  qed
next
  case (DropOp name)
  show ?thesis
  proof (cases "DropTable name (h, d)")
    case (Inl e)
    then have "map_of (db_tables d) name = None" by (auto simp: DropTable_def split: option.splits)
    then have "db_abs (h, d) name = None" using db_abs_None [OF assms(1)] by simp
    then show ?thesis using Inl DropOp assms(2) by (intro same) (simp_all add: run_db_op_def spec_db_op_def fun_upd_idem)
  next
    case (Inr s)
    then have c: "DropTable name (h, d) = Inr (h', d')" using DropOp assms(2) by (simp add: run_db_op_def)
    then have "db_name d' = db_name d" by (auto simp: DropTable_def split: option.splits)
    with Drop_step [OF assms(1) c] show ?thesis unfolding DropOp by (elim conjE) (simp add: spec_db_op_def)
  qed
next
  case (RenameOp old new)
  show ?thesis
  proof (cases "RenameTable old new (h, d)")
    case (Inl e)
    have "map_of (db_tables d) old = None \<or> map_of (db_tables d) new \<noteq> None"
    proof (rule ccontr)
      assume *: "\<not> ?thesis"
      then obtain a where a: "map_of (db_tables d) old = Some a" by auto
      obtain t where "h ! a = MemoryTable t" by (rule database_ok_entry [OF assms(1) a])
      with Inl * a show False by (simp add: RenameTable_def)
    qed
    then have "spec_db_op op (db_abs (h, d)) = db_abs (h, d)"
      using db_abs_None [OF assms(1), of old] db_abs_None [OF assms(1), of new] RenameOp
      by (auto simp: spec_db_op_def split: option.split)
    then show ?thesis using Inl RenameOp assms(2) by (intro same) (simp_all add: run_db_op_def)
  next
    case (Inr s)
    then have s: "RenameTable old new (h, d) = Inr (h', d')" using RenameOp assms(2) by (simp add: run_db_op_def)
    have "db_name d' = db_name d" using s by (auto simp: RenameTable_def split: option.splits if_splits sqlTable.splits)
    obtain a t where r: "db_abs (h, d) old = Some t" "db_abs (h, d) new = None"
        "a \<in> set (table_addrs d)" "h' = h[a := MemoryTable (t\<lparr>tbl_name := new\<rparr>)]" "set (table_addrs d') \<subseteq> set (table_addrs d)"
        "database_ok (h', d')" "db_abs (h', d') = (db_abs (h, d))(old := None, new \<mapsto> t\<lparr>tbl_name := new\<rparr>)" by (rule Rename_step [OF assms(1) s])
    have "h' ! b = h ! b" if "b \<notin> set (table_addrs d)" for b using r(3,4) that by (cases "a = b") simp_all
    moreover have "length h \<le> length h'" by (simp add: r(4))
    moreover have "db_abs (h', d') = spec_db_op op (db_abs (h, d))" using r(1,2,7) RenameOp by (simp add: spec_db_op_def)
    ultimately show ?thesis using r(5,6) \<open>db_name d' = db_name d\<close> by blast
  qed
qed
qed

section \<open>Databases in a catalog\<close>

text \<open>The databases in memory as databases of a catalog: their address is their place in a list.\<close>

type_synonym 'x world = "'x heap \<times> Database list"

definition mem_methods :: "('x world, nat, nat) dbMethods" where
  "mem_methods =
     \<lparr>m_Name = (\<lambda>(h, ds) i. db_name (ds ! i)),
      m_GetTableInsensitive = (\<lambda>(h, ds) i n. Inr (GetTableInsensitive n (db_tables (ds ! i)))),
      m_GetTableNames = (\<lambda>(h, ds) i. Inr (GetTableNames (ds ! i))),
      m_TablesAsOf = (\<lambda>_. None)\<rparr>"

definition world_ok :: "'x world \<Rightarrow> bool" where
  "world_ok = (\<lambda>(h, ds). (\<forall>d \<in> set ds. database_ok (h, d)) \<and>
     (\<forall>i < length ds. \<forall>j < length ds. i \<noteq> j \<longrightarrow> set (table_addrs (ds ! i)) \<inter> set (table_addrs (ds ! j)) = {}))"

fun run_world :: "(nat \<times> db_op) list \<Rightarrow> 'x world \<Rightarrow> 'x world" where
  "run_world [] w = w"
| "run_world ((i, op) # ops) w = (case w of (h, ds) \<Rightarrow>
     (case run_db_op op (h, ds ! i) of (h', d') \<Rightarrow> run_world ops (h', ds[i := d'])))"

fun spec_world :: "(nat \<times> db_op) list \<Rightarrow> (nat \<Rightarrow> string \<Rightarrow> MemTable option) \<Rightarrow> nat \<Rightarrow> string \<Rightarrow> MemTable option" where
  "spec_world [] m = m"
| "spec_world ((i, op) # ops) m = spec_world ops (m(i := spec_db_op op (m i)))"

lemma database_frame:
  assumes "database_ok (h, d)" and "length h \<le> length h'" and "\<forall>b \<in> set (table_addrs d). b < length h \<longrightarrow> h' ! b = h ! b"
  shows "database_ok (h', d) \<and> db_abs (h', d) = db_abs (h, d)"
proof -
  have same: "heap_table h' a = heap_table h a" if a: "(k, a) \<in> set (db_tables d)" for k a
  proof -
    from a assms(1) have "a < length h" by (auto simp: database_ok_def heap_table_def split: if_splits)
    with a assms(2,3) show ?thesis by (force simp: heap_table_def table_addrs_def)
  qed
  have "db_abs (h', d) n = db_abs (h, d) n" for n
    using same [OF map_of_SomeD] by (simp add: db_abs_def split: option.split)
  moreover have "database_ok (h', d)" using assms(1) same by (force simp: database_ok_def)
  ultimately show ?thesis by blast
qed

lemma addr_bound: "database_ok (h, d) \<Longrightarrow> b \<in> set (table_addrs d) \<Longrightarrow> b < length h"
  by (auto simp: database_ok_def table_addrs_def heap_table_def split: if_splits)

lemma run_world_step:
  assumes ok: "world_ok (h, ds)" and i: "i < length ds" and op: "run_db_op op (h, ds ! i) = (h', d')"
  shows "world_ok (h', ds[i := d'])" and "db_name d' = db_name (ds ! i)"
    and "j < length ds \<Longrightarrow> db_abs (h', ds[i := d'] ! j) = (if j = i then spec_db_op op (db_abs (h, ds ! i)) else db_abs (h, ds ! j))"
proof -
  have oks: "database_ok (h, ds ! k)" if "k < length ds" for k using ok that by (auto simp: world_ok_def)
  note step = run_db_op_step [OF oks [OF i] op]
  have disj: "set (table_addrs (ds ! k)) \<inter> set (table_addrs (ds ! l)) = {}" if "k < length ds" "l < length ds" "k \<noteq> l" for k l
    using ok that by (auto simp: world_ok_def)
  have frame: "database_ok (h', ds ! k) \<and> db_abs (h', ds ! k) = db_abs (h, ds ! k)" if "k < length ds" "k \<noteq> i" for k
    using step disj [OF that(1) i that(2)] by (intro database_frame [OF oks [OF that(1)]]) blast+
  have "set (table_addrs (ds ! k)) \<inter> set (table_addrs d') = {}" if "k < length ds" "k \<noteq> i" for k
    using step disj [OF that(1) i that(2)] addr_bound [OF oks [OF that(1)]] by fastforce
  note new = this
  have "set (table_addrs (ds[i := d'] ! k)) \<inter> set (table_addrs (ds[i := d'] ! l)) = {}"
    if "k < length ds" "l < length ds" "k \<noteq> l" for k l
    using that disj [OF that] new [of k] new [of l] i by (cases "k = i"; cases "l = i") (simp_all add: Int_commute)
  moreover have "database_ok (h', ds[i := d'] ! k)" if "k < length ds" for k
    using that frame step by (cases "k = i") (simp_all add: i)
  ultimately show "world_ok (h', ds[i := d'])" by (auto simp: world_ok_def in_set_conv_nth)
  show "db_name d' = db_name (ds ! i)" using step by blast
  show "db_abs (h', ds[i := d'] ! j) = (if j = i then spec_db_op op (db_abs (h, ds ! i)) else db_abs (h, ds ! j))"
    if "j < length ds" using that frame step by (simp add: i)
qed

lemma run_world_refines:
  assumes "world_ok (h, ds)" and "list_all (\<lambda>(i, op). i < length ds) ops" and "\<And>j. j < length ds \<Longrightarrow> m j = db_abs (h, ds ! j)"
  shows "\<exists>h' ds'. run_world ops (h, ds) = (h', ds') \<and> world_ok (h', ds') \<and> map db_name ds' = map db_name ds \<and>
    (\<forall>j < length ds. spec_world ops m j = db_abs (h', ds' ! j))"
  using assms
proof (induction ops arbitrary: h ds m)
  case (Cons iop ops)
  obtain i op where iop: "iop = (i, op)" by fastforce
  obtain h1 d1 where op: "run_db_op op (h, ds ! i) = (h1, d1)" by fastforce
  from Cons.prems(2) iop have i: "i < length ds" by simp
  note step = run_world_step [OF Cons.prems(1) i op]
  have m: "(m(i := spec_db_op op (m i))) j = db_abs (h1, ds[i := d1] ! j)" if "j < length (ds[i := d1])" for j
    using that step(3) [of j] Cons.prems(3) i by simp
  have ops: "list_all (\<lambda>(k, op). k < length (ds[i := d1])) ops" using Cons.prems(2) by (simp add: iop)
  have "map db_name (ds[i := d1]) = map db_name ds"
    using step(2) i by (simp add: map_update) (metis list_update_id nth_map)
  with Cons.IH [OF step(1) ops m] op iop show ?case by (simp del: fun_upd_apply)
qed simp

lemma databases_loop_find:
  "databases_loop nm name ds acc = (case List.find (\<lambda>d. ToLower (nm d) = name) ds of
     Some d \<Rightarrow> Inr d | None \<Rightarrow> Inl (ErrDatabaseNotFound (name @ Find (acc @ map nm ds) name)))"
  by (induction ds arbitrary: acc) (simp_all split: option.split)

lemma GetTableInsensitive_Some:
  assumes "GetTableInsensitive n tables = Some a"
  obtains k where "map_of tables k = Some a \<or> (k, a) \<in> set tables" "ToLower k = ToLower n" "n \<in> set (keys tables) \<Longrightarrow> k = n"
proof (cases "map_of tables n")
  case None
  with assms obtain k where "(k, a) \<in> set tables" "ToLower k = ToLower n"
    by (auto simp: GetTableInsensitive_def find_Some_iff in_set_conv_nth) metis
  with None that [of k] show thesis by (auto simp: map_of_eq_None_iff)
next
  case (Some b)
  with assms that [of n] show thesis by (simp add: GetTableInsensitive_def)
qed

lemma GetTableInsensitive_None:
  "GetTableInsensitive n tables = None \<longleftrightarrow> (\<forall>k \<in> set (keys tables). ToLower k \<noteq> ToLower n)"
  by (force simp: GetTableInsensitive_def find_None_iff map_of_eq_None_iff split: option.split dest!: map_of_SomeD)

section \<open>Looking up tables in a catalog\<close>

definition database_index :: "string list \<Rightarrow> string \<Rightarrow> nat option" where
  "database_index names dbName = List.find (\<lambda>i. ToLower (names ! i) = ToLower dbName) [0..<length names]"

lemma dbs_AddDatabases: "dbs (fold AddDatabase ds c) = dbs c @ ds"
  by (induction ds arbitrary: c) (simp_all add: AddDatabase_def Databases_Add_def)

lemma mem_Databases_Database:
  assumes "map db_name ds = names"
  shows "Databases_Database mem_methods (h, ds) [0..<length names] dbn = (case database_index names dbn of
     Some i \<Rightarrow> Inr i
   | None \<Rightarrow> Inl (ErrDatabaseNotFound (if names = [] then dbn else ToLower dbn @ Find names (ToLower dbn))))"
proof -
  have len: "length names = length ds" using assms by auto
  have nm: "db_name (ds ! i) = names ! i" if "i < length names" for i using that assms by auto
  have names: "map (\<lambda>i. db_name (ds ! i)) [0..<length names] = names" by (rule nth_equalityI) (simp_all add: nm)
  have "List.find (\<lambda>i. ToLower (db_name (ds ! i)) = ToLower dbn) [0..<length names] = database_index names dbn"
    unfolding database_index_def by (rule find_cong) (simp_all add: nm)
  then show ?thesis using names
    by (simp add: Databases_Database_def databases_loop_find mem_methods_def split: option.split)
      (auto simp: database_index_def)
qed

lemma dom_db_abs: "database_ok (h, d) \<Longrightarrow> dom (db_abs (h, d)) = set (keys (db_tables d))"
  using db_abs_None [of h d] by (auto simp: dom_def map_of_eq_None_iff)

text \<open>C13. Tables are created, dropped and renamed in any order in the databases of a catalog, with failing operations in between. The
  catalog then finds a table by the names of its database and its own in any case: the table that the specification, a map from
  names to tables for each database, has under that very spelling if there is one, otherwise one under another spelling, and it
  has the right name. It reports a missing database or a missing table, with suggestions, if and only if there is none; of two
  databases whose names agree up to case the first is taken.\<close>

theorem catalog_finds_tables:
  fixes w :: "'x world" and c :: "(nat, 'e) Catalog"
  assumes "list_all (\<lambda>(i, op). i < length names) ops"
    and w_eq: "w = run_world ops ([], map NewDatabase names)" and M: "M = spec_world ops (\<lambda>_. Map.empty)"
    and c_eq: "c = fold AddDatabase [0..<length names] NewCatalog"
  shows "case database_index names dbn of
      None \<Rightarrow> Catalog_Table mem_methods w c dbn tn =
        Inl (ErrDatabaseNotFound (if names = [] then dbn else ToLower dbn @ Find names (ToLower dbn)))
    | Some i \<Rightarrow> (case Catalog_Table mem_methods w c dbn tn of
        Inl e \<Rightarrow> (\<exists>ns. set ns = dom (M i) \<and> distinct ns \<and> e = ErrTableNotFound (tn @ Find ns tn)) \<and>
          (\<forall>n \<in> dom (M i). ToLower n \<noteq> ToLower tn)
      | Inr a \<Rightarrow> \<exists>t. heap_table (fst w) a = Some t \<and> M i (tbl_name t) = Some t \<and> ToLower (tbl_name t) = ToLower tn \<and>
          (tn \<in> dom (M i) \<longrightarrow> tbl_name t = tn))"
proof -
  have "world_ok ([], map NewDatabase names)" by (auto simp: world_ok_def database_ok_def NewDatabase_def table_addrs_def)
  from run_world_refines [OF this, of ops "\<lambda>_. Map.empty"] assms obtain h :: "'x heap" and ds where
      w: "run_world ops ([], map NewDatabase names) = (h, ds)" "world_ok (h, ds)"
      "map db_name ds = map db_name (map NewDatabase names)" "\<And>j. j < length names \<Longrightarrow> M j = db_abs (h, ds ! j)"
    unfolding M by (auto simp: db_abs_def NewDatabase_def)
  have names: "map db_name ds = names" using w(3) by (simp add: NewDatabase_def comp_def)
  have c: "dbs c = [0..<length names]" by (simp add: c_eq dbs_AddDatabases NewCatalog_def)
  note D = mem_Databases_Database [OF names, of h dbn]
  have wp: "w = (h, ds)" by (simp add: w_eq w(1))
  show ?thesis
  proof (cases "database_index names dbn")
    case None
    then show ?thesis using D by (simp add: wp c Catalog_Table_def Databases_Table_def)
  next
    case i: (Some i)
    then have "i < length names" by (auto simp: database_index_def find_Some_iff)
    note Mi = w(4) [OF this]
    have "length ds = length names" using names by auto
    with w(2) \<open>i < length names\<close> have ok: "database_ok (h, ds ! i)" by (auto simp: world_ok_def)
    let ?t = "db_tables (ds ! i)"
    have dom: "dom (M i) = set (keys ?t)" using dom_db_abs [OF ok] Mi by simp
    have "m_GetTableInsensitive mem_methods (h, ds) i tn = Inr (GetTableInsensitive tn ?t)"
      "m_GetTableNames mem_methods (h, ds) i = Inr (keys ?t)"
      by (simp_all add: mem_methods_def GetTableNames_def)
    then have tab: "Catalog_Table mem_methods (h, ds) c dbn tn = (case GetTableInsensitive tn ?t of
        None \<Rightarrow> Inl (ErrTableNotFound (tn @ Find (keys ?t) tn)) | Some t \<Rightarrow> Inr t)"
      using D i by (simp add: c Catalog_Table_def Databases_Table_def suggestSimilarTables_def)
    show ?thesis
    proof (cases "GetTableInsensitive tn ?t")
      case None
      have "distinct (keys ?t)" using ok by (simp add: database_ok_def map_ok_def)
      then have "\<exists>ns. set ns = dom (M i) \<and> distinct ns \<and> tn @ Find (keys ?t) tn = tn @ Find ns tn" unfolding dom by blast
      moreover have "\<forall>n \<in> dom (M i). ToLower n \<noteq> ToLower tn" using None unfolding dom GetTableInsensitive_None .
      ultimately show ?thesis by (simp add: wp i tab None)
    next
      case (Some a)
      from GetTableInsensitive_Some [OF this] obtain k where k: "(k, a) \<in> set ?t" "ToLower k = ToLower tn"
          "tn \<in> set (keys ?t) \<Longrightarrow> k = tn" by (metis map_of_SomeD)
      from k(1) ok have m: "map_of ?t k = Some a" by (simp add: database_ok_def map_ok_def)
      obtain t where t: "heap_table h a = Some t" "tbl_name t = k" by (rule database_ok_entry [OF ok m])
      then have "M i k = Some t" using Mi m by (simp add: db_abs_def)
      with t k(2,3) show ?thesis unfolding dom by (simp add: wp i dom tab Some)
    qed
  qed
qed

theorem catalog_finds_tables_witness:
  "\<exists>t. Catalog_Table mem_methods (run_world [(0, CreateOp ''Tab'' []), (0, RenameOp ''Tab'' ''Users'')] ([] :: unit heap, [NewDatabase ''db'']))
      (fold AddDatabase [0] (NewCatalog :: (nat, unit) Catalog)) ''DB'' ''USERS'' = Inr 0 \<and> tbl_name t = ''Users'' \<and>
     spec_world [(0, CreateOp ''Tab'' []), (0, RenameOp ''Tab'' ''Users'')] (\<lambda>_. Map.empty) 0 ''Users'' = Some t"
proof -
  let ?ops = "[(0, CreateOp ''Tab'' []), (0, RenameOp ''Tab'' ''Users'')]"
  let ?w = "run_world ?ops ([] :: unit heap, map NewDatabase [''db''])"
  let ?M = "spec_world ?ops (\<lambda>_. Map.empty)"
  let ?c = "fold AddDatabase [0..<length [''db'']] (NewCatalog :: (nat, unit) Catalog)"
  have low: "ToLower ''DB'' = ''db''" "ToLower ''db'' = ''db''" "ToLower ''USERS'' = ''users''" "ToLower ''Users'' = ''users''"
    by code_simp+
  have d: "database_index [''db''] ''DB'' = Some 0" by (simp add: database_index_def low)
  have r: "Catalog_Table mem_methods ?w ?c ''DB'' ''USERS'' = Inr 0"
    by (simp add: Catalog_Table_def Databases_Table_def Databases_Database_def mem_methods_def AddDatabase_def Databases_Add_def
        NewCatalog_def NewDatabase_def run_db_op_def CreateTable_def RenameTable_def GetTableInsensitive_def low)
  have "list_all (\<lambda>(i, op). i < length [''db'']) ?ops" by simp
  from catalog_finds_tables [OF this refl refl refl, where dbn = "''DB''" and tn = "''USERS''" and 'x = unit and 'e = unit] r
  obtain t where t: "heap_table (fst ?w) 0 = Some t" "?M 0 (tbl_name t) = Some t" unfolding d by auto
  from t(1) have "tbl_name t = ''Users''"
    by (simp add: NewDatabase_def run_db_op_def CreateTable_def RenameTable_def heap_table_def split: if_splits) auto
  with t(2) r show ?thesis by auto
qed

section \<open>The database as a registry\<close>

definition schema_abs :: "'x heap \<times> Database \<Rightarrow> string \<Rightarrow> Schema option" where
  "schema_abs s n = map_option tbl_schema (db_abs s n)"

interpretation dr: registry_del CreateTable "\<lambda>k. k" schema_abs database_ok DropTable
proof
  fix r :: "'x heap \<times> Database" and k v
  assume ok: "database_ok r"
  obtain h d where r: "r = (h, d)" by fastforce
  with ok have okd: "database_ok (h, d)" by simp
  { assume *: "schema_abs r k = None"
    then have "map_of (db_tables d) k = None" using db_abs_None [of h d k] ok r by (simp add: schema_abs_def)
    then obtain h' d' where c: "CreateTable k v (h, d) = Inr (h', d')" by (simp add: CreateTable_def)
    have "tbl_schema (NewTable k v) = v" by (simp add: NewTable_def NewPartitionedTable_def Let_def)
    moreover from Create_step [OF okd c] have "database_ok (h', d')" "db_abs (h', d') = (db_abs (h, d))(k \<mapsto> NewTable k v)"
      by blast+
    ultimately have "database_ok (h', d') \<and> schema_abs (h', d') = (schema_abs (h, d))(k \<mapsto> v)"
      by (simp add: schema_abs_def fun_eq_iff)
    with c show "\<exists>r'. CreateTable k v r = Inr r' \<and> database_ok r' \<and> schema_abs r' = (schema_abs r)(k \<mapsto> v)"
      unfolding r by blast }
  { assume "schema_abs r k \<noteq> None"
    then have "map_of (db_tables d) k \<noteq> None" using db_abs_None [of h d k] ok r by (auto simp: schema_abs_def)
    then show "\<exists>e. CreateTable k v r = Inl e" by (auto simp: CreateTable_def r) }
  { assume "schema_abs r k \<noteq> None"
    then have "map_of (db_tables d) k \<noteq> None" using db_abs_None [of h d k] ok r by (auto simp: schema_abs_def)
    then obtain h' d' where c: "DropTable k (h, d) = Inr (h', d')" by (auto simp: DropTable_def)
    from Drop_step [OF okd c] have "database_ok (h', d')" "db_abs (h', d') = (db_abs (h, d))(k := None)" by blast+
    then have "database_ok (h', d') \<and> schema_abs (h', d') = (schema_abs (h, d))(k := None)"
      by (simp add: schema_abs_def fun_eq_iff)
    with c show "\<exists>r'. DropTable k r = Inr r' \<and> database_ok r' \<and> schema_abs r' = (schema_abs r)(k := None)"
      unfolding r by blast }
  { assume "schema_abs r k = None"
    then have "map_of (db_tables d) k = None" using db_abs_None [of h d k] ok r by (simp add: schema_abs_def)
    then show "\<exists>e. DropTable k r = Inl e" by (simp add: DropTable_def r) }
qed

section \<open>Locking and unlocking tables\<close>

definition lockables :: "'a TableLock list \<Rightarrow> 'a set" where
  "lockables ls = {a. \<exists>l \<in> set ls. getLockable (lk_Table l) = Inr a}"

lemma lockables_Cons: "lockables (l # ls) = {a. getLockable (lk_Table l) = Inr a} \<union> lockables ls"
  by (auto simp: lockables_def)

lemma map_ok_cell: "map_ok m \<Longrightarrow> (k, v) \<in> set m \<longleftrightarrow> map_of m k = Some v"
  by (simp add: map_ok_def)

lemma set_locked_tables:
  assumes "map_ok (at_key sid (locks c))"
  shows "set (locked_tables sid c) = {(db, t). t \<in> dom (map_of (at_key db (at_key sid (locks c))))}"
proof -
  let ?m = "at_key sid (locks c)"
  have "(d, t) \<in> set (locked_tables sid c) \<longleftrightarrow> (\<exists>tl. (d, tl) \<in> set ?m \<and> t \<in> fst ` set tl)" for d t
    by (auto simp: locked_tables_def image_iff)
  also have "(\<exists>tl. (d, tl) \<in> set ?m \<and> t \<in> fst ` set tl) \<longleftrightarrow> t \<in> dom (map_of (at_key d ?m))" for d t
    unfolding map_ok_cell [OF assms] dom_map_of_conv_image_fst by (cases "map_of ?m d") (simp_all add: at_key_def [of d])
  finally show ?thesis by auto
qed

lemma LockTable_locks:
  assumes "map_ok (at_key sid (locks c))"
  shows "map_ok (at_key sid (locks (LockTable sid db t c)))" and "dbs (LockTable sid db t c) = dbs c"
    and "set (locked_tables sid (LockTable sid db t c)) = insert (db, t) (set (locked_tables sid c))"
    and "\<forall>s. s \<noteq> sid \<longrightarrow> map_of (locks (LockTable sid db t c)) s = map_of (locks c) s"
proof -
  have new: "at_key sid (locks (LockTable sid db t c)) =
      AList.update db (AList.update t () (at_key db (at_key sid (locks c)))) (at_key sid (locks c))"
    by (simp add: LockTable_def Let_def at_key_def [of sid "AList.update _ _ _"])
  show ok: "map_ok (at_key sid (locks (LockTable sid db t c)))" unfolding new using assms by simp
  have dom: "dom (map_of (at_key d (at_key sid (locks (LockTable sid db t c))))) =
      (if d = db then insert t (dom (map_of (at_key db (at_key sid (locks c))))) else dom (map_of (at_key d (at_key sid (locks c)))))" for d
    unfolding new by (simp add: at_key_def [of d])
  show "set (locked_tables sid (LockTable sid db t c)) = insert (db, t) (set (locked_tables sid c))"
    unfolding set_locked_tables [OF ok] set_locked_tables [OF assms] dom by (auto split: if_splits)
qed (simp_all add: LockTable_def Let_def)

text \<open>What the methods of lockable tables do: \<open>held\<close> are the locks on tables with the sessions that hold them.\<close>

definition locks_tables :: "('w, 'a) lockMethods \<Rightarrow> ('w \<Rightarrow> ('a \<times> u32) set) \<Rightarrow> bool" where
  "locks_tables L held \<longleftrightarrow>
     (\<forall>a s wr w. held (snd (l_Lock L a s wr w)) = (if fst (l_Lock L a s wr w) = None then insert (a, s) (held w) else held w)) \<and>
     (\<forall>a s w. \<exists>f. l_Unlock L a s = Some f \<and> fst (f w) = None \<and> held (snd (f w)) = held w - {(a, s)})"

lemma LockTables_effect:
  assumes "locks_tables L held" and "map_ok (at_key sid (locks c))" and "LockTables_RowIter L sid db ls c w ws = (ws', c', w')"
  shows "\<exists>B \<subseteq> lockables ls. held w' = held w \<union> (\<lambda>a. (a, sid)) ` B \<and> map_ok (at_key sid (locks c')) \<and>
    set (locked_tables sid c') = set (locked_tables sid c) \<union> (\<lambda>a. (db, l_Name L a)) ` B \<and>
    dbs c' = dbs c \<and> (\<forall>s. s \<noteq> sid \<longrightarrow> map_of (locks c') s = map_of (locks c) s)"
  using assms(2,3)
proof (induction ls arbitrary: c w ws)
  case (Cons l ls)
  show ?case
  proof (cases "getLockable (lk_Table l)")
    case (Inl e)
    with Cons.IH [of c w "ws @ [e]"] Cons.prems show ?thesis by (simp add: lockables_Cons)
  next
    case (Inr a)
    obtain r w1 where lk: "l_Lock L a sid (lk_Write l) w = (r, w1)" by fastforce
    have held: "held w1 = (if r = None then insert (a, sid) (held w) else held w)"
      using assms(1) lk unfolding locks_tables_def by (metis fst_conv snd_conv)
    have sub: "lockables (l # ls) = insert a (lockables ls)" using Inr by (auto simp: lockables_Cons)
    show ?thesis
    proof (cases r)
      case None
      note new = LockTable_locks [OF Cons.prems(1), of db "l_Name L a"]
      from Cons.IH [OF new(1), of w1 ws] Cons.prems(2) Inr lk None obtain B where B: "B \<subseteq> lockables ls"
          "held w' = held w1 \<union> (\<lambda>a. (a, sid)) ` B" "map_ok (at_key sid (locks c'))"
          "set (locked_tables sid c') = set (locked_tables sid (LockTable sid db (l_Name L a) c)) \<union> (\<lambda>a. (db, l_Name L a)) ` B"
          "dbs c' = dbs c" "\<And>s. s \<noteq> sid \<Longrightarrow> map_of (locks c') s = map_of (locks c) s"
        by (auto simp: new(2,4))
      show ?thesis using B held None new(3) sub by (intro exI [of _ "insert a B"]) auto
    next
      case (Some e)
      from Cons.IH [OF Cons.prems(1), of w1 "ws @ [e]"] Cons.prems(2) Inr lk Some held sub show ?thesis by auto
    qed
  qed
qed (auto intro: exI [of _ "{}"])

lemma unlock_loop_effect:
  assumes "locks_tables L held" and "\<And>d t. (d, t) \<in> set ts \<Longrightarrow> \<exists>a. \<forall>w. Databases_Table M w ds d t = Inr a"
  shows "\<exists>w'. unlock_loop M (\<lambda>t. l_Unlock L t sid) ds ts w errs = (errs, w') \<and>
    held w' = held w - {(a, sid) | a d t. (d, t) \<in> set ts \<and> Databases_Table M w ds d t = Inr a}"
  using assms(2)
proof (induction ts arbitrary: w)
  case (Cons dt ts)
  obtain d t where dt: "dt = (d, t)" by fastforce
  with Cons.prems obtain a where a: "\<And>w. Databases_Table M w ds d t = Inr a" by fastforce
  from assms(1) obtain f where f: "l_Unlock L a sid = Some f" "fst (f w) = None" "held (snd (f w)) = held w - {(a, sid)}"
    unfolding locks_tables_def by blast
  then obtain w1 where w1: "f w = (None, w1)" "held w1 = held w - {(a, sid)}" by (metis prod.collapse snd_conv)
  have indep: "Databases_Table M w1 ds d' t' = Databases_Table M w ds d' t'" if "(d', t') \<in> set ts" for d' t'
    using Cons.prems [of d' t'] that by fastforce
  from Cons.IH [of w1] Cons.prems obtain w' where w': "unlock_loop M (\<lambda>t. l_Unlock L t sid) ds ts w1 errs = (errs, w')"
      "held w' = held w1 - {(a, sid) | a d t. (d, t) \<in> set ts \<and> Databases_Table M w1 ds d t = Inr a}" by auto
  have "{(a, sid) | a d t. (d, t) \<in> set ts \<and> Databases_Table M w1 ds d t = Inr a} =
      {(a, sid) | a d t. (d, t) \<in> set ts \<and> Databases_Table M w ds d t = Inr a}" using indep by (metis (no_types, lifting))
  moreover have "{(b, sid) | b d' t'. (d', t') \<in> set (dt # ts) \<and> Databases_Table M w ds d' t' = Inr b} =
      insert (a, sid) {(a, sid) | a d t. (d, t) \<in> set ts \<and> Databases_Table M w ds d t = Inr a}" using a dt by auto
  ultimately have "held w' = held w - {(b, sid) | b d' t'. (d', t') \<in> set (dt # ts) \<and> Databases_Table M w ds d' t' = Inr b}"
    using w'(2) w1(2) by auto
  with w'(1) show ?case by (auto simp: dt a f w1)
qed simp


text \<open>Two tables of one database; another session holds a lock on the second one.\<close>

definition demo_tables :: "((nat \<times> u32) set, unit, nat) dbMethods" where
  "demo_tables = \<lparr>m_Name = \<lambda>_ _. ''d'', m_GetTableInsensitive = \<lambda>_ _ n. Inr (if n = ''a'' then Some 0 else Some 1),
     m_GetTableNames = \<lambda>_ _. Inr [''a'', ''b''], m_TablesAsOf = \<lambda>_. None\<rparr>"

definition demo_locks :: "((nat \<times> u32) set, nat) lockMethods" where
  "demo_locks = \<lparr>l_Name = \<lambda>t. if t = 0 then ''a'' else ''b'',
     l_Lock = \<lambda>t s wr w. if \<exists>s'. (t, s') \<in> w \<and> s' \<noteq> s then (Some (ErrGeneric ''locked''), w) else (None, insert (t, s) w),
     l_Unlock = \<lambda>t s. Some (\<lambda>w. (None, w - {(t, s)}))\<rparr>"


end
