(* ===== verification/Spec2Isabelle.thy ===== *)
theory Spec2Isabelle
  imports Similar_Text View_Registry Charset Set_Type Memory_Manager Query_Plans Join_Plans Lock_Subsystem Small_Types Sort_Iter Group_By Table_Alter Memory_Index Insert_Statements Catalogs
begin

text \<open>
  A verification library for go-mysql-server, a SQL engine written in Go. All paths are relative to \<^verbatim>\<open>src/\<close>.

  \<^bold>\<open>The program.\<close> A query is parsed and analysed into a tree of plan nodes (\<^verbatim>\<open>sql/plan\<close>). A node delivers its rows through an
  iterator (\<^verbatim>\<open>sql.RowIter\<close>) that reads the iterators of its children; at the leaves are the tables of a database, found by name in
  the catalog. The nodes evaluate expressions (\<^verbatim>\<open>sql/expression\<close>) on rows, whose values are converted and compared by their SQL
  types (\<^verbatim>\<open>sql/*type.go\<close>). Iterators that keep rows take caches from a memory manager. INSERT, UPDATE and DELETE are iterators too;
  they change a table through its editor. Sessions share the catalog, the views and the named locks.

  \<^bold>\<open>How it is modelled.\<close> Pure code is a function. A method that changes its receiver returns the new state. An error is a value of
  \<open>sql_error\<close> on the left of a sum, a run-time panic the error \<open>Panic\<close>. Values of \<^verbatim>\<open>interface{}\<close> are the datatype \<open>val\<close>, integers words
  of their width, floats their bit patterns. A Go map is an association list whose order is the order of iteration; where the code
  iterates over a map that it also changes, the order is an argument, and theorems hold for every order. Objects that are shared
  live in a heap and are named by their address. Interfaces are records of functions or arguments of a definition, and so is code
  of other packages (vitess, spf13/cast, shopspring/decimal, mitchellh/hashstructure, the LRU cache); what is assumed of it is a
  hypothesis of the theorems that need it. A loop that may run forever is a \<^theory_text>\<open>partial_function (option)\<close>, in which \<^const>\<open>None\<close> means
  that the call never returns, so a theorem with \<^const>\<open>Some\<close> on its right-hand side also says that the code terminates. There is no fuel
  in the model. The concurrent part, the named locks, is an inductive step relation over all sessions, one step for each atomic
  access to shared memory.

  \<^bold>\<open>Theories and sources.\<close>
  \<^item> \<open>Go_Prelude\<close>, \<open>Go_Values\<close>, \<open>Go_Float\<close>, \<open>Go_Strings\<close>: errors, maps, words, values, IEEE arithmetic and the functions of
    Go's \<^verbatim>\<open>strings\<close> and \<^verbatim>\<open>strconv\<close> that the code uses.
  \<^item> \<open>Similar_Text\<close>: \<^verbatim>\<open>internal/similartext\<close>. The two-row dynamic program computes the insertion/deletion distance, and the
    suggestion is the closest names.
  \<^item> \<open>Registry_Spec\<close>, \<open>View_Registry\<close>, \<open>Catalogs\<close>: the contract of registries, and its instances \<^verbatim>\<open>sql/viewregistry.go\<close>,
    \<^verbatim>\<open>sql/functionregistry.go\<close> and \<^verbatim>\<open>memory/database.go\<close>; \<^verbatim>\<open>sql/catalog.go\<close> and \<^verbatim>\<open>sql/plan/lock.go\<close>. Each refines a map; the catalog finds the
    tables of that map, and UNLOCK TABLES undoes LOCK TABLES.
  \<^item> \<open>Lock_Subsystem\<close>: \<^verbatim>\<open>sql/lock_subsystem.go\<close> with the lock sets of \<^verbatim>\<open>sql/session.go\<close>. Every interleaving refines an atomic
    lock; mutual exclusion, reentrance, release of all locks, and progress of an undisturbed call.
  \<^item> \<open>Memory_Manager\<close>: \<^verbatim>\<open>sql/memory.go\<close>, \<^verbatim>\<open>sql/cache.go\<close>. Positions of caches are unique; contents of the rows and history caches.
  \<^item> \<open>Charset\<close>, \<open>Set_Type\<close>, \<open>Enum_Type\<close>, \<open>Small_Types\<close>, \<open>Sql_Types\<close>, \<open>Type_Values\<close>: \<^verbatim>\<open>sql/charsetcollation.go\<close>, \<^verbatim>\<open>settype.go\<close>,
    \<^verbatim>\<open>enumtype.go\<close>, \<^verbatim>\<open>yeartype.go\<close>, \<^verbatim>\<open>bit.go\<close>, \<^verbatim>\<open>type.go\<close>, \<^verbatim>\<open>numbertype.go\<close>, \<^verbatim>\<open>decimal.go\<close>, \<^verbatim>\<open>stringtype.go\<close>. Well-formed types, round
    trips of marshalling and of type names, ranges of converted values, orders.
  \<^item> \<open>Logic_Exprs\<close>, \<open>Comparison\<close>, \<open>Aggregations\<close>: \<^verbatim>\<open>sql/expression\<close> (truth values, comparison, \<^verbatim>\<open>convert.go\<close>) and
    \<^verbatim>\<open>sql/expression/function/aggregation\<close>. Three-valued logic, comparison of integers of all widths, values of aggregates.
  \<^item> \<open>Row_Iter\<close>, \<open>Read_Loop\<close>, \<open>Plan_Iters\<close>, \<open>Plan_Iters2\<close>, \<open>Query_Plans\<close>: \<^verbatim>\<open>sql/row.go\<close> and the iterators of limit, offset, filter,
    having, project, distinct, union and cross join in \<^verbatim>\<open>sql/plan\<close>. The contract \<open>row_iter\<close> is a locale; every iterator keeps it when
    its children do, so that the rows of a plan follow by composition.
  \<^item> \<open>Join_Iter\<close>, \<open>Join_Plans\<close>: \<^verbatim>\<open>sql/plan/join.go\<close>. Inner, left and right joins in memory and multipass mode return the SQL join,
    except with an empty secondary side, where the iterator does not terminate.
  \<^item> \<open>Sort_Iter\<close>, \<open>Group_By\<close>: \<^verbatim>\<open>sql/plan/sort.go\<close>, \<^verbatim>\<open>sql/plan/group_by.go\<close>. The stable sort by the sort fields; one row per group with
    the values of the aggregates over its rows.
  \<^item> \<open>Table_Schema\<close>, \<open>Memory_Table\<close>, \<open>Table_Alter\<close>, \<open>Table_Scan\<close>, \<open>Memory_Index\<close>: \<^verbatim>\<open>sql/column.go\<close>, \<^verbatim>\<open>schema.go\<close>, \<^verbatim>\<open>columndefault.go\<close>,
    \<^verbatim>\<open>table_iter.go\<close> and \<^verbatim>\<open>memory\<close>. The editor refines a multiset of rows with unique keys; ALTER TABLE keeps the other columns; scans
    return the rows of all partitions, and lookups those they stand for.
  \<^item> \<open>Dml_Iters\<close>, \<open>Dml_Statements\<close>, \<open>Insert_Statements\<close>: \<^verbatim>\<open>sql/plan/insert.go\<close>, \<^verbatim>\<open>update.go\<close>, \<^verbatim>\<open>update_source.go\<close>, \<^verbatim>\<open>delete.go\<close>,
    \<^verbatim>\<open>row_update_accumulator.go\<close>, \<^verbatim>\<open>sql/ok_result.go\<close>. The statements, run to their end over a scan of the very table they change, have
    the effect and the counts that SQL gives them.

  \<^bold>\<open>Bounds.\<close> Integers wrap at their width. Sizes of rows, schemas and slices are natural numbers: they are lengths of
  slices in memory, which fit into an \<^verbatim>\<open>int\<close>. Names are compared with ASCII lower case.

  \<^bold>\<open>Not modelled.\<close> The parser (\<^verbatim>\<open>sql/parse\<close>) translates the syntax tree of vitess, a third-party package. The analyzer
  (\<^verbatim>\<open>sql/analyzer\<close>) rewrites plan trees, which the models do not have: a node is its iterator and an expression the function it
  computes. For the same reason children, printing and rewriting of nodes and expressions are left out, and nodes that are
  only a dispatch to modelled operations (\<^verbatim>\<open>sql/plan/ddl.go\<close>, views, triggers, SHOW and DESCRIBE, \<^verbatim>\<open>sql/information_schema\<close>). The
  functions on dates, on JSON and on floats compute with the \<^verbatim>\<open>time\<close>, \<^verbatim>\<open>encoding/json\<close> and \<^verbatim>\<open>math\<close> packages, LIKE and REGEXP with \<^verbatim>\<open>regexp\<close>.
  Sessions, the process list, the index registry of drivers, subqueries, indexed joins and the parallel exchange node are not
  modelled yet. \<^verbatim>\<open>engine.go\<close>, \<^verbatim>\<open>server\<close> and \<^verbatim>\<open>auth\<close> are network input and output and wiring; \<^verbatim>\<open>enginetest\<close>, \<^verbatim>\<open>benchmark\<close> and \<^verbatim>\<open>test\<close> are
  tests.
\<close>

end
